(* ===== verification/Prelude.thy ===== *)
theory Prelude
  imports Main "HOL-Library.Monad_Syntax"
begin

text \<open>
  The shared library of the development: the collections of simplification rules, the
  generic lemmas on lists and options, checked C integer arithmetic, and the interface of a
  transition system with an invariant.

  The C program is modelled in the option monad: \<open>None\<close> is undefined behaviour of the C
  program (an access outside of a buffer, a dereference of NULL or of a dangling pointer, a
  double free, the use of an uninitialised variable, a signed overflow), so a theorem that
  a function returns \<open>Some\<close> says in particular that the code does not fault.
  What the code itself treats as an error (a return of -1, of NULL, of 0) is a value.
\<close>

named_theorems cstr_simps \<open>C strings inside byte buffers\<close>
named_theorems io_simps \<open>sockets, reads and writes\<close>
named_theorems heap_simps \<open>heap cells and linked chains\<close>

section \<open>Options\<close>

text \<open>A check that faults when it fails, and its rules.\<close>

definition check :: "bool \<Rightarrow> unit option" where
  "check b = (if b then Some () else None)"

lemma check_simps [simp]:
  "check True = Some ()" "check False = None"
  by (simp_all add: check_def)

lemma check_bind [simp]: "(check b \<bind> f) = (if b then f () else None)"
  by (simp add: check_def)

lemma bind_SomeE:
  assumes "(m \<bind> f) = Some y"
  obtains x where "m = Some x" and "f x = Some y"
  using assms by (cases m) auto

text \<open>Taking a number of elements one after another.\<close>

primrec take_times :: "('s \<Rightarrow> ('d \<times> 's) option) \<Rightarrow> nat \<Rightarrow> 's \<Rightarrow> ('d list \<times> 's) option" where
  "take_times f 0 s = Some ([], s)"
| "take_times f (Suc n) s = do { (d, s) \<leftarrow> f s; (ds, s) \<leftarrow> take_times f n s; Some (d # ds, s) }"

section \<open>C integers\<close>

text \<open>
  The type \<open>int\<close> of the program's platform has 32 bits, \<open>long\<close> and \<open>time_t\<close> have 64. A
  signed result outside of the range is undefined behaviour, so arithmetic whose range is
  not bounded by the code is checked.
\<close>

definition int_of_bits :: "nat \<Rightarrow> int \<Rightarrow> int option" where
  "int_of_bits w x = (if - (2 ^ (w - 1)) \<le> x \<and> x < 2 ^ (w - 1) then Some x else None)"

abbreviation c_int :: "int \<Rightarrow> int option" where "c_int \<equiv> int_of_bits 32"
abbreviation c_long :: "int \<Rightarrow> int option" where "c_long \<equiv> int_of_bits 64"

lemma int_of_bits_Some_iff:
  "int_of_bits w x = Some y \<longleftrightarrow> y = x \<and> - (2 ^ (w - 1)) \<le> x \<and> x < 2 ^ (w - 1)"
  by (auto simp: int_of_bits_def)

text \<open>The remainder of C: truncated division, so its sign is that of the dividend.\<close>

definition c_rem :: "int \<Rightarrow> int \<Rightarrow> int" where
  "c_rem a b = sgn a * (\<bar>a\<bar> mod \<bar>b\<bar>)"

lemma c_rem_nonneg: "0 \<le> a \<Longrightarrow> 0 < b \<Longrightarrow> c_rem a b = a mod b"
  by (auto simp: c_rem_def sgn_if)

lemma c_rem_neg: "a < 0 \<Longrightarrow> 0 < b \<Longrightarrow> c_rem a b = - ((- a) mod b)"
  by (simp add: c_rem_def)

section \<open>Lists\<close>

lemma takeWhile_append_notin:
  "\<forall>c\<in>set w. P c \<Longrightarrow> \<not> P d \<Longrightarrow> takeWhile P (w @ d # r) = w"
  by (induction w) auto

lemma takeWhile_id_notin: "d \<notin> set w \<Longrightarrow> takeWhile (\<lambda>c. c \<noteq> d) w = w"
  by (induction w) auto

lemma takeWhile_split:
  "d \<notin> set w \<Longrightarrow> takeWhile (\<lambda>c. c \<noteq> d) (w @ d # r) = w"
  by (induction w) auto

lemma split_list_at:
  assumes "d \<in> set s"
  obtains w r where "s = w @ d # r" and "d \<notin> set w"
  using assms by (metis split_list_first)

lemma distinct_concat_upt:
  assumes "\<And>i. i < n \<Longrightarrow> distinct (f i)"
    and "\<And>i j. i < n \<Longrightarrow> j < n \<Longrightarrow> i \<noteq> j \<Longrightarrow> set (f i) \<inter> set (f j) = {}"
  shows "distinct (concat (map f [0..<n]))"
  using assms
proof (induction n)
  case (Suc n)
  have "distinct (concat (map f [0..<n]))" by (rule Suc.IH) (use Suc.prems in simp_all)
  moreover have "distinct (f n)" by (rule Suc.prems(1)) simp
  moreover have "x \<notin> set (f n)" if "i < n" "x \<in> set (f i)" for i x
    using Suc.prems(2) [of i n] that by auto
  ultimately show ?case by auto
qed simp

section \<open>Transition systems and their invariants\<close>

text \<open>
  The threads of the program are modelled as step relations. The states that a system
  reaches from its start states, and the interface under which an invariant of the steps
  holds in all of them.
\<close>

inductive reach :: "('s \<Rightarrow> bool) \<Rightarrow> ('s \<Rightarrow> 's \<Rightarrow> bool) \<Rightarrow> 's \<Rightarrow> bool"
  for start :: "'s \<Rightarrow> bool" and step :: "'s \<Rightarrow> 's \<Rightarrow> bool" where
  reach_start: "start s \<Longrightarrow> reach start step s"
| reach_step: "reach start step s \<Longrightarrow> step s t \<Longrightarrow> reach start step t"

inductive steps :: "('s \<Rightarrow> 's \<Rightarrow> bool) \<Rightarrow> 's \<Rightarrow> 's \<Rightarrow> bool"
  for step :: "'s \<Rightarrow> 's \<Rightarrow> bool" where
  steps_refl: "steps step s s"
| steps_step: "step s t \<Longrightarrow> steps step t u \<Longrightarrow> steps step s u"

lemma reach_steps:
  assumes "steps step s t" and "reach start step s"
  shows "reach start step t"
  using assms by (induction rule: steps.induct) (auto intro: reach_step)

locale invariant_system =
  fixes start :: "'s \<Rightarrow> bool"
    and step :: "'s \<Rightarrow> 's \<Rightarrow> bool"
    and inv :: "'s \<Rightarrow> bool"
  assumes inv_start: "start s \<Longrightarrow> inv s"
    and inv_step: "inv s \<Longrightarrow> step s t \<Longrightarrow> inv t"
begin

lemma inv_reach: "reach start step s \<Longrightarrow> inv s"
  by (induction rule: reach.induct) (auto intro: inv_start inv_step)

lemma inv_steps: "steps step s t \<Longrightarrow> inv s \<Longrightarrow> inv t"
  by (induction rule: steps.induct) (auto intro: inv_step)

end

text \<open>
  A detailed system that does what an abstract one does, seen through \<open>abs\<close>: every step is a step of
  the abstract system or is not seen by it. What is reached then is reached there.
\<close>

locale simulation =
  fixes start :: "'s \<Rightarrow> bool"
    and step :: "'s \<Rightarrow> 's \<Rightarrow> bool"
    and astart :: "'a \<Rightarrow> bool"
    and astep :: "'a \<Rightarrow> 'a \<Rightarrow> bool"
    and abs :: "'s \<Rightarrow> 'a"
  assumes abs_start: "start s \<Longrightarrow> astart (abs s)"
    and abs_step: "step s t \<Longrightarrow> astep (abs s) (abs t) \<or> abs t = abs s"
begin

lemma reach_abs: "reach start step s \<Longrightarrow> reach astart astep (abs s)"
proof (induction rule: reach.induct)
  case (reach_start s)
  then show ?case by (intro reach.reach_start abs_start)
next
  case (reach_step s t)
  then show ?case using abs_step [OF reach_step(2)] by (auto intro: reach.reach_step)
qed

end

end
