(* ===== verification/CString.thy ===== *)
theory CString
  imports Prelude "HOL-Library.Char_ord"
begin

text \<open>
  Byte buffers and the C string functions the program calls on them (strlen, strsep,
  strcasecmp, strncasecmp, strtol, atoi, sprintf). A buffer is the list of the bytes of one
  allocation and a pointer into it is an offset. Every access is checked against the size of
  the allocation.
\<close>

section \<open>Bytes\<close>

abbreviation NUL :: char where "NUL \<equiv> CHR 0x00"
abbreviation LF :: char where "LF \<equiv> CHR 0x0A"
abbreviation CR :: char where "CR \<equiv> CHR 0x0D"
abbreviation SP :: char where "SP \<equiv> CHR 0x20"
abbreviation COLON :: char where "COLON \<equiv> CHR 0x3A"
abbreviation COMMA :: char where "COMMA \<equiv> CHR 0x2C"

type_synonym cbuf = "char list"

text \<open>The type \<open>char\<close> of the platform is signed.\<close>

definition schar :: "char \<Rightarrow> int" where
  "schar c = (let n = of_char c in if n < 128 then n else n - 256)"

definition tolower :: "char \<Rightarrow> char" where
  "tolower c = (let n = (of_char c :: nat) in
     if 65 \<le> n \<and> n \<le> 90 then char_of (n + 32) else c)"

definition isdigit :: "char \<Rightarrow> bool" where
  "isdigit c = (let n = (of_char c :: nat) in 48 \<le> n \<and> n \<le> 57)"

definition isspace :: "char \<Rightarrow> bool" where
  "isspace c = (let n = (of_char c :: nat) in n = 32 \<or> (9 \<le> n \<and> n \<le> 13))"

definition digit_val :: "char \<Rightarrow> int" where
  "digit_val c = int (of_char c) - 48"

lemma schar_bounds: "-128 \<le> schar c \<and> schar c \<le> 127"
proof -
  have e: "(of_char c :: int) mod 256 = of_char c" by simp
  have "0 \<le> (of_char c :: int) mod 256" "(of_char c :: int) mod 256 < 256"
    by (rule pos_mod_sign, simp) (rule pos_mod_bound, simp)
  then have "0 \<le> (of_char c :: int)" "(of_char c :: int) < 256" by (simp_all only: e)
  then show ?thesis by (auto simp: schar_def Let_def)
qed

section \<open>Reads and writes\<close>

definition peek :: "cbuf \<Rightarrow> nat \<Rightarrow> char option" where
  "peek b i = (if i < length b then Some (b ! i) else None)"

definition poke :: "cbuf \<Rightarrow> nat \<Rightarrow> char \<Rightarrow> cbuf option" where
  "poke b i c = (if i < length b then Some (b[i := c]) else None)"

text \<open>\<open>strlen(p)\<close>: the distance to the first NUL, which has to be inside of the buffer.\<close>

definition strlen :: "cbuf \<Rightarrow> nat \<Rightarrow> nat option" where
  "strlen b p = (let n = length (takeWhile (\<lambda>c. c \<noteq> NUL) (drop p b))
     in if p + n < length b then Some n else None)"

text \<open>The string at \<open>p\<close>, without its NUL.\<close>

definition cstr :: "cbuf \<Rightarrow> nat \<Rightarrow> string option" where
  "cstr b p = do { n \<leftarrow> strlen b p; Some (take n (drop p b)) }"

text \<open>The idiom \<open>*(p + strlen(p)) = c\<close>, by which the program undoes a \<open>strsep\<close>.\<close>

definition restore :: "cbuf \<Rightarrow> nat \<Rightarrow> char \<Rightarrow> cbuf option" where
  "restore b p c = do { n \<leftarrow> strlen b p; poke b (p + n) c }"

text \<open>
  \<open>strsep(&p, d)\<close> for a single delimiter: the token, the new value of \<open>p\<close> (\<open>None\<close> is NULL)
  and the buffer, where the delimiter after the token is overwritten by NUL.
\<close>

definition strsep :: "cbuf \<Rightarrow> nat option \<Rightarrow> char \<Rightarrow> (nat option \<times> nat option \<times> cbuf) option" where
  "strsep b sp d = (case sp of
     None \<Rightarrow> Some (None, None, b)
   | Some p \<Rightarrow> do {
       s \<leftarrow> cstr b p;
       let n = length (takeWhile (\<lambda>c. c \<noteq> d) s);
       if n < length s
       then do { b' \<leftarrow> poke b (p + n) NUL; Some (Some p, Some (p + n + 1), b') }
       else Some (Some p, None, b) })"

section \<open>Comparison, conversion and formatting\<close>

text \<open>The comparisons are used for equality only; both arguments are NUL-free.\<close>

definition strcaseeq :: "string \<Rightarrow> string \<Rightarrow> bool" where
  "strcaseeq s t \<longleftrightarrow> map tolower s = map tolower t"

definition strncaseeq :: "string \<Rightarrow> string \<Rightarrow> nat \<Rightarrow> bool" where
  "strncaseeq s t n \<longleftrightarrow> map tolower (take n s) = map tolower (take n t)"

fun digits_val :: "int \<Rightarrow> string \<Rightarrow> int" where
  "digits_val a [] = a"
| "digits_val a (c # s) = (if isdigit c then digits_val (10 * a + digit_val c) s else a)"

definition long_max :: int where "long_max = 2 ^ 63 - 1"
definition long_min :: int where "long_min = - (2 ^ 63)"

text \<open>\<open>strtol(s, NULL, 10)\<close>: white space, a sign, digits; the result saturates.\<close>

definition strtol :: "string \<Rightarrow> int" where
  "strtol s = (let s' = dropWhile isspace s;
     v = (case s' of
            [] \<Rightarrow> 0
          | c # r \<Rightarrow> if c = CHR ''-'' then - digits_val 0 r
                    else if c = CHR ''+'' then digits_val 0 r
                    else digits_val 0 s')
     in max long_min (min long_max v))"

text \<open>\<open>atoi\<close> is \<open>strtol\<close> cut to the 32 bits of an int.\<close>

definition to_int32 :: "int \<Rightarrow> int" where
  "to_int32 x = (x + 2 ^ 31) mod 2 ^ 32 - 2 ^ 31"

definition atoi :: "string \<Rightarrow> int" where
  "atoi s = to_int32 (strtol s)"

text \<open>Decimal output (\<open>%d\<close>, \<open>%lu\<close>).\<close>

fun nat_digits :: "nat \<Rightarrow> string" where
  "nat_digits n = (if n < 10 then [char_of (48 + n)]
     else nat_digits (n div 10) @ [char_of (48 + n mod 10)])"

declare nat_digits.simps [simp del]

definition show_int :: "int \<Rightarrow> string" where
  "show_int i = (if i < 0 then CHR ''-'' # nat_digits (nat (- i)) else nat_digits (nat i))"

text \<open>\<open>sprintf\<close> into an array of \<open>cap\<close> bytes: the text and its NUL have to fit.\<close>

definition sprintf :: "nat \<Rightarrow> string \<Rightarrow> string option" where
  "sprintf cap s = (if length s < cap then Some s else None)"

section \<open>Rules for strings at a known place of a buffer\<close>

lemma peek_at [cstr_simps]: "peek (pre @ c # post) (length pre) = Some c"
  by (simp add: peek_def)

lemma poke_at: "n = length pre + length w \<Longrightarrow> poke (pre @ w @ c # post) n d = Some (pre @ w @ d # post)"
  by (simp add: poke_def list_update_append)

lemma strlen_at:
  assumes "NUL \<notin> set w"
  shows "strlen (pre @ w @ NUL # post) (length pre) = Some (length w)"
  using assms by (simp add: strlen_def takeWhile_split)

lemma cstr_at:
  assumes "NUL \<notin> set w"
  shows "cstr (pre @ w @ NUL # post) (length pre) = Some w"
  using assms by (simp add: cstr_def strlen_at)

lemma restore_at:
  assumes "NUL \<notin> set w"
  shows "restore (pre @ w @ NUL # post) (length pre) c = Some (pre @ w @ c # post)"
  using assms by (simp add: restore_def strlen_at poke_at)

lemma strsep_hit:
  assumes "NUL \<notin> set w" "d \<notin> set w" "d \<noteq> NUL" "NUL \<notin> set r"
  shows "strsep (pre @ w @ d # r @ NUL # post) (Some (length pre)) d =
    Some (Some (length pre), Some (length pre + length w + 1), pre @ w @ NUL # r @ NUL # post)"
proof -
  have "cstr (pre @ (w @ d # r) @ NUL # post) (length pre) = Some (w @ d # r)"
    using assms by (intro cstr_at) auto
  with assms show ?thesis
    by (simp add: strsep_def takeWhile_split poke_at)
qed

lemma strsep_miss:
  assumes "NUL \<notin> set w" "d \<notin> set w"
  shows "strsep (pre @ w @ NUL # post) (Some (length pre)) d =
    Some (Some (length pre), None, pre @ w @ NUL # post)"
  using assms by (simp add: strsep_def cstr_at takeWhile_id_notin)

lemma strsep_None [simp]: "strsep b None d = Some (None, None, b)"
  by (simp add: strsep_def)

text \<open>What every successful call keeps: the size of the buffer, and progress of \<open>strsep\<close>.\<close>

lemma poke_length: "poke b i c = Some b' \<Longrightarrow> length b' = length b"
  by (auto simp: poke_def split: if_splits)

lemma restore_length: "restore b p c = Some b' \<Longrightarrow> length b' = length b"
  by (auto simp: restore_def elim!: bind_SomeE dest: poke_length)

lemma strsep_length: "strsep b sp d = Some (t, sp', b') \<Longrightarrow> length b' = length b"
  by (auto simp: strsep_def Let_def split: option.splits if_splits elim!: bind_SomeE dest: poke_length)

lemma strsep_progress:
  assumes "strsep b sp d = Some (t, Some p', b')"
  shows "\<exists>p. sp = Some p \<and> p < p' \<and> p' \<le> length b"
  using assms
  by (auto simp: strsep_def Let_def poke_def split: option.splits if_splits elim!: bind_SomeE)

lemma strsep_token: "strsep b (Some p) d = Some (t, sp', b') \<Longrightarrow> t = Some p"
  by (auto simp: strsep_def Let_def split: if_splits elim!: bind_SomeE)

lemmas buffer_lengths = poke_length restore_length strsep_length

lemma tolower_CR: "tolower c = tolower CR \<longleftrightarrow> c = CR"
proof
  assume "tolower c = tolower CR"
  then have "(of_char (tolower c) :: nat) = 13" by (simp add: tolower_def)
  then have "(of_char c :: nat) = 13"
    by (auto simp: tolower_def Let_def split: if_splits)
  moreover have "of_char CR = (13::nat)" by simp
  ultimately have "of_char c = (of_char CR :: nat)" by (rule trans [OF _ sym])
  then show "c = CR" by (rule of_char_eqI)
qed simp

lemma strcaseeq_refl [simp]: "strcaseeq s s"
  by (simp add: strcaseeq_def)

lemma sprintf_Some_iff [simp]: "sprintf cap s = Some t \<longleftrightarrow> t = s \<and> length s < cap"
  by (auto simp: sprintf_def)

end
