(* ===== verification/Timeparse.thy ===== *)
theory Timeparse
  imports CString
begin

text \<open>
  The times of \<^verbatim>\<open>timeparse.c\<close>: broken-down times (\<open>struct tm\<close>), the comparison \<open>timeAgtB\<close>,
  the expiry of a \<open>max-age\<close>, and the strings that are logged. The calendar functions of the
  C library that the code calls (\<open>gmtime\<close>, \<open>mktime\<close>, \<open>asctime\<close>) are modelled on the proleptic
  Gregorian calendar. The clock (\<open>time(NULL)\<close>) and the offset of the local zone, in seconds
  east of UTC, are arguments; the local zone has no daylight saving time.
\<close>

record tm =
  tm_sec :: int
  tm_min :: int
  tm_hour :: int
  tm_mday :: int
  tm_mon :: int
  tm_year :: int
  tm_wday :: int
  tm_yday :: int
  tm_isdst :: int

section \<open>The calendar\<close>

text \<open>
  Days since 1 January 1970. Years are counted from 1 March, so that the leap day is the
  last day of a year; an era is 400 years of 146097 days.
\<close>

definition days_of_civil :: "int \<Rightarrow> int \<Rightarrow> int \<Rightarrow> int" where
  "days_of_civil y m d =
     (let y' = (if m \<le> 2 then y - 1 else y);
          yoe = y' mod 400;
          mp = (if m \<le> 2 then m + 9 else m - 3);
          doy = (153 * mp + 2) div 5 + d - 1
      in (y' div 400) * 146097 + (yoe * 365 + yoe div 4 - yoe div 100 + doy) - 719468)"

text \<open>
  The inverse takes eras, centuries, spans of four years and years off the day number; the
  last century, span and year may be a day longer.
\<close>

definition year_split :: "int \<Rightarrow> int \<times> int" where
  "year_split doe =
     (let c = min 3 (doe div 36524); r1 = doe - c * 36524;
          q = min 24 (r1 div 1461); r2 = r1 - q * 1461;
          y = min 3 (r2 div 365)
      in (100 * c + 4 * q + y, r2 - y * 365))"

definition civil_of_days :: "int \<Rightarrow> int \<times> int \<times> int" where
  "civil_of_days days =
     (let z = days + 719468;
          (yoe, doy) = year_split (z mod 146097);
          mp = (5 * doy + 2) div 153;
          m = (if mp < 10 then mp + 3 else mp - 9)
      in (yoe + (z div 146097) * 400 + (if m \<le> 2 then 1 else 0), m,
          doy - (153 * mp + 2) div 5 + 1))"

text \<open>\<open>gmtime\<close> returns NULL when the year does not fit into an int.\<close>

definition gmtime :: "int \<Rightarrow> tm option" where
  "gmtime t =
     (let days = t div 86400; rest = t mod 86400;
          (y, m, d) = civil_of_days days
      in case c_int (y - 1900) of
           None \<Rightarrow> None
         | Some yr \<Rightarrow> Some \<lparr>tm_sec = rest mod 60, tm_min = rest div 60 mod 60,
             tm_hour = rest div 3600, tm_mday = d, tm_mon = m - 1, tm_year = yr,
             tm_wday = (days + 4) mod 7, tm_yday = days - days_of_civil y 1 1,
             tm_isdst = 0\<rparr>)"

text \<open>\<open>mktime\<close> reads a broken-down time as local time.\<close>

definition mktime :: "int \<Rightarrow> tm \<Rightarrow> int" where
  "mktime zone t =
     days_of_civil (tm_year t + 1900) (tm_mon t + 1) (tm_mday t) * 86400
     + tm_hour t * 3600 + tm_min t * 60 + tm_sec t - zone"

definition wday_names :: "string list" where
  "wday_names = [''Sun'', ''Mon'', ''Tue'', ''Wed'', ''Thu'', ''Fri'', ''Sat'']"

definition mon_names :: "string list" where
  "mon_names = [''Jan'', ''Feb'', ''Mar'', ''Apr'', ''May'', ''Jun'',
     ''Jul'', ''Aug'', ''Sep'', ''Oct'', ''Nov'', ''Dec'']"

definition name_of :: "string list \<Rightarrow> int \<Rightarrow> string" where
  "name_of ns i = (if 0 \<le> i \<and> i < int (length ns) then ns ! nat i else ''???'')"

definition pad_left :: "nat \<Rightarrow> char \<Rightarrow> string \<Rightarrow> string" where
  "pad_left n c s = replicate (n - length s) c @ s"

text \<open>The format of \<open>asctime\<close> is \<^verbatim>\<open>"%.3s %.3s%3d %.2d:%.2d:%.2d %d\n"\<close>.\<close>

definition asctime :: "tm \<Rightarrow> string" where
  "asctime t = name_of wday_names (tm_wday t) @ [SP] @ name_of mon_names (tm_mon t)
     @ pad_left 3 SP (show_int (tm_mday t)) @ [SP]
     @ pad_left 2 (CHR ''0'') (show_int (tm_hour t)) @ [COLON]
     @ pad_left 2 (CHR ''0'') (show_int (tm_min t)) @ [COLON]
     @ pad_left 2 (CHR ''0'') (show_int (tm_sec t)) @ [SP]
     @ show_int (1900 + tm_year t) @ [LF]"

section \<open>The functions of the program\<close>

definition timeAgtB :: "int \<Rightarrow> tm \<Rightarrow> tm \<Rightarrow> int" where
  "timeAgtB zone tmm tmm2 =
     (let time1_t = mktime zone tmm; time2_t = mktime zone tmm2
      in if time1_t - time2_t = 0 then 0
         else if time1_t - time2_t > 0 then 1 else -1)"

definition getCurrentTime :: "int \<Rightarrow> tm option" where
  "getCurrentTime now = gmtime now"

definition getTimeFromExpiry :: "int \<Rightarrow> int \<Rightarrow> tm option" where
  "getTimeFromExpiry now expiry = do { newTimeT \<leftarrow> c_long (now + expiry); gmtime newTimeT }"

definition getTimeFromStruct :: "tm \<Rightarrow> string option" where
  "getTimeFromStruct tmm = sprintf 50 (asctime tmm)"

definition getCurrentTimeStr :: "int \<Rightarrow> int \<Rightarrow> string option" where
  "getCurrentTimeStr zone rawtime = do {
     timeinfo \<leftarrow> gmtime (rawtime + zone);
     sprintf 50 (asctime timeinfo) }"

section \<open>The calendar is a bijection on the days\<close>

lemma year_split_bounds:
  assumes "0 \<le> doe" "doe < 146097" "year_split doe = (yoe, doy)"
  shows "0 \<le> yoe" "yoe \<le> 399" "0 \<le> doy" "doy \<le> 365"
    and "doe = yoe * 365 + yoe div 4 - yoe div 100 + doy"
proof -
  define c where "c = min 3 (doe div 36524)"
  define r1 where "r1 = doe - c * 36524"
  define q where "q = min 24 (r1 div 1461)"
  define r2 where "r2 = r1 - q * 1461"
  define y where "y = min 3 (r2 div 365)"
  have yoe: "yoe = 100 * c + 4 * q + y" and doy: "doy = r2 - y * 365"
    using assms(3) by (auto simp: year_split_def Let_def c_def r1_def q_def r2_def y_def)
  have c: "0 \<le> c" "c \<le> 3" and r1: "0 \<le> r1" "r1 \<le> 36524"
    using assms(1,2) unfolding r1_def c_def by linarith+
  have q: "0 \<le> q" "q \<le> 24" and r2: "0 \<le> r2" "r2 \<le> 1460"
    using r1 unfolding r2_def q_def by linarith+
  have y: "0 \<le> y" "y \<le> 3" and d: "0 \<le> doy" "doy \<le> 365"
    using r2 unfolding doy y_def by linarith+
  have "yoe div 4 = 25 * c + q" "yoe div 100 = c"
    unfolding yoe using y q by linarith+
  moreover have "doe = c * 36524 + q * 1461 + y * 365 + doy"
    by (simp add: doy r2_def r1_def)
  ultimately show "doe = yoe * 365 + yoe div 4 - yoe div 100 + doy" 
    by (simp add: yoe)
  show "0 \<le> yoe" "yoe \<le> 399" "0 \<le> doy" "doy \<le> 365" using c q y d yoe by simp_all
qed

lemma month_bounds:
  fixes doy :: int
  assumes "0 \<le> doy" "doy \<le> 365" "mp = (5 * doy + 2) div 153"
  shows "0 \<le> mp" "mp \<le> 11" "1 \<le> doy - (153 * mp + 2) div 5 + 1" "doy - (153 * mp + 2) div 5 + 1 \<le> 31"
  using assms by linarith+

lemma days_of_civil_inverse:
  assumes "civil_of_days days = (y, m, d)"
  shows "days_of_civil y m d = days" and "1 \<le> m" "m \<le> 12" "1 \<le> d" "d \<le> 31"
proof -
  define z where "z = days + 719468"
  obtain yoe doy where s: "year_split (z mod 146097) = (yoe, doy)" by fastforce
  define mp where "mp = (5 * doy + 2) div 153"
  have doe: "0 \<le> z mod 146097" "z mod 146097 < 146097" by simp_all
  note b = year_split_bounds [OF doe s]
  note mb = month_bounds [OF b(3,4) mp_def]
  have m: "m = (if mp < 10 then mp + 3 else mp - 9)"
    and y: "y = yoe + (z div 146097) * 400 + (if m \<le> 2 then 1 else 0)"
    and d: "d = doy - (153 * mp + 2) div 5 + 1"
    using assms s by (auto simp: civil_of_days_def Let_def z_def mp_def)
  have mp: "(if m \<le> 2 then m + 9 else m - 3) = mp" using m mb(1,2) by auto
  have y': "(if m \<le> 2 then y - 1 else y) = yoe + (z div 146097) * 400" using y by simp
  have e: "(yoe + (z div 146097) * 400) mod 400 = yoe" "(yoe + (z div 146097) * 400) div 400 = z div 146097"
    using b(1,2) by simp_all
  have "days_of_civil y m d = z div 146097 * 146097 + z mod 146097 - 719468"
    unfolding days_of_civil_def Let_def mp y' e using b(5) d by simp
  then show "days_of_civil y m d = days" by (simp add: z_def)
  show "1 \<le> m" "m \<le> 12" "1 \<le> d" "d \<le> 31" using m d mb by auto
qed
lemma gmtime_SomeD:
  assumes "gmtime t = Some c"
  shows "mktime zone c = t - zone"
    and "0 \<le> tm_sec c \<and> tm_sec c \<le> 59" "0 \<le> tm_min c \<and> tm_min c \<le> 59"
    "0 \<le> tm_hour c \<and> tm_hour c \<le> 23" "1 \<le> tm_mday c \<and> tm_mday c \<le> 31"
    "0 \<le> tm_mon c \<and> tm_mon c \<le> 11" "0 \<le> tm_wday c \<and> tm_wday c \<le> 6"
    "- (2 ^ 31) \<le> tm_year c \<and> tm_year c < 2 ^ 31" "tm_isdst c = 0"
proof -
  obtain y m d where civ: "civil_of_days (t div 86400) = (y, m, d)"
    by (cases "civil_of_days (t div 86400)") auto
  note inv = days_of_civil_inverse [OF civ]
  have c: "c = \<lparr>tm_sec = t mod 86400 mod 60, tm_min = t mod 86400 div 60 mod 60,
             tm_hour = t mod 86400 div 3600, tm_mday = d, tm_mon = m - 1, tm_year = y - 1900,
             tm_wday = (t div 86400 + 4) mod 7, tm_yday = t div 86400 - days_of_civil y 1 1,
             tm_isdst = 0\<rparr>"
    and yr: "- (2 ^ 31) \<le> y - 1900 \<and> y - 1900 < 2 ^ 31"
    using assms civ by (auto simp: gmtime_def Let_def int_of_bits_def split: if_splits)
  define r where "r = t mod 86400"
  have r: "0 \<le> r" "r < 86400" by (simp_all add: r_def)
  have "r div 3600 = r div 60 div 60" by (simp add: zdiv_zmult2_eq [symmetric])
  then have hms: "r div 3600 * 3600 + r div 60 mod 60 * 60 + r mod 60 = r"
    using div_mult_mod_eq [of r 60] div_mult_mod_eq [of "r div 60" 60] by linarith
  have "mktime zone c = t div 86400 * 86400 + (r div 3600 * 3600 + r div 60 mod 60 * 60 + r mod 60) - zone"
    using inv(1) by (simp add: c mktime_def r_def)
  also have "\<dots> = t - zone" by (simp only: hms) (simp add: r_def)
  finally show "mktime zone c = t - zone" .
  have "0 \<le> r div 3600" "r div 3600 \<le> 23" using r by linarith+
  moreover have "0 \<le> x mod 60 \<and> x mod 60 \<le> (59::int)" "0 \<le> x mod 7 \<and> x mod 7 \<le> (6::int)" for x
    using pos_mod_bound [of 60 x] pos_mod_bound [of 7 x] by (simp_all del: pos_mod_bound)
  ultimately show "0 \<le> tm_sec c \<and> tm_sec c \<le> 59" "0 \<le> tm_min c \<and> tm_min c \<le> 59"
    "0 \<le> tm_hour c \<and> tm_hour c \<le> 23" "0 \<le> tm_wday c \<and> tm_wday c \<le> 6"
    unfolding c r_def tm.simps by blast+
  show "1 \<le> tm_mday c \<and> tm_mday c \<le> 31" "0 \<le> tm_mon c \<and> tm_mon c \<le> 11"
    "- (2 ^ 31) \<le> tm_year c \<and> tm_year c < 2 ^ 31" "tm_isdst c = 0"
    using inv(2-) yr unfolding c tm.simps by simp_all
qed

lemma civil_of_days_year:
  assumes "civil_of_days days = (y, m, d)"
  shows "y \<le> (days + 719468) div 146097 * 400 + 400" "(days + 719468) div 146097 * 400 \<le> y"
proof -
  define z where "z = days + 719468"
  obtain yoe doy where s: "year_split (z mod 146097) = (yoe, doy)" by fastforce
  have "0 \<le> z mod 146097" "z mod 146097 < 146097" by simp_all
  from year_split_bounds(1,2) [OF this s]
  show "y \<le> (days + 719468) div 146097 * 400 + 400" "(days + 719468) div 146097 * 400 \<le> y"
    using assms s by (auto simp: civil_of_days_def Let_def z_def split: if_splits)
qed

lemma gmtime_defined:
  assumes "- (2 ^ 55) \<le> t" "t \<le> 2 ^ 55"
  shows "\<exists>c. gmtime t = Some c"
proof -
  obtain y m d where civ: "civil_of_days (t div 86400) = (y, m, d)"
    by (cases "civil_of_days (t div 86400)") auto
  have "- 417000000000 \<le> t div 86400" "t div 86400 \<le> 417000000000"
    using assms by simp_all
  then have "- 1200000000 \<le> y" "y \<le> 1200000000"
    using civil_of_days_year [OF civ] by linarith+
  then show ?thesis using civ by (simp add: gmtime_def int_of_bits_def Let_def)
qed


section \<open>Log strings fit their buffer\<close>

lemma nat_digits_length: "n < 10 ^ Suc k \<Longrightarrow> length (nat_digits n) \<le> Suc k"
proof (induction k arbitrary: n)
  case 0
  then show ?case by (simp add: nat_digits.simps)
next
  case (Suc k)
  then have "n div 10 < 10 ^ Suc k" by (simp add: less_mult_imp_div_less mult.commute)
  from Suc.IH [OF this] show ?case by (subst nat_digits.simps) simp
qed

lemma show_int_length:
  assumes "\<bar>i\<bar> < 10 ^ Suc k"
  shows "length (show_int i) \<le> k + 2" and "0 \<le> i \<Longrightarrow> length (show_int i) \<le> Suc k"
proof -
  have "nat \<bar>i\<bar> < 10 ^ Suc k" using assms by (simp add: nat_less_iff)
  from nat_digits_length [OF this]
  show "length (show_int i) \<le> k + 2" "0 \<le> i \<Longrightarrow> length (show_int i) \<le> Suc k"
    by (auto simp: show_int_def)
qed

lemma name_of_length: "\<forall>n\<in>set ns. length n = 3 \<Longrightarrow> length (name_of ns i) = 3"
  by (auto simp: name_of_def)

lemma pad_left_length: "length s \<le> n \<Longrightarrow> length (pad_left n c s) = n"
  by (simp add: pad_left_def)

lemma asctime_length:
  assumes "gmtime t = Some c"
  shows "length (asctime c) \<le> 32"
proof -
  note b = gmtime_SomeD [OF assms]
  have two: "0 \<le> i \<Longrightarrow> i < 100 \<Longrightarrow> length (show_int i) \<le> 2" for i
    using show_int_length(2) [of i 1] by simp
  have "length (show_int (1900 + tm_year c)) \<le> 11"
    using show_int_length(1) [of "1900 + tm_year c" 9] b(8) by auto
  moreover have "length (name_of wday_names (tm_wday c)) = 3" "length (name_of mon_names (tm_mon c)) = 3"
    by (rule name_of_length, simp add: wday_names_def mon_names_def)+
  moreover have "length (pad_left 3 SP (show_int (tm_mday c))) = 3"
    using two [of "tm_mday c"] b(5) by (intro pad_left_length) simp
  moreover have "length (pad_left 2 (CHR ''0'') (show_int (tm_hour c))) = 2"
    "length (pad_left 2 (CHR ''0'') (show_int (tm_min c))) = 2"
    "length (pad_left 2 (CHR ''0'') (show_int (tm_sec c))) = 2"
    using two b(2-4) by (auto intro!: pad_left_length)
  ultimately show ?thesis by (simp add: asctime_def)
qed

section \<open>Comparison and expiry\<close>

text \<open>The order in which the program compares broken-down times is the order of the clock.\<close>

lemma timeAgtB_gmtime_sgn:
  assumes "gmtime a = Some s" "gmtime b = Some t"
  shows "timeAgtB zone s t = sgn (a - b)"
  using gmtime_SomeD(1) [OF assms(1)] gmtime_SomeD(1) [OF assms(2)]
  by (simp add: timeAgtB_def Let_def sgn_if)

lemma getTimeFromExpiry_SomeD:
  "getTimeFromExpiry now age = Some e \<Longrightarrow> gmtime (now + age) = Some e"
  by (auto simp: getTimeFromExpiry_def int_of_bits_Some_iff elim!: bind_SomeE)

lemma getTimeFromExpiry_defined:
  assumes "- (2 ^ 55) \<le> now + age" "now + age \<le> 2 ^ 55"
  shows "\<exists>e. getTimeFromExpiry now age = Some e"
  using gmtime_defined [OF assms] assms by (simp add: getTimeFromExpiry_def int_of_bits_def)

text \<open>
  C25: a response that arrived at time \<open>now\<close> with \<open>max-age=age\<close> is judged expired
  (\<open>timeAgtB(current, expiry) >= 0\<close>) at time \<open>t\<close> exactly when at least \<open>age\<close> seconds have
  passed, whatever the local time zone.
\<close>

theorem expiry_after_max_age:
  assumes "getTimeFromExpiry now age = Some e" and "getCurrentTime t = Some c"
  shows "timeAgtB zone c e \<ge> 0 \<longleftrightarrow> t \<ge> now + age"
  using timeAgtB_gmtime_sgn [OF assms(2) [unfolded getCurrentTime_def]
    getTimeFromExpiry_SomeD [OF assms(1)], of zone]
  by (auto simp: sgn_if split: if_splits)

theorem expiry_after_max_age_witness:
  "timeAgtB 0 (the (getCurrentTime 1700000060)) (the (getTimeFromExpiry 1700000000 60)) \<ge> 0
   \<longleftrightarrow> (1700000060::int) \<ge> 1700000000 + 60"
proof -
  obtain e where e: "getTimeFromExpiry 1700000000 60 = Some e"
    using getTimeFromExpiry_defined [of 1700000000 60] by auto
  obtain c where c: "getCurrentTime 1700000060 = Some c"
    using gmtime_defined [of 1700000060] by (auto simp: getCurrentTime_def)
  show ?thesis unfolding e c option.sel by (rule expiry_after_max_age [OF e c])
qed

text \<open>
  The time of a log line (\<open>getTimeFromStruct\<close> of a stored expiry, \<open>getCurrentTimeStr\<close>)
  fits the 50 bytes that are allocated for it; no buffer overflows.
\<close>

theorem time_strings_fit:
  assumes "gmtime t = Some c"
  shows "getTimeFromStruct c = Some (asctime c) \<and>
    getCurrentTimeStr zone (t - zone) = Some (asctime c)"
  using asctime_length [OF assms] assms
  by (simp_all add: getTimeFromStruct_def getCurrentTimeStr_def sprintf_def)

theorem time_strings_fit_witness:
  "\<exists>c. gmtime 1700000000 = Some c \<and> getTimeFromStruct c = Some (asctime c) \<and>
     getCurrentTimeStr 3600 (1700000000 - 3600) = Some (asctime c)"
proof -
  obtain c where c: "gmtime 1700000000 = Some c" using gmtime_defined [of 1700000000] by auto
  show ?thesis using time_strings_fit [OF c, of 3600] c by blast
qed

end
