(* ===== verification/Cache_Rep.thy ===== *)
theory Cache_Rep
  imports Cache
begin

text \<open>
  The invariant of the cache's heap and the facts that its operations are proved from: the
  chains of the buckets, the blocks that a node owns, and what stays the same when other
  blocks change.
\<close>

section \<open>Hashing\<close>

lemma hash_loop_ascii:
  assumes "\<forall>c\<in>set s. 0 \<le> schar c" "0 \<le> a" "a + 127 * int (length s) < 2 ^ 31"
  shows "\<exists>v. hash_loop a s = Some v \<and> 0 \<le> v"
  using assms
proof (induction s arbitrary: a)
  case Nil
  then show ?case by simp
next
  case (Cons c s)
  have "schar c \<le> 127" using schar_bounds by blast
  moreover have "0 \<le> schar c" using Cons.prems by simp
  ultimately have "c_int (a + schar c) = Some (a + schar c)"
    using Cons.prems by (simp add: int_of_bits_def)
  moreover have "\<exists>v. hash_loop (a + schar c) s = Some v \<and> 0 \<le> v"
    by (rule Cons.IH) (use Cons.prems \<open>schar c \<le> 127\<close> in auto)
  ultimately show ?case by simp
qed

text \<open>The keys that the cache can hold: those that hash to a bucket, for instance all ASCII strings.\<close>

definition cache_key :: "string \<Rightarrow> bool" where
  "cache_key k \<longleftrightarrow> (\<exists>i<NUM_BUCKETS. indexOf k = Some (int i))"

lemma indexOf_cache_key: "cache_key k \<Longrightarrow> \<exists>i<NUM_BUCKETS. indexOf k = Some (int i)"
  by (simp add: cache_key_def)

lemma cache_key_ascii:
  assumes "\<forall>c\<in>set k. 0 \<le> schar c" "127 * int (length k) < 2 ^ 31"
  shows "cache_key k"
proof -
  obtain v where v: "hash_loop 0 k = Some v" "0 \<le> v" using hash_loop_ascii [of k 0] assms by auto
  then have "indexOf k = Some (v mod 100)"
    by (simp add: indexOf_def NUM_BUCKETS_def c_rem_nonneg)
  moreover have "0 \<le> v mod 100" "v mod 100 < 100" by simp_all
  ultimately show ?thesis unfolding cache_key_def NUM_BUCKETS_def
    by (intro exI [of _ "nat (v mod 100)"]) auto
qed

section \<open>Chains\<close>

primrec chain :: "heap \<Rightarrow> nat \<Rightarrow> nat list \<Rightarrow> bool" where
  "chain h p [] = (p = 0)"
| "chain h p (a # as) = (p = a \<and> a \<noteq> 0 \<and>
     (case nodes h a of None \<Rightarrow> False | Some n \<Rightarrow> chain h (nnext n) as))"

lemma chain_unique: "chain h p as \<Longrightarrow> chain h p bs \<Longrightarrow> as = bs"
proof (induction as arbitrary: p bs)
  case Nil
  then show ?case by (cases bs) auto
next
  case (Cons a as)
  then show ?case by (cases bs) (auto split: option.splits)
qed

lemma chain_append: "chain h p (as @ b # bs) \<Longrightarrow> chain h b (b # bs)"
proof (induction as arbitrary: p)
  case (Cons a as)
  then show ?case by (cases "nodes h a") auto
qed auto

lemma chain_distinct: "chain h p as \<Longrightarrow> distinct as"
proof (induction as arbitrary: p)
  case (Cons a as)
  from Cons.prems obtain n where n: "nodes h a = Some n" "chain h (nnext n) as"
    by (auto split: option.splits)
  have "a \<notin> set as"
  proof
    assume "a \<in> set as"
    then obtain xs ys where as: "as = xs @ a # ys" by (auto simp: in_set_conv_decomp)
    with n have "chain h a (a # ys)" by (blast dest: chain_append)
    with n have "chain h (nnext n) ys" by (auto split: option.splits)
    with n as have "ys = xs @ a # ys" by (blast dest: chain_unique)
    then have "length ys = length (xs @ a # ys)" by simp
    then show False by simp
  qed
  with Cons.IH n show ?case by simp
qed simp

text \<open>A chain only depends on the links of its nodes.\<close>

lemma chain_cong:
  assumes "\<And>a. a \<in> set as \<Longrightarrow> map_option nnext (nodes h' a) = map_option nnext (nodes h a)"
  shows "chain h' p as = chain h p as"
  using assms
proof (induction as arbitrary: p)
  case (Cons a as)
  have "map_option nnext (nodes h' a) = map_option nnext (nodes h a)" by (simp add: Cons.prems)
  moreover have "chain h' q as = chain h q as" for q by (rule Cons.IH) (simp add: Cons.prems)
  ultimately show ?case by (cases "nodes h a"; cases "nodes h' a") auto
qed simp

section \<open>What a node holds and owns\<close>

record entry =
  e_val :: string
  e_host :: string
  e_needs :: int
  e_expiry :: "tm option"
  e_etag :: "string option"

definition opt_ptr :: "(nat \<Rightarrow> 'a option) \<Rightarrow> nat \<Rightarrow> 'a option option" where
  "opt_ptr f p = (if p = 0 then Some None else map_option Some (f p))"

text \<open>The contents that a value, a host and a \<open>CacheInfo\<close> pointer stand for.\<close>

definition contents :: "heap \<Rightarrow> nat \<Rightarrow> nat \<Rightarrow> nat \<Rightarrow> entry option" where
  "contents h val host info = do {
     v \<leftarrow> strs h val; ho \<leftarrow> strs h host; i \<leftarrow> infos h info;
     ex \<leftarrow> opt_ptr (tms h) (expiryTime i); et \<leftarrow> opt_ptr (strs h) (eTag i);
     Some \<lparr>e_val = v, e_host = ho, e_needs = needsRevalidation i, e_expiry = ex, e_etag = et\<rparr> }"

definition keystr :: "heap \<Rightarrow> nat \<Rightarrow> string option" where
  "keystr h a = do { n \<leftarrow> nodes h a; strs h (nkey n) }"

definition entry_of :: "heap \<Rightarrow> nat \<Rightarrow> entry option" where
  "entry_of h a = do { n \<leftarrow> nodes h a; contents h (nval n) (nhost n) (ninfo n) }"

definition info_ptrs :: "heap \<Rightarrow> nat \<Rightarrow> nat list" where
  "info_ptrs h info = (case infos h info of None \<Rightarrow> [info]
     | Some i \<Rightarrow> info # filter (\<lambda>p. p \<noteq> 0) [eTag i, expiryTime i])"

definition owned :: "heap \<Rightarrow> nat \<Rightarrow> nat list" where
  "owned h a = (case nodes h a of None \<Rightarrow> [a]
     | Some n \<Rightarrow> a # nkey n # nval n # nhost n # info_ptrs h (ninfo n))"

text \<open>Two heaps agree on a set of blocks.\<close>

definition agree :: "heap \<Rightarrow> heap \<Rightarrow> nat set \<Rightarrow> bool" where
  "agree h h' S \<longleftrightarrow> (\<forall>p\<in>S. nodes h' p = nodes h p \<and> strs h' p = strs h p \<and>
     infos h' p = infos h p \<and> tms h' p = tms h p)"

lemma agree_sym: "agree h h' S \<Longrightarrow> agree h' h S"
  by (simp add: agree_def)

lemma agree_mono: "agree h h' S \<Longrightarrow> T \<subseteq> S \<Longrightarrow> agree h h' T"
  by (auto simp: agree_def)

lemma contents_cong:
  assumes "agree h h' (set (val # host # info_ptrs h info))"
  shows "contents h' val host info = contents h val host info"
    and "info_ptrs h' info = info_ptrs h info"
proof -
  have v: "strs h' val = strs h val" "strs h' host = strs h host" "infos h' info = infos h info"
    using assms by (auto simp: agree_def info_ptrs_def split: option.splits)
  then show "info_ptrs h' info = info_ptrs h info" by (simp add: info_ptrs_def)
  have "opt_ptr (tms h') (expiryTime i) = opt_ptr (tms h) (expiryTime i)"
    "opt_ptr (strs h') (eTag i) = opt_ptr (strs h) (eTag i)" if "infos h info = Some i" for i
    using assms that by (auto simp: agree_def info_ptrs_def opt_ptr_def)
  with v show "contents h' val host info = contents h val host info"
    by (auto simp: contents_def bind_eq_None_conv intro!: Option.bind_cong)
qed

lemma node_cong:
  assumes "agree h h' (set (owned h a))"
  shows "nodes h' a = nodes h a" "keystr h' a = keystr h a" "entry_of h' a = entry_of h a"
    "owned h' a = owned h a"
proof -
  show n: "nodes h' a = nodes h a"
    using assms by (auto simp: agree_def owned_def split: option.splits)
  show "keystr h' a = keystr h a" "entry_of h' a = entry_of h a" "owned h' a = owned h a"
    using assms n contents_cong [of h h' "nval (the (nodes h a))" "nhost (the (nodes h a))" "ninfo (the (nodes h a))"]
    by (cases "nodes h a"; auto simp: keystr_def entry_of_def owned_def agree_def)+
qed

section \<open>The invariant\<close>

definition live :: "heap \<Rightarrow> nat \<Rightarrow> bool" where
  "live h p \<longleftrightarrow> nodes h p \<noteq> None \<or> strs h p \<noteq> None \<or> infos h p \<noteq> None \<or> tms h p \<noteq> None"

definition cells :: "(nat \<Rightarrow> nat list) \<Rightarrow> nat set" where
  "cells bs = (\<Union>i<NUM_BUCKETS. set (bs i))"

definition rep :: "heap \<Rightarrow> (nat \<Rightarrow> nat list) \<Rightarrow> bool" where
  "rep h bs \<longleftrightarrow>
     length (MAP h) = NUM_BUCKETS
   \<and> (\<forall>i<NUM_BUCKETS. chain h (MAP h ! i) (bs i))
   \<and> (\<forall>i<NUM_BUCKETS. \<forall>a\<in>set (bs i). \<exists>k e. keystr h a = Some k \<and> entry_of h a = Some e
        \<and> indexOf k = Some (int i))
   \<and> (\<forall>a\<in>cells bs. distinct (owned h a))
   \<and> (\<forall>a\<in>cells bs. \<forall>b\<in>cells bs. a \<noteq> b \<longrightarrow>
        set (owned h a) \<inter> set (owned h b) = {} \<and> keystr h a \<noteq> keystr h b)
   \<and> (\<forall>p. live h p \<longrightarrow> 0 < p \<and> p < brk h)"

definition cache_ok :: "heap \<Rightarrow> bool" where
  "cache_ok h \<longleftrightarrow> 0 < brk h \<and> (\<exists>bs. rep h bs)"

text \<open>What the cache means: the dictionary from URIs to entries.\<close>

definition cache_view :: "heap \<Rightarrow> string \<Rightarrow> entry option" where
  "cache_view h k = do { a \<leftarrow> get h k; check (a \<noteq> 0); entry_of h a }"

lemma repD:
  assumes "rep h bs"
  shows rep_len: "length (MAP h) = NUM_BUCKETS"
    and rep_chain: "i < NUM_BUCKETS \<Longrightarrow> chain h (MAP h ! i) (bs i)"
    and rep_index: "i < NUM_BUCKETS \<Longrightarrow> a \<in> set (bs i) \<Longrightarrow> keystr h a = Some k \<Longrightarrow> indexOf k = Some (int i)"
    and rep_distinct: "a \<in> cells bs \<Longrightarrow> distinct (owned h a)"
    and rep_disjoint: "a \<in> cells bs \<Longrightarrow> b \<in> cells bs \<Longrightarrow> a \<noteq> b \<Longrightarrow> set (owned h a) \<inter> set (owned h b) = {}"
    and rep_keys: "a \<in> cells bs \<Longrightarrow> b \<in> cells bs \<Longrightarrow> keystr h a = keystr h b \<Longrightarrow> a = b"
    and rep_live: "live h p \<Longrightarrow> 0 < p \<and> p < brk h"
proof -
  note a = assms [unfolded rep_def]
  show "length (MAP h) = NUM_BUCKETS" using a by blast
  show "i < NUM_BUCKETS \<Longrightarrow> chain h (MAP h ! i) (bs i)" using a by blast
  show "i < NUM_BUCKETS \<Longrightarrow> a \<in> set (bs i) \<Longrightarrow> keystr h a = Some k \<Longrightarrow> indexOf k = Some (int i)"
    using a by (metis option.inject)
  show "a \<in> cells bs \<Longrightarrow> distinct (owned h a)" using a by blast
  show "a \<in> cells bs \<Longrightarrow> b \<in> cells bs \<Longrightarrow> a \<noteq> b \<Longrightarrow> set (owned h a) \<inter> set (owned h b) = {}"
    "a \<in> cells bs \<Longrightarrow> b \<in> cells bs \<Longrightarrow> keystr h a = keystr h b \<Longrightarrow> a = b"
    using a by blast+
  show "live h p \<Longrightarrow> 0 < p \<and> p < brk h" using a by blast
qed

lemma rep_node:
  assumes "rep h bs" "a \<in> cells bs"
  obtains k e where "keystr h a = Some k" "entry_of h a = Some e"
proof -
  obtain i where "i < NUM_BUCKETS" "a \<in> set (bs i)" using assms(2) by (auto simp: cells_def)
  with assms(1) [unfolded rep_def] that show ?thesis by blast
qed

lemma cellsI [intro]: "i < NUM_BUCKETS \<Longrightarrow> a \<in> set (bs i) \<Longrightarrow> a \<in> cells bs"
  by (auto simp: cells_def)

lemma live_owned:
  assumes "rep h bs" "a \<in> cells bs" "p \<in> set (owned h a)"
  shows "live h p"
proof -
  obtain k e where "keystr h a = Some k" "entry_of h a = Some e"
    by (rule rep_node [OF assms(1,2)])
  then show ?thesis using assms(3)
    by (auto simp: owned_def live_def keystr_def entry_of_def contents_def info_ptrs_def opt_ptr_def
        elim!: bind_SomeE split: if_splits)
qed

lemma getNode_loop_chain:
  assumes "chain h p as" "\<forall>a\<in>set as. \<exists>k. keystr h a = Some k"
  shows "getNode_loop h p key = Some (case find (\<lambda>a. keystr h a = Some key) as of None \<Rightarrow> 0 | Some a \<Rightarrow> a)"
  using assms
proof (induction as arbitrary: p)
  case Nil
  then show ?case by (simp add: getNode_loop.simps)
next
  case (Cons a as)
  then obtain n where n: "nodes h a = Some n" "chain h (nnext n) as" "p = a" "a \<noteq> 0"
    by (auto split: option.splits)
  obtain k where k: "strs h (nkey n) = Some k" using Cons.prems(2) n by (auto simp: keystr_def)
  have "keystr h a = Some k" using n k by (simp add: keystr_def)
  moreover have "getNode_loop h (nnext n) key =
      Some (case find (\<lambda>a. keystr h a = Some key) as of None \<Rightarrow> 0 | Some a \<Rightarrow> a)"
    using Cons.IH [OF n(2)] Cons.prems(2) by simp
  ultimately show ?case using n k by (simp add: getNode_loop.simps)
qed

lemma chain_nonzero: "chain h p as \<Longrightarrow> x \<in> set as \<Longrightarrow> x \<noteq> 0"
  by (induction as arbitrary: p) (auto split: option.splits)

lemma get_bucket:
  assumes "rep h bs" "i < NUM_BUCKETS" "indexOf k = Some (int i)"
  shows "get h k = Some (case find (\<lambda>b. keystr h b = Some k) (bs i) of None \<Rightarrow> 0 | Some a \<Rightarrow> a)"
proof -
  have "\<forall>a\<in>set (bs i). \<exists>k. keystr h a = Some k"
    using rep_node [OF assms(1)] assms(2) by blast
  from getNode_loop_chain [OF rep_chain [OF assms(1,2)] this]
  show ?thesis using assms rep_len [OF assms(1)]
    by (simp add: get_def getNode_def bucket_head_def)
qed

lemma get_hit:
  assumes "rep h bs" "a \<in> cells bs" "keystr h a = Some k"
  shows "get h k = Some a" and "a \<noteq> 0"
proof -
  obtain i where i: "i < NUM_BUCKETS" "a \<in> set (bs i)" using assms(2) by (auto simp: cells_def)
  have idx: "indexOf k = Some (int i)" by (rule rep_index [OF assms(1) i assms(3)])
  have uniq: "b = a" if "b \<in> set (bs i)" "keystr h b = Some k" for b
    by (rule rep_keys [OF assms(1) _ assms(2)]) (use i that assms(3) in auto)
  have "find (\<lambda>b. keystr h b = Some k) (bs i) = Some a"
  proof (cases "find (\<lambda>b. keystr h b = Some k) (bs i)")
    case None
    with i assms(3) show ?thesis by (auto simp: find_None_iff)
  next
    case (Some b)
    then have "b \<in> set (bs i)" "keystr h b = Some k" by (auto simp: find_Some_iff)
    with Some uniq show ?thesis by blast
  qed
  then show "get h k = Some a" by (simp add: get_bucket [OF assms(1) i(1) idx])
  show "a \<noteq> 0" using chain_nonzero [OF rep_chain [OF assms(1) i(1)] i(2)] .
qed

lemma get_miss:
  assumes "rep h bs" "i < NUM_BUCKETS" "indexOf k = Some (int i)" "\<forall>a\<in>cells bs. keystr h a \<noteq> Some k"
  shows "get h k = Some 0"
proof -
  have "find (\<lambda>b. keystr h b = Some k) (bs i) = None"
    using assms(2,4) by (auto simp: find_None_iff)
  then show ?thesis by (simp add: get_bucket [OF assms(1-3)])
qed

end
