(* ===== verification/Cache_Map.thy ===== *)
theory Cache_Map
  imports Cache_Rep
begin

text \<open>
  The cache is a dictionary: \<open>get\<close> and \<open>put\<close> keep the heap invariant, never fault on it, and
  act on \<open>cache_view\<close> as lookup and update of a map from URIs to entries, for the two ways
  in which the program calls \<open>put\<close>: with freshly allocated arguments (\<open>forwardRequest\<close>) and
  with the node's own key, host and \<open>CacheInfo\<close> (\<open>getRevalidation\<close>).
\<close>

section \<open>The view of a represented cache\<close>

lemma view_iff:
  assumes "rep h bs"
  shows "cache_view h k = Some e \<longleftrightarrow> (\<exists>a\<in>cells bs. keystr h a = Some k \<and> entry_of h a = Some e)"
proof
  assume "\<exists>a\<in>cells bs. keystr h a = Some k \<and> entry_of h a = Some e"
  then obtain a where a: "a \<in> cells bs" "keystr h a = Some k" "entry_of h a = Some e" by blast
  then show "cache_view h k = Some e"
    using get_hit [OF assms a(1,2)] by (simp add: cache_view_def)
next
  assume "cache_view h k = Some e"
  then obtain a where a: "get h k = Some a" "a \<noteq> 0" "entry_of h a = Some e"
    by (auto simp: cache_view_def check_def elim!: bind_SomeE split: if_splits)
  then obtain b where b: "indexOf k = Some b" "0 \<le> b" "b < int NUM_BUCKETS"
    using rep_len [OF assms]
    by (auto simp: get_def getNode_def bucket_head_def elim!: bind_SomeE split: if_splits)
  define i where "i = nat b"
  have i: "i < NUM_BUCKETS" "indexOf k = Some (int i)" using b by (auto simp: i_def)
  from get_bucket [OF assms i] a have "find (\<lambda>b. keystr h b = Some k) (bs i) = Some a"
    by (auto split: option.splits)
  then have "a \<in> set (bs i)" "keystr h a = Some k" by (auto simp: find_Some_iff)
  with i a(3) show "\<exists>a\<in>cells bs. keystr h a = Some k \<and> entry_of h a = Some e" by blast
qed

lemma option_eqI: "(\<And>e. x = Some e \<longleftrightarrow> y = Some e) \<Longrightarrow> x = y"
  by (cases y) auto

lemma view_upd:
  assumes "\<And>k' e'. f k' = Some e' \<longleftrightarrow> (if k' = k then e' = e else g k' = Some e')"
  shows "f = g(k \<mapsto> e)"
proof
  fix k'
  show "f k' = (g(k \<mapsto> e)) k'"
    by (rule option_eqI) (auto simp: assms)
qed

section \<open>Changing one node, adding one node\<close>

lemma view_replace:
  assumes r: "rep h bs" and r': "rep h' bs" and a: "a \<in> cells bs" "keystr h a = Some k" "entry_of h' a = Some e"
    and ks: "\<And>b. b \<in> cells bs \<Longrightarrow> keystr h' b = keystr h b"
    and es: "\<And>b. b \<in> cells bs \<Longrightarrow> b \<noteq> a \<Longrightarrow> entry_of h' b = entry_of h b"
  shows "cache_view h' = (cache_view h)(k \<mapsto> e)"
proof (rule view_upd)
  fix k' e'
  have one: "keystr h b = Some k \<longleftrightarrow> b = a" if "b \<in> cells bs" for b
    using rep_keys [OF r that a(1)] a(2) by auto
  have iff: "keystr h' b = Some k' \<and> entry_of h' b = Some e' \<longleftrightarrow>
      (if b = a then k' = k \<and> e' = e else keystr h b = Some k' \<and> entry_of h b = Some e')" if "b \<in> cells bs" for b
    using ks [OF that] es [OF that] a by (cases "b = a") auto
  have "(\<exists>b\<in>cells bs. keystr h' b = Some k' \<and> entry_of h' b = Some e') \<longleftrightarrow>
      (if k' = k then e' = e else \<exists>b\<in>cells bs. keystr h b = Some k' \<and> entry_of h b = Some e')"
  proof (cases "k' = k")
    case True
    then show ?thesis using iff one a(1) by (simp cong: bex_cong)
  next
    case False
    have "keystr h' b = Some k' \<and> entry_of h' b = Some e' \<longleftrightarrow> keystr h b = Some k' \<and> entry_of h b = Some e'"
      if "b \<in> cells bs" for b
      using iff [OF that] False a(2) by (cases "b = a") auto
    then show ?thesis using False by (simp cong: bex_cong)
  qed
  then show "cache_view h' k' = Some e' \<longleftrightarrow> (if k' = k then e' = e else cache_view h k' = Some e')"
    by (simp only: view_iff [OF r'] view_iff [OF r])
qed

lemma rep_replace:
  assumes r: "rep h bs" and a: "a \<in> cells bs"
    and frame: "\<And>b. b \<in> cells bs \<Longrightarrow> b \<noteq> a \<Longrightarrow> agree h h' (set (owned h b))"
    and map: "MAP h' = MAP h"
    and link: "map_option nnext (nodes h' a) = map_option nnext (nodes h a)"
    and key: "keystr h' a = Some k" "keystr h a = Some k" and ent: "entry_of h' a = Some e"
    and dist: "distinct (owned h' a)"
    and disj: "\<And>b. b \<in> cells bs \<Longrightarrow> b \<noteq> a \<Longrightarrow> set (owned h' a) \<inter> set (owned h b) = {}"
    and lv: "\<And>p. live h' p \<Longrightarrow> 0 < p \<and> p < brk h'"
  shows "rep h' bs" and "cache_view h' = (cache_view h)(k \<mapsto> e)"
proof -
  note cong = node_cong [OF frame]
  have nx: "map_option nnext (nodes h' b) = map_option nnext (nodes h b)" if "b \<in> cells bs" for b
    using cong(1) [OF that] link by (cases "b = a") auto
  have ks: "keystr h' b = keystr h b" if "b \<in> cells bs" for b
    using cong(2) [OF that] key by (cases "b = a") auto
  have ow: "set (owned h' b) \<inter> set (owned h' c) = {}" if "b \<in> cells bs" "c \<in> cells bs" "b \<noteq> c" for b c
    using that disj [of b] disj [of c] cong(4) [of b] cong(4) [of c] rep_disjoint [OF r that]
    by (cases "b = a"; cases "c = a") (auto simp: Int_commute)
  show rep': "rep h' bs"
    unfolding rep_def
  proof (intro conjI allI ballI impI)
    show "length (MAP h') = NUM_BUCKETS" by (simp add: map rep_len [OF r])
    show "chain h' (MAP h' ! i) (bs i)" if i: "i < NUM_BUCKETS" for i
      using rep_chain [OF r i] chain_cong [of "bs i" h' h "MAP h ! i"] nx i by (auto simp: map)
    show "\<exists>k e. keystr h' b = Some k \<and> entry_of h' b = Some e \<and> indexOf k = Some (int i)"
      if i: "i < NUM_BUCKETS" "b \<in> set (bs i)" for i b
    proof -
      have b: "b \<in> cells bs" using i by blast
      obtain kb eb where "keystr h b = Some kb" "entry_of h b = Some eb" by (rule rep_node [OF r b])
      moreover from this have "indexOf kb = Some (int i)" using rep_index [OF r i] by blast
      ultimately show ?thesis using ks [OF b] cong(3) [OF b] ent by (cases "b = a") auto
    qed
    show "distinct (owned h' b)" if "b \<in> cells bs" for b
      using dist cong(4) [OF that] rep_distinct [OF r that] by (cases "b = a") auto
    show "set (owned h' b) \<inter> set (owned h' c) = {}" if "b \<in> cells bs" "c \<in> cells bs" "b \<noteq> c" for b c
      by (rule ow [OF that])
    show "keystr h' b \<noteq> keystr h' c" if "b \<in> cells bs" "c \<in> cells bs" "b \<noteq> c" for b c
      using rep_keys [OF r that(1,2)] that ks by auto
    show "0 < p" "p < brk h'" if "live h' p" for p using lv [OF that] by auto
  qed
  show "cache_view h' = (cache_view h)(k \<mapsto> e)"
    by (rule view_replace [OF r rep' a key(2) ent ks]) (use cong(3) in blast)+
qed

lemma rep_insert:
  assumes r: "rep h bs" and i: "i < NUM_BUCKETS" "indexOf k = Some (int i)"
    and new: "a \<notin> cells bs" "a \<noteq> 0"
    and frame: "\<And>b. b \<in> cells bs \<Longrightarrow> agree h h' (set (owned h b))"
    and map: "MAP h' = (MAP h)[i := a]"
    and link: "map_option nnext (nodes h' a) = Some (MAP h ! i)"
    and key: "keystr h' a = Some k" "\<And>b. b \<in> cells bs \<Longrightarrow> keystr h b \<noteq> Some k"
    and ent: "entry_of h' a = Some e"
    and dist: "distinct (owned h' a)"
    and disj: "\<And>b. b \<in> cells bs \<Longrightarrow> set (owned h' a) \<inter> set (owned h b) = {}"
    and lv: "\<And>p. live h' p \<Longrightarrow> 0 < p \<and> p < brk h'"
  shows "rep h' (bs(i := a # bs i))" and "cache_view h' = (cache_view h)(k \<mapsto> e)"
proof -
  let ?bs = "bs(i := a # bs i)"
  note cong = node_cong [OF frame]
  have cells: "cells ?bs = insert a (cells bs)" using i(1) by (auto simp: cells_def split: if_splits)
  have ch: "chain h' p (bs j) = chain h p (bs j)" if "j < NUM_BUCKETS" for j p
  proof (rule chain_cong)
    fix b assume "b \<in> set (bs j)"
    then have "b \<in> cells bs" using that by blast
    then show "map_option nnext (nodes h' b) = map_option nnext (nodes h b)" by (simp add: cong(1))
  qed
  have nd: "\<exists>k e. keystr h' b = Some k \<and> entry_of h' b = Some e \<and> indexOf k = Some (int j)"
    if j: "j < NUM_BUCKETS" "b \<in> set (bs j)" for j b
  proof -
    have b: "b \<in> cells bs" using j by blast
    obtain kb eb where "keystr h b = Some kb" "entry_of h b = Some eb" by (rule rep_node [OF r b])
    moreover from this have "indexOf kb = Some (int j)" using rep_index [OF r j] by blast
    ultimately show ?thesis using cong(2,3) [OF b] by auto
  qed
  show rep': "rep h' ?bs"
    unfolding rep_def cells
  proof (intro conjI allI ballI impI)
    show "length (MAP h') = NUM_BUCKETS" by (simp add: map rep_len [OF r])
    show "chain h' (MAP h' ! j) (?bs j)" if j: "j < NUM_BUCKETS" for j
      using rep_chain [OF r j] ch [OF j] new(2) link rep_len [OF r] i(1) j
      by (cases "j = i") (auto simp: map)
    show "\<exists>k e. keystr h' b = Some k \<and> entry_of h' b = Some e \<and> indexOf k = Some (int j)"
      if "j < NUM_BUCKETS" "b \<in> set (?bs j)" for j b
      using that nd [of j b] key(1) ent i(2) by (auto split: if_splits)
    show "distinct (owned h' b)" if "b \<in> insert a (cells bs)" for b
      using dist that cong(4) rep_distinct [OF r] by auto
    show "set (owned h' b) \<inter> set (owned h' c) = {}"
      if "b \<in> insert a (cells bs)" "c \<in> insert a (cells bs)" "b \<noteq> c" for b c
      using that disj [of b] disj [of c] cong(4) [of b] cong(4) [of c] rep_disjoint [OF r, of b c]
      by (auto simp: Int_commute)
    show "keystr h' b \<noteq> keystr h' c" if "b \<in> insert a (cells bs)" "c \<in> insert a (cells bs)" "b \<noteq> c" for b c
      using that rep_keys [OF r, of b c] cong(2) [of b] cong(2) [of c] key(1) key(2) [of b] key(2) [of c]
      by auto
    show "0 < p" "p < brk h'" if "live h' p" for p using lv [OF that] by auto
  qed
  show "cache_view h' = (cache_view h)(k \<mapsto> e)"
  proof (rule view_upd)
    fix k' e'
    have "(\<exists>b\<in>cells ?bs. keystr h' b = Some k' \<and> entry_of h' b = Some e') \<longleftrightarrow>
      (if k' = k then e' = e else \<exists>b\<in>cells bs. keystr h b = Some k' \<and> entry_of h b = Some e')"
      using key ent cong(2,3) by (auto simp: cells)
    then show "cache_view h' k' = Some e' \<longleftrightarrow> (if k' = k then e' = e else cache_view h k' = Some e')"
      by (simp only: view_iff [OF rep'] view_iff [OF r])
  qed
qed

section \<open>put with freshly allocated arguments\<close>

definition arg_ptrs :: "heap \<Rightarrow> nat \<Rightarrow> nat \<Rightarrow> nat \<Rightarrow> nat \<Rightarrow> nat list" where
  "arg_ptrs h key value host info = key # value # host # info_ptrs h info"

text \<open>
  The caller hands over a key, a value, a host and a \<open>CacheInfo\<close> that it allocated itself:
  live, pairwise different, and not part of the cache. The key hashes to a bucket.
\<close>

definition fresh_args :: "heap \<Rightarrow> nat \<Rightarrow> nat \<Rightarrow> nat \<Rightarrow> nat \<Rightarrow> string \<Rightarrow> entry \<Rightarrow> bool" where
  "fresh_args h key value host info k e \<longleftrightarrow>
     strs h key = Some k \<and> cache_key k \<and> contents h value host info = Some e \<and>
     distinct (arg_ptrs h key value host info) \<and>
     (\<exists>bs. rep h bs \<and> (\<forall>a\<in>cells bs. set (arg_ptrs h key value host info) \<inter> set (owned h a) = {}))"

lemma rep_cells_unique:
  assumes "rep h bs" "rep h bs'"
  shows "cells bs = cells bs'"
proof -
  have "bs i = bs' i" if "i < NUM_BUCKETS" for i
    using chain_unique rep_chain [OF assms(1) that] rep_chain [OF assms(2) that] by blast
  then show ?thesis by (auto simp: cells_def)
qed

lemma fresh_argsD:
  assumes "fresh_args h key value host info k e" "rep h bs"
  shows "strs h key = Some k" "cache_key k" "contents h value host info = Some e"
    "distinct (arg_ptrs h key value host info)"
    "a \<in> cells bs \<Longrightarrow> set (arg_ptrs h key value host info) \<inter> set (owned h a) = {}"
proof -
  show "strs h key = Some k" "cache_key k" "contents h value host info = Some e"
    "distinct (arg_ptrs h key value host info)"
    using assms(1) unfolding fresh_args_def by blast+
  obtain bs' where "rep h bs'"
    and d: "\<forall>a\<in>cells bs'. set (arg_ptrs h key value host info) \<inter> set (owned h a) = {}"
    using assms(1) unfolding fresh_args_def by blast
  then show "a \<in> cells bs \<Longrightarrow> set (arg_ptrs h key value host info) \<inter> set (owned h a) = {}"
    using rep_cells_unique [OF assms(2), of bs'] by blast
qed

lemma live_args:
  assumes "strs h key = Some k" "contents h value host info = Some e" "p \<in> set (arg_ptrs h key value host info)"
  shows "live h p"
  using assms
  by (auto simp: arg_ptrs_def live_def contents_def info_ptrs_def opt_ptr_def elim!: bind_SomeE split: if_splits)

lemma put_miss:
  assumes r: "rep h bs" and f: "fresh_args h key value host info k e"
    and miss: "\<forall>b\<in>cells bs. keystr h b \<noteq> Some k"
  obtains h' bs' where "put h key value host info = Some h'" "rep h' bs'" "cache_view h' = (cache_view h)(k \<mapsto> e)"
    "\<And>b. b \<in> cells bs \<Longrightarrow> agree h h' (set (owned h b))" "cells bs \<subseteq> cells bs'"
proof -
  note fd = fresh_argsD [OF f r]
  obtain i where i: "i < NUM_BUCKETS" "indexOf k = Some (int i)"
    using indexOf_cache_key [OF fd(2)] by blast
  define a where "a = brk h"
  define h' where "h' = h\<lparr>nodes := (nodes h)(a \<mapsto> \<lparr>nkey = key, nval = value, nhost = host,
      ninfo = info, nnext = MAP h ! i\<rparr>), MAP := (MAP h)[i := a], brk := a + 1\<rparr>"
  have "getNode h (int i) k = Some 0"
    using get_miss [OF r i miss] i by (simp add: get_def)
  then have put: "put h key value host info = Some h'"
    using fd(1) i rep_len [OF r]
    by (simp add: put_def putKey_def makeNode_def bucket_head_def h'_def a_def)
  have nl: "\<not> live h a" using rep_live [OF r, of a] by (auto simp: a_def)
  have agr: "agree h h' S" if "a \<notin> S" for S using that by (auto simp: agree_def h'_def)
  have na: "a \<notin> set (arg_ptrs h key value host info)" using live_args [OF fd(1,3)] nl by blast
  have no: "a \<notin> set (owned h b)" if "b \<in> cells bs" for b using live_owned [OF r that] nl by blast
  have c: "contents h' value host info = Some e" "info_ptrs h' info = info_ptrs h info"
    using contents_cong [OF agr] na fd(3) by (auto simp: arg_ptrs_def)
  have ow: "owned h' a = a # arg_ptrs h key value host info"
    using c(2) by (simp add: owned_def h'_def arg_ptrs_def)
  have new: "a \<notin> cells bs" using no [of a] by (auto simp: owned_def split: option.splits)
  have pos: "\<And>p. live h p \<Longrightarrow> 0 < p \<and> p < a" using rep_live [OF r] by (simp add: a_def)
  have a0: "0 < a" using pos [of key] live_args [OF fd(1,3), of key] by (simp add: arg_ptrs_def)
  have lv: "0 < p \<and> p < brk h'" if "live h' p" for p
    using that pos [of p] a0 by (cases "p = a") (auto simp: live_def h'_def)
  have "rep h' (bs(i := a # bs i)) \<and> cache_view h' = (cache_view h)(k \<mapsto> e)"
  proof -
    have ks: "keystr h' a = Some k" and en: "entry_of h' a = Some e" and li: "map_option nnext (nodes h' a) = Some (MAP h ! i)"
      using fd(1) c(1) by (simp_all add: keystr_def entry_of_def h'_def)
    have di: "distinct (owned h' a)" using fd(4) na by (simp add: ow)
    have dj: "set (owned h' a) \<inter> set (owned h b) = {}" if "b \<in> cells bs" for b
      using fd(5) [OF that] no [OF that] by (simp add: ow)
    have mp: "MAP h' = (MAP h)[i := a]" by (simp add: h'_def)
    note ri = rep_insert [OF r i new _ _ mp li ks _ en di]
    show ?thesis
      by (intro conjI ri) (use a0 no miss dj lv agr in blast)+
  qed
  moreover have "agree h h' (set (owned h b))" if "b \<in> cells bs" for b by (rule agr [OF no [OF that]])
  moreover have "cells bs \<subseteq> cells (bs(i := a # bs i))" by (auto simp: cells_def split: if_splits)
  ultimately show ?thesis using put that by blast
qed

text \<open>
  For a key that is in the cache, the node keeps its own key and host; the old value and the
  old \<open>CacheInfo\<close> are freed, and so are the key and the host that were passed in.
\<close>

definition replaced :: "heap \<Rightarrow> nat \<Rightarrow> NODE \<Rightarrow> nat \<Rightarrow> nat \<Rightarrow> nat \<Rightarrow> nat \<Rightarrow> heap" where
  "replaced h a n key value host info = h\<lparr>strs := (strs h)(nval n := None, key := None, host := None),
     nodes := (nodes h)(a \<mapsto> n\<lparr>nval := value, ninfo := info\<rparr>), infos := (infos h)(ninfo n := None)\<rparr>"

text \<open>The blocks of the arguments and those of the node are different.\<close>

lemma hit_apart:
  assumes r: "rep h bs" and f: "fresh_args h key value host info k e"
    and a: "a \<in> cells bs" "nodes h a = Some n" "infos h (ninfo n) = Some i"
  shows "owned h a = a # nkey n # nval n # nhost n # info_ptrs h (ninfo n)"
    and "\<And>p q. p \<in> set (arg_ptrs h key value host info) \<Longrightarrow> q \<in> set (owned h a) \<Longrightarrow> p \<noteq> q"
    and "key \<in> set (arg_ptrs h key value host info)" "host \<in> set (arg_ptrs h key value host info)"
    and "{a, nkey n, nval n, nhost n, ninfo n} \<subseteq> set (owned h a)"
    and "key \<noteq> nval n" "host \<noteq> nval n" "ninfo n \<noteq> info" "nkey n \<noteq> key" "nhost n \<noteq> host" "value \<noteq> nval n" "nkey n \<noteq> host"
    and "host \<noteq> key" "value \<noteq> key" "value \<noteq> host"
    and "nkey n \<noteq> nval n" "nhost n \<noteq> nval n" "a \<noteq> nkey n" "a \<noteq> nhost n" "nkey n \<noteq> nhost n"
    and "nval n \<noteq> 0" "ninfo n \<noteq> 0" "key \<noteq> 0" "host \<noteq> 0"
proof -
  note fd = fresh_argsD [OF f r]
  obtain j where j: "infos h info = Some j" using fd(3) by (auto simp: contents_def elim!: bind_SomeE)
  show ow: "owned h a = a # nkey n # nval n # nhost n # info_ptrs h (ninfo n)" by (simp add: owned_def a)
  show dj: "p \<noteq> q" if "p \<in> set (arg_ptrs h key value host info)" "q \<in> set (owned h a)" for p q
    using fd(5) [OF a(1)] that by blast
  have ma: "key \<in> set (arg_ptrs h key value host info)" "value \<in> set (arg_ptrs h key value host info)"
    "host \<in> set (arg_ptrs h key value host info)" "info \<in> set (arg_ptrs h key value host info)"
    using j by (simp_all add: arg_ptrs_def info_ptrs_def)
  show "key \<in> set (arg_ptrs h key value host info)" "host \<in> set (arg_ptrs h key value host info)" using ma by blast+
  show mo: "{a, nkey n, nval n, nhost n, ninfo n} \<subseteq> set (owned h a)" using a(3) by (simp add: ow info_ptrs_def)
  show "key \<noteq> nval n" "host \<noteq> nval n" "ninfo n \<noteq> info" "nkey n \<noteq> key" "nhost n \<noteq> host" "value \<noteq> nval n" "nkey n \<noteq> host"
    using dj ma mo by blast+
  show "host \<noteq> key" "value \<noteq> key" "value \<noteq> host" using fd(4) by (auto simp: arg_ptrs_def)
  show "nkey n \<noteq> nval n" "nhost n \<noteq> nval n" "a \<noteq> nkey n" "a \<noteq> nhost n" "nkey n \<noteq> nhost n"
    using rep_distinct [OF r a(1)] by (auto simp: ow)
  have "p \<noteq> 0" if "p \<in> set (owned h a) \<or> p \<in> set (arg_ptrs h key value host info)" for p
    using that live_owned [OF r a(1)] live_args [OF fd(1,3)] rep_live [OF r] by blast
  then show "nval n \<noteq> 0" "ninfo n \<noteq> 0" "key \<noteq> 0" "host \<noteq> 0" using ma mo by blast+
qed

lemma put_replaces:
  assumes r: "rep h bs" and f: "fresh_args h key value host info k e"
    and a: "a \<in> cells bs" "keystr h a = Some k" "nodes h a = Some n"
    and n: "strs h (nval n) = Some v" "infos h (ninfo n) = Some i"
  shows "put h key value host info = Some (replaced h a n key value host info)"
proof -
  note fd = fresh_argsD [OF f r] and ap = hit_apart [OF r f a(1,3) n(2)]
  have "strs h host \<noteq> None" using fd(3) by (auto simp: contents_def elim!: bind_SomeE)
  then have "updateNode h a key value host info = Some (replaced h a n key value host info)"
    using n a(3) fd(1) ap(6-15,21-24)
    by (auto simp: updateNode_def free_str_def free_info_def replaced_def Let_def)
  moreover obtain j where j: "indexOf k = Some (int j)" using indexOf_cache_key [OF fd(2)] by blast
  moreover have "getNode h (int j) k = Some a" "a \<noteq> 0" using get_hit [OF r a(1,2)] j by (simp_all add: get_def)
  ultimately show ?thesis using fd(1) by (simp add: put_def putKey_def)
qed

text \<open>The tag and the expiry time of the old \<open>CacheInfo\<close> are not freed, and no node owns them.\<close>

lemma replaced_leaks:
  assumes r: "rep h bs" and f: "fresh_args h key value host info k e"
    and a: "a \<in> cells bs" "nodes h a = Some n" "infos h (ninfo n) = Some i"
    and h': "h' = replaced h a n key value host info"
    and ow': "owned h' a = a # nkey n # value # nhost n # info_ptrs h info"
    and frame: "\<And>b. b \<in> cells bs \<Longrightarrow> b \<noteq> a \<Longrightarrow> agree h h' (set (owned h b))"
  shows "strs h' (eTag i) = strs h (eTag i) \<and> tms h' (expiryTime i) = tms h (expiryTime i) \<and>
      (eTag i \<noteq> 0 \<longrightarrow> (\<forall>b\<in>cells bs. eTag i \<notin> set (owned h' b)))"
proof -
  note ap = hit_apart [OF r f a] and fd = fresh_argsD [OF f r]
  have et: "eTag i \<noteq> 0 \<Longrightarrow> eTag i \<in> set (owned h a) \<and> eTag i \<notin> {nval n, a, nkey n, nhost n}"
    using a rep_distinct [OF r a(1)] by (auto simp: ap(1) info_ptrs_def)
  have "eTag i \<notin> set (owned h' b)" if "eTag i \<noteq> 0" "b \<in> cells bs" for b
  proof (cases "b = a")
    case True
    with et [OF that(1)] fd(5) [OF a(1)] show ?thesis by (auto simp: ow' arg_ptrs_def)
  next
    case False
    then show ?thesis
      using et [OF that(1)] rep_disjoint [OF r a(1) that(2)] node_cong(4) [OF frame [OF that(2) False]]
      by auto
  qed
  moreover have "eTag i \<noteq> nval n" "eTag i \<noteq> key" "eTag i \<noteq> host"
    using et ap(21-24) ap(2) [OF ap(3), of "eTag i"] ap(2) [OF ap(4), of "eTag i"]
    by (cases "eTag i = 0"; simp)+
  ultimately show ?thesis by (simp add: h' replaced_def)
qed

lemma put_hit:
  assumes r: "rep h bs" and f: "fresh_args h key value host info k e"
    and a: "a \<in> cells bs" "keystr h a = Some k" and old: "entry_of h a = Some e0"
  obtains h' where "put h key value host info = Some h'" "rep h' bs"
    "cache_view h' = (cache_view h)(k \<mapsto> e\<lparr>e_host := e_host e0\<rparr>)"
    "\<And>i. infos h (ninfo (the (nodes h a))) = Some i \<Longrightarrow>
       strs h' (eTag i) = strs h (eTag i) \<and> tms h' (expiryTime i) = tms h (expiryTime i) \<and>
       (eTag i \<noteq> 0 \<longrightarrow> (\<forall>b\<in>cells bs. eTag i \<notin> set (owned h' b)))"
    "strs h' (nval (the (nodes h a))) = None"
    "\<And>b. b \<in> cells bs \<Longrightarrow> b \<noteq> a \<Longrightarrow> agree h h' (set (owned h b))"
proof -
  note fd = fresh_argsD [OF f r]
  obtain n where n: "nodes h a = Some n" using a(2) by (auto simp: keystr_def elim!: bind_SomeE)
  obtain i v where v: "strs h (nval n) = Some v" and i: "infos h (ninfo n) = Some i"
    and ho: "strs h (nhost n) = Some (e_host e0)"
    using old n by (auto simp: entry_of_def contents_def elim!: bind_SomeE)
  note ap = hit_apart [OF r f a(1) n i] and put = put_replaces [OF r f a n v i]
  define h' where "h' = replaced h a n key value host info"
  have agr: "agree h h' S" if "S \<inter> {nval n, key, host, a, ninfo n} = {}" for S
    using that by (auto simp: agree_def h'_def replaced_def)
  have frame: "agree h h' (set (owned h b))" if "b \<in> cells bs" "b \<noteq> a" for b
    using fd(5) [OF that(1)] rep_disjoint [OF r a(1) that(1)] that(2) ap(3-5) by (intro agr) blast
  have "nhost n \<notin> {nval n, key, host, a, ninfo n}"
    using ap(2) [OF ap(3)] ap(5,10,17,19) rep_distinct [OF r a(1)] i by (auto simp: ap(1) info_ptrs_def)
  moreover have "p \<notin> {nval n, a, ninfo n}" if "p \<in> set (arg_ptrs h key value host info)" for p
    using ap(2) [OF that] ap(5) by blast
  then have "set (value # info_ptrs h info) \<inter> {nval n, key, host, a, ninfo n} = {}"
    using fd(4) by (auto simp: arg_ptrs_def)
  ultimately have "set (value # nhost n # info_ptrs h info) \<inter> {nval n, key, host, a, ninfo n} = {}" by auto
  from contents_cong [OF agr [OF this]]
  have c: "contents h' value (nhost n) info = contents h value (nhost n) info" "info_ptrs h' info = info_ptrs h info"
    by simp_all
  have e: "contents h value (nhost n) info = Some (e\<lparr>e_host := e_host e0\<rparr>)"
    using fd(3) ho by (auto simp: contents_def elim!: bind_SomeE)
  have ow': "owned h' a = a # nkey n # value # nhost n # info_ptrs h info"
    using c(2) by (simp add: owned_def h'_def replaced_def)
  have di: "distinct (owned h' a)"
    using fd(4) ap(2) [of _ a] ap(2) [of _ "nkey n"] ap(2) [of _ "nhost n"] ap(5,18-20) by (auto simp: ow' arg_ptrs_def)
  have disj: "set (owned h' a) \<inter> set (owned h b) = {}" if "b \<in> cells bs" "b \<noteq> a" for b
    using fd(5) [OF that(1)] rep_disjoint [OF r a(1) that(1)] that(2) ap(5)
    by (auto simp: ow' arg_ptrs_def)
  have lv: "0 < p \<and> p < brk h'" if "live h' p" for p
    using that rep_live [OF r, of p] n by (auto simp: live_def h'_def replaced_def split: if_splits)
  have rest: "MAP h' = MAP h" "map_option nnext (nodes h' a) = map_option nnext (nodes h a)"
    "keystr h' a = Some k" "entry_of h' a = Some (e\<lparr>e_host := e_host e0\<rparr>)"
    using n a(2) ap(6-20) c(1) e by (simp_all add: h'_def replaced_def keystr_def entry_of_def)
  note rr = rep_replace [OF r a(1) frame rest(1,2,3) a(2) rest(4) di disj lv]
  have "strs h' (nval (the (nodes h a))) = None" by (simp add: n h'_def replaced_def)
  moreover have "strs h' (eTag i') = strs h (eTag i') \<and> tms h' (expiryTime i') = tms h (expiryTime i') \<and>
      (eTag i' \<noteq> 0 \<longrightarrow> (\<forall>b\<in>cells bs. eTag i' \<notin> set (owned h' b)))"
    if "infos h (ninfo (the (nodes h a))) = Some i'" for i'
    by (rule replaced_leaks [OF r f a(1) n _ h'_def ow' frame]) (use that n in simp_all)
  ultimately show ?thesis using that [OF put [folded h'_def] rr _ _ frame] by blast
qed

section \<open>put with the node's own key, host and CacheInfo\<close>

text \<open>
  After a revalidation the node's own key, host and \<open>CacheInfo\<close> are passed back in with a
  new value: only the old value is freed.
\<close>

lemma put_alias:
  assumes r: "rep h bs" and a: "a \<in> cells bs" "keystr h a = Some k" and n: "nodes h a = Some n"
    and v: "strs h value = Some v" "\<forall>b\<in>cells bs. value \<notin> set (owned h b)"
    and e: "entry_of h a = Some e"
  obtains h' where "put h (nkey n) value (nhost n) (ninfo n) = Some h'" "rep h' bs"
    "cache_view h' = (cache_view h)(k \<mapsto> e\<lparr>e_val := v\<rparr>)" "strs h' (nval n) = None"
    "\<And>b. b \<in> cells bs \<Longrightarrow> b \<noteq> a \<Longrightarrow> agree h h' (set (owned h b))"
proof -
  obtain i w where w: "strs h (nval n) = Some w" and i: "infos h (ninfo n) = Some i"
    and et: "eTag i = 0 \<or> strs h (eTag i) \<noteq> None"
    using e n by (auto simp: entry_of_def contents_def opt_ptr_def elim!: bind_SomeE split: if_splits)
  have ow: "owned h a = a # nkey n # nval n # nhost n # info_ptrs h (ninfo n)"
    by (simp add: owned_def n)
  have d: "distinct (owned h a)" by (rule rep_distinct [OF r a(1)])
  have nz: "nval n \<noteq> 0" using rep_live [OF r] live_owned [OF r a(1), of "nval n"] by (auto simp: ow)
  have va: "value \<notin> set (owned h a)" using v(2) a(1) by blast
  have etn: "eTag i = 0 \<or> eTag i \<noteq> nval n" using d i by (auto simp: ow info_ptrs_def split: if_splits)
  define h' where "h' = h\<lparr>strs := (strs h)(nval n := None), nodes := (nodes h)(a \<mapsto> n\<lparr>nval := value\<rparr>)\<rparr>"
  have "updateNode h a (nkey n) value (nhost n) (ninfo n) = Some h'"
    using n w i et etn nz by (auto simp: updateNode_def free_str_def h'_def Let_def)
  moreover have "strs h (nkey n) = Some k" using a(2) n by (simp add: keystr_def)
  moreover obtain j where "j < NUM_BUCKETS" "a \<in> set (bs j)" using a(1) by (auto simp: cells_def)
  then have "indexOf k = Some (int j)" using rep_index [OF r _ _ a(2)] by blast
  moreover from this have "getNode h (int j) k = Some a" "a \<noteq> 0"
    using get_hit [OF r a] by (simp_all add: get_def)
  ultimately have put: "put h (nkey n) value (nhost n) (ninfo n) = Some h'"
    by (simp add: put_def putKey_def)
  have agr: "agree h h' S" if "S \<inter> {nval n, a} = {}" for S
    using that by (auto simp: agree_def h'_def)
  have frame: "agree h h' (set (owned h b))" if "b \<in> cells bs" "b \<noteq> a" for b
    using rep_disjoint [OF r a(1) that(1)] that(2) by (intro agr) (auto simp: ow)
  have vn: "value \<noteq> nval n" "value \<noteq> a" using va by (auto simp: ow)
  have "set (value # nhost n # info_ptrs h (ninfo n)) \<inter> {nval n, a} = {}"
    using d vn by (auto simp: ow)
  from contents_cong [OF agr [OF this]]
  have c: "contents h' value (nhost n) (ninfo n) = contents h value (nhost n) (ninfo n)"
    "info_ptrs h' (ninfo n) = info_ptrs h (ninfo n)" by simp_all
  have e': "contents h value (nhost n) (ninfo n) = Some (e\<lparr>e_val := v\<rparr>)"
    using e n v(1) by (auto simp: entry_of_def contents_def elim!: bind_SomeE)
  have ow': "owned h' a = a # nkey n # value # nhost n # info_ptrs h (ninfo n)"
    using c(2) by (simp add: owned_def h'_def)
  have di: "distinct (owned h' a)" using d va by (auto simp: ow ow')
  have disj: "set (owned h' a) \<inter> set (owned h b) = {}" if "b \<in> cells bs" "b \<noteq> a" for b
    using rep_disjoint [OF r a(1) that(1)] that(2) v(2) that(1) by (auto simp: ow' ow)
  have lv: "0 < p \<and> p < brk h'" if "live h' p" for p
    using that rep_live [OF r, of p] n by (auto simp: live_def h'_def split: if_splits)
  have rest: "MAP h' = MAP h" "map_option nnext (nodes h' a) = map_option nnext (nodes h a)"
    "keystr h' a = Some k" "entry_of h' a = Some (e\<lparr>e_val := v\<rparr>)"
    using n a(2) d c(1) e' by (auto simp: h'_def keystr_def entry_of_def ow)
  have "strs h' (nval n) = None" by (simp add: h'_def)
  from that [OF put rep_replace [OF r a(1) frame rest(1,2,3) a(2) rest(4) di disj lv] this] frame
  show ?thesis by blast
qed

end
