(* ===== verification/Cache_Spec.thy ===== *)
theory Cache_Spec
  imports Cache_Map
begin

text \<open>
  What the cache promises to its clients: the interface \<open>dictionary\<close>, discharged by the
  operations of the heap model, and the properties of the component.
\<close>

section \<open>The interface\<close>

text \<open>
  A store whose updates take arguments that are described by a key and a content, with the
  rule by which a new content is combined with the one it replaces.
\<close>

fun upds :: "('h \<Rightarrow> 'a \<Rightarrow> 'h option) \<Rightarrow> 'h \<Rightarrow> 'a list \<Rightarrow> 'h option" where
  "upds upd h [] = Some h"
| "upds upd h (a # as) = do { h' \<leftarrow> upd h a; upds upd h' as }"

locale dictionary =
  fixes ok :: "'h \<Rightarrow> bool"
    and view :: "'h \<Rightarrow> 'k \<Rightarrow> 'e option"
    and look :: "'h \<Rightarrow> 'k \<Rightarrow> 'e option option"
    and upd :: "'h \<Rightarrow> 'a \<Rightarrow> 'h option"
    and key_ok :: "'k \<Rightarrow> bool"
    and args :: "'h \<Rightarrow> 'a \<Rightarrow> 'k \<Rightarrow> 'e \<Rightarrow> bool"
    and merge :: "'e option \<Rightarrow> 'e \<Rightarrow> 'e"
  assumes look_view: "ok h \<Longrightarrow> key_ok k \<Longrightarrow> look h k = Some (view h k)"
    and upd_view: "ok h \<Longrightarrow> args h a k e \<Longrightarrow>
      \<exists>h'. upd h a = Some h' \<and> ok h' \<and> view h' = (view h)(k \<mapsto> merge (view h k) e)"
    and args_key: "args h a k e \<Longrightarrow> key_ok k"
begin

lemma look_after_upd:
  assumes "ok h" "args h a k e" "upd h a = Some h'"
  shows "look h' k = Some (Some (merge (view h k) e))"
  using upd_view [OF assms(1,2)] assms(3) look_view [of h' k] args_key [OF assms(2)] by auto

lemma look_other:
  assumes "ok h" "args h a k e" "upd h a = Some h'" "k' \<noteq> k" "key_ok k'"
  shows "look h' k' = look h k'"
  using upd_view [OF assms(1,2)] assms look_view by auto

lemma upd_ok: "ok h \<Longrightarrow> args h a k e \<Longrightarrow> upd h a = Some h' \<Longrightarrow> ok h'"
  using upd_view by fastforce

lemma upd_total: "ok h \<Longrightarrow> args h a k e \<Longrightarrow> upd h a \<noteq> None"
  using upd_view by fastforce

text \<open>Nothing is ever evicted: every key that is present stays present.\<close>

lemma upd_dom: "ok h \<Longrightarrow> args h a k e \<Longrightarrow> upd h a = Some h' \<Longrightarrow> dom (view h') = insert k (dom (view h))"
  using upd_view by fastforce

end

section \<open>put as one statement\<close>

record put_args =
  p_key :: nat
  p_val :: nat
  p_host :: nat
  p_info :: nat

definition do_put :: "heap \<Rightarrow> put_args \<Rightarrow> heap option" where
  "do_put h a = put h (p_key a) (p_val a) (p_host a) (p_info a)"

definition put_fresh :: "heap \<Rightarrow> put_args \<Rightarrow> string \<Rightarrow> entry \<Rightarrow> bool" where
  "put_fresh h a k e = fresh_args h (p_key a) (p_val a) (p_host a) (p_info a) k e"

text \<open>An entry that is replaced keeps the host under which it was first stored.\<close>

definition merge_entry :: "entry option \<Rightarrow> entry \<Rightarrow> entry" where
  "merge_entry old e = (case old of None \<Rightarrow> e | Some e0 \<Rightarrow> e\<lparr>e_host := e_host e0\<rparr>)"

definition get_entry :: "heap \<Rightarrow> string \<Rightarrow> entry option option" where
  "get_entry h k = do { a \<leftarrow> get h k;
     if a = 0 then Some None else do { e \<leftarrow> entry_of h a; Some (Some e) } }"

lemma rep_cases:
  assumes "rep h bs" "cache_key k"
  obtains (hit) a e where "a \<in> cells bs" "keystr h a = Some k" "entry_of h a = Some e"
      "get h k = Some a" "a \<noteq> 0" "cache_view h k = Some e"
    | (miss) "\<forall>a\<in>cells bs. keystr h a \<noteq> Some k" "get h k = Some 0" "cache_view h k = None"
proof (cases "\<exists>a\<in>cells bs. keystr h a = Some k")
  case True
  then obtain a where a: "a \<in> cells bs" "keystr h a = Some k" by blast
  obtain k' e where "keystr h a = Some k'" "entry_of h a = Some e" by (rule rep_node [OF assms(1) a(1)])
  with a get_hit [OF assms(1) a] view_iff [OF assms(1)] hit show ?thesis by blast
next
  case False
  obtain i where i: "i < NUM_BUCKETS" "indexOf k = Some (int i)"
    using indexOf_cache_key [OF assms(2)] by blast
  have "cache_view h k = None" using False view_iff [OF assms(1), of k]
    by (cases "cache_view h k") auto
  with False get_miss [OF assms(1) i] miss show ?thesis by blast
qed

lemma get_entry_view:
  assumes "cache_ok h" "cache_key k"
  shows "get_entry h k = Some (cache_view h k)"
proof -
  obtain bs where "rep h bs" using assms(1) by (auto simp: cache_ok_def)
  from this assms(2) show ?thesis by (cases rule: rep_cases) (auto simp: get_entry_def)
qed

lemma view_brk: "rep h bs \<Longrightarrow> cache_view h k = Some e \<Longrightarrow> 0 < brk h"
  by (auto simp: view_iff owned_def keystr_def live_def elim!: bind_SomeE
      dest!: rep_live [where p = "_ :: nat"] live_owned)

lemma do_put_view:
  assumes "cache_ok h" "put_fresh h a k e"
  shows "\<exists>h'. do_put h a = Some h' \<and> cache_ok h' \<and> cache_view h' = (cache_view h)(k \<mapsto> merge_entry (cache_view h k) e)"
proof -
  obtain bs where r: "rep h bs" using assms(1) by (auto simp: cache_ok_def)
  note f = assms(2) [unfolded put_fresh_def]
  from r fresh_argsD(2) [OF f r] show ?thesis
  proof (cases rule: rep_cases)
    case (hit c e0)
    obtain h' where "put h (p_key a) (p_val a) (p_host a) (p_info a) = Some h'" "rep h' bs"
      "cache_view h' = (cache_view h)(k \<mapsto> e\<lparr>e_host := e_host e0\<rparr>)"
      by (rule put_hit [OF r f hit(1-3)])
    with hit(6) show ?thesis using view_brk by (fastforce simp: do_put_def merge_entry_def cache_ok_def)
  next
    case miss
    obtain h' bs' where "put h (p_key a) (p_val a) (p_host a) (p_info a) = Some h'" "rep h' bs'"
      "cache_view h' = (cache_view h)(k \<mapsto> e)"
      by (rule put_miss [OF r f miss(1)])
    with miss(3) show ?thesis using view_brk by (fastforce simp: do_put_def merge_entry_def cache_ok_def)
  qed
qed

interpretation cache: dictionary cache_ok cache_view get_entry do_put cache_key put_fresh merge_entry
proof
  show "cache_ok h \<Longrightarrow> cache_key k \<Longrightarrow> get_entry h k = Some (cache_view h k)" for h k
    by (rule get_entry_view)
  show "cache_ok h \<Longrightarrow> put_fresh h a k e \<Longrightarrow> \<exists>h'. do_put h a = Some h' \<and> cache_ok h' \<and>
      cache_view h' = (cache_view h)(k \<mapsto> merge_entry (cache_view h k) e)" for h a k e
    by (rule do_put_view)
  show "put_fresh h a k e \<Longrightarrow> cache_key k" for h a k e
    by (auto simp: put_fresh_def fresh_args_def)
qed

section \<open>Storing a response\<close>

text \<open>
  The allocations that \<open>forwardRequest\<close> makes for a response that it may cache: the
  \<open>CacheInfo\<close>, the expiry time and the eTag that \<open>parseResponse\<close> hangs into it, then the
  buffer, the key and the host.
\<close>

definition alloc_entry :: "heap \<Rightarrow> string \<Rightarrow> entry \<Rightarrow> put_args \<times> heap" where
  "alloc_entry h k e =
     (let (ex, h) = (case e_expiry e of None \<Rightarrow> (0, h) | Some t \<Rightarrow> malloc_tm h t);
          (et, h) = (case e_etag e of None \<Rightarrow> (0, h) | Some s \<Rightarrow> malloc_str h s);
          (info, h) = malloc_info h \<lparr>needsRevalidation = e_needs e, expiryTime = ex, eTag = et\<rparr>;
          (val, h) = malloc_str h (e_val e);
          (key, h) = malloc_str h k;
          (host, h) = malloc_str h (e_host e)
      in (\<lparr>p_key = key, p_val = val, p_host = host, p_info = info\<rparr>, h))"

definition store_entry :: "heap \<Rightarrow> string \<Rightarrow> entry \<Rightarrow> heap option" where
  "store_entry h k e = (let (a, h') = alloc_entry h k e in do_put h' a)"

lemma rep_alloc:
  assumes r: "rep h bs" and agr: "\<And>S. brk h \<notin> S \<Longrightarrow> agree h h' S"
    and m: "MAP h' = MAP h" "nodes h' (brk h) = None" "brk h' = brk h + 1" "0 < brk h"
  shows "rep h' bs" and "cache_view h' = cache_view h" and "\<And>b. b \<in> cells bs \<Longrightarrow> owned h' b = owned h b"
proof -
  have nl: "\<not> live h (brk h)" using rep_live [OF r, of "brk h"] by auto
  have a: "agree h h' (set (owned h b))" if "b \<in> cells bs" for b
    using live_owned [OF r that] nl by (intro agr) blast
  note cong = node_cong [OF a]
  have nd: "map_option nnext (nodes h' b) = map_option nnext (nodes h b)" for b
    using agr [of "{b}"] m(2) nl by (cases "b = brk h") (auto simp: agree_def live_def)
  have lv: "0 < p \<and> p < brk h'" if "live h' p" for p
    using that rep_live [OF r, of p] agr [of "{p}"] m(3,4)
    by (cases "p = brk h") (auto simp: agree_def live_def)
  have ex: "\<exists>k e. keystr h' a = Some k \<and> entry_of h' a = Some e \<and> indexOf k = Some (int i)"
    if i: "i < NUM_BUCKETS" "a \<in> set (bs i)" for i a
  proof -
    have c: "a \<in> cells bs" using i by blast
    obtain k e where k: "keystr h a = Some k" "entry_of h a = Some e" by (rule rep_node [OF r c])
    then show ?thesis using rep_index [OF r i k(1)] cong(2,3) [OF c] by simp
  qed
  have ch: "chain h' (MAP h' ! i) (bs i)" if "i < NUM_BUCKETS" for i
    using rep_chain [OF r that] chain_cong [of "bs i" h' h, OF nd] by (simp add: m(1))
  show rep': "rep h' bs"
    unfolding rep_def
    using ex ch lv rep_len [OF r] rep_distinct [OF r] rep_disjoint [OF r] rep_keys [OF r] cong m(1)
    by (auto; metis)
  show "\<And>b. b \<in> cells bs \<Longrightarrow> owned h' b = owned h b" by (rule cong(4))
  show "cache_view h' = cache_view h"
  proof
    fix k show "cache_view h' k = cache_view h k"
      by (rule option_eqI) (simp only: view_iff [OF rep'] view_iff [OF r] cong(2,3) cong: bex_cong)
  qed
qed

definition same_cache :: "(nat \<Rightarrow> nat list) \<Rightarrow> heap \<Rightarrow> heap \<Rightarrow> bool" where
  "same_cache bs h h' \<longleftrightarrow> rep h bs \<and> rep h' bs \<and> cache_view h' = cache_view h \<and>
     0 < brk h \<and> brk h \<le> brk h' \<and> (\<forall>b\<in>cells bs. owned h' b = owned h b)"

lemma same_cache_malloc:
  assumes "same_cache bs h0 h"
  shows "same_cache bs h0 (snd (malloc_str h s))" "same_cache bs h0 (snd (malloc_tm h t))"
    "same_cache bs h0 (snd (malloc_info h i))"
proof -
  have r: "rep h bs" and b: "0 < brk h" using assms by (auto simp: same_cache_def)
  have "\<not> live h (brk h)" using rep_live [OF r, of "brk h"] by auto
  then have "nodes h (brk h) = None" by (simp add: live_def)
  note ra = rep_alloc [OF r _ _ _ _ b]
  show "same_cache bs h0 (snd (malloc_str h s))" "same_cache bs h0 (snd (malloc_tm h t))"
    "same_cache bs h0 (snd (malloc_info h i))"
    using assms ra [of "snd (malloc_str h s)"] ra [of "snd (malloc_tm h t)"] ra [of "snd (malloc_info h i)"]
      \<open>nodes h (brk h) = None\<close>
    by (simp_all add: same_cache_def malloc_str_def malloc_tm_def malloc_info_def agree_def)
qed

lemma same_cache_refl: "rep h bs \<Longrightarrow> 0 < brk h \<Longrightarrow> same_cache bs h h"
  by (simp add: same_cache_def)

lemma alloc_entry_same:
  assumes "rep h bs" "0 < brk h"
  shows "same_cache bs h (snd (alloc_entry h k e))"
  using same_cache_refl [OF assms]
  by (auto simp: alloc_entry_def Let_def split_def split: option.split intro!: same_cache_malloc)

lemma alloc_entry_args:
  assumes r: "rep h bs" and b: "0 < brk h" and k: "cache_key k" and al: "alloc_entry h k e = (a, h')"
  shows "put_fresh h' a k e"
proof -
  have sc: "same_cache bs h h'" using alloc_entry_same [OF r b, of k e] al by simp
  have "strs h' (p_key a) = Some k \<and> contents h' (p_val a) (p_host a) (p_info a) = Some e \<and>
    distinct (arg_ptrs h' (p_key a) (p_val a) (p_host a) (p_info a)) \<and>
    (\<forall>p\<in>set (arg_ptrs h' (p_key a) (p_val a) (p_host a) (p_info a)). brk h \<le> p)"
    using al b
    by (auto simp: alloc_entry_def Let_def malloc_str_def malloc_tm_def malloc_info_def
        contents_def arg_ptrs_def info_ptrs_def opt_ptr_def split: option.splits)
  moreover have "set (arg_ptrs h' (p_key a) (p_val a) (p_host a) (p_info a)) \<inter> set (owned h' c) = {}"
    if "c \<in> cells bs" for c
  proof -
    have "p < brk h" if "p \<in> set (owned h' c)" for p
      using that live_owned [OF r \<open>c \<in> cells bs\<close>] rep_live [OF r] sc \<open>c \<in> cells bs\<close>
      by (auto simp: same_cache_def)
    with calculation show ?thesis by fastforce
  qed
  ultimately show ?thesis using k sc
    unfolding put_fresh_def fresh_args_def same_cache_def by blast
qed

section \<open>Whatever is looked up or stored without a fault\<close>

text \<open>A lookup or a store that does not fault was one of a key that hashes to a bucket.\<close>

lemma getNode_key:
  assumes "rep h bs" "indexOf k = Some b" "getNode h b k \<noteq> None"
  shows "cache_key k"
proof -
  have "0 \<le> b \<and> b < int NUM_BUCKETS"
    using assms(3) rep_len [OF assms(1)] by (auto simp: getNode_def bucket_head_def split: if_splits)
  then show ?thesis unfolding cache_key_def by (intro exI [of _ "nat b"]) (auto simp: assms(2))
qed

lemma get_key: "rep h bs \<Longrightarrow> get h k = Some a \<Longrightarrow> cache_key k"
  using getNode_key by (auto simp: get_def elim!: bind_SomeE)

lemma put_key:
  assumes "rep h bs" "put h key value host info = Some h'" "strs h key = Some k"
  shows "cache_key k"
  using assms getNode_key by (auto simp: put_def putKey_def elim!: bind_SomeE)

section \<open>What a store does to the blocks of the entries\<close>

lemma alloc_entry_frame:
  assumes "alloc_entry h k e = (a, h')" "\<forall>p\<in>S. p < brk h"
  shows "agree h h' S"
  using assms
  by (auto simp: agree_def alloc_entry_def Let_def malloc_str_def malloc_tm_def malloc_info_def split: option.splits)

text \<open>
  The response that a node pointed to before a store: the store frees it exactly if it is one under
  the same URI.
\<close>

lemma store_blocks:
  assumes ok: "cache_ok h" "cache_key k" "cache_key u" and look: "get h u = Some c" "c \<noteq> 0" "nodes h c = Some n"
  shows "\<exists>h'. store_entry h k e = Some h' \<and> strs h' (nval n) = (if k = u then None else strs h (nval n))"
proof -
  obtain bs where r: "rep h bs" "0 < brk h" using ok(1) by (auto simp: cache_ok_def)
  have c: "c \<in> cells bs" "keystr h c = Some u" using r(1) ok(3) look by (cases rule: rep_cases; simp)+
  obtain a h1 where al: "alloc_entry h k e = (a, h1)" by fastforce
  have r1: "rep h1 bs" using alloc_entry_same [OF r, of k e] al by (simp add: same_cache_def)
  note f = alloc_entry_args [OF r ok(2) al, unfolded put_fresh_def]
  have "\<forall>p\<in>set (owned h c). p < brk h" using live_owned [OF r(1) c(1)] rep_live [OF r(1)] by blast
  note ag = alloc_entry_frame [OF al this]
  have k1: "keystr h1 c = Some u" "nodes h1 c = Some n" "nval n \<in> set (owned h1 c)"
    using node_cong [OF ag] c(2) look(3) by (simp_all add: owned_def)
  have v1: "strs h1 (nval n) = strs h (nval n)" using ag k1(3) node_cong(4) [OF ag] by (simp add: agree_def)
  from r1 ok(2) have "\<exists>h'. do_put h1 a = Some h' \<and> strs h' (nval n) = (if k = u then None else strs h1 (nval n))"
  proof (cases rule: rep_cases)
    case (hit b e0)
    obtain h' where h': "do_put h1 a = Some h'" "strs h' (nval (the (nodes h1 b))) = None"
        "\<And>b'. b' \<in> cells bs \<Longrightarrow> b' \<noteq> b \<Longrightarrow> agree h1 h' (set (owned h1 b'))"
      using put_hit [OF r1 f hit(1-3)] by (metis do_put_def)
    show ?thesis
    proof (cases "k = u")
      case True
      then have "b = c" using rep_keys [OF r1 hit(1) c(1)] hit(2) k1(1) by simp
      then show ?thesis using h'(1,2) True k1(2) by simp
    next
      case False
      then have "c \<noteq> b" using hit(2) k1(1) by auto
      then show ?thesis using h'(1) h'(3) [OF c(1)] False k1(3) by (simp add: agree_def)
    qed
  next
    case miss
    obtain h' where h': "do_put h1 a = Some h'" "\<And>b. b \<in> cells bs \<Longrightarrow> agree h1 h' (set (owned h1 b))"
      using put_miss [OF r1 f miss(1)] by (metis do_put_def)
    have "k \<noteq> u" using miss(1) c(1) k1(1) by auto
    then show ?thesis using h'(1) h'(2) [OF c(1)] k1(3) by (simp add: agree_def)
  qed
  then show ?thesis unfolding v1 by (simp add: store_entry_def al split del: if_split)
qed

text \<open>Every node stays in the cache with its key, and every entry but the one of \<open>u\<close> with all its blocks.\<close>

definition nodes_kept :: "string \<Rightarrow> heap \<Rightarrow> heap \<Rightarrow> bool" where
  "nodes_kept u h h' \<longleftrightarrow> (\<forall>bs. rep h bs \<longrightarrow> (\<exists>bs'. rep h' bs' \<and>
     (\<forall>b\<in>cells bs. b \<in> cells bs' \<and> keystr h' b = keystr h b \<and>
       (keystr h b \<noteq> Some u \<longrightarrow> agree h h' (set (owned h b))))))"

lemma nodes_keptE:
  assumes "nodes_kept u h h'" "rep h bs"
  obtains bs' where "rep h' bs'" "cells bs \<subseteq> cells bs'" "\<forall>b\<in>cells bs. keystr h' b = keystr h b"
    "\<forall>b\<in>cells bs. keystr h b \<noteq> Some u \<longrightarrow> agree h h' (set (owned h b))"
  using assms unfolding nodes_kept_def by blast

lemma nodes_keptI:
  assumes "rep h bs" "rep h' bs'" "cells bs \<subseteq> cells bs'" "\<And>b. b \<in> cells bs \<Longrightarrow> keystr h' b = keystr h b"
    and "\<And>b. b \<in> cells bs \<Longrightarrow> keystr h b \<noteq> Some u \<Longrightarrow> agree h h' (set (owned h b))"
  shows "nodes_kept u h h'"
  unfolding nodes_kept_def
proof (intro allI impI)
  fix cs assume "rep h cs"
  then have "cells cs = cells bs" using rep_cells_unique assms(1) by blast
  then show "\<exists>bs'. rep h' bs' \<and> (\<forall>b\<in>cells cs. b \<in> cells bs' \<and> keystr h' b = keystr h b \<and>
      (keystr h b \<noteq> Some u \<longrightarrow> agree h h' (set (owned h b))))"
    using assms(2-5) by blast
qed

lemma nodes_kept_refl: "nodes_kept u h h"
  by (auto simp: nodes_kept_def agree_def)

lemma nodes_kept_agree:
  assumes "rep h bs" "rep h' bs'" "cells bs \<subseteq> cells bs'" "\<And>b. b \<in> cells bs \<Longrightarrow> agree h h' (set (owned h b))"
  shows "nodes_kept u h h'"
  by (rule nodes_keptI [OF assms(1-3)]) (use assms(4) node_cong(2) in blast)+

text \<open>The entry of a node is replaced.\<close>

lemma nodes_kept_replace:
  assumes r: "rep h bs" "rep h' bs" and a: "a \<in> cells bs" "keystr h a = Some u"
    and frame: "\<And>b. b \<in> cells bs \<Longrightarrow> b \<noteq> a \<Longrightarrow> agree h h' (set (owned h b))"
    and view: "cache_view h' u = Some e"
  shows "nodes_kept u h h'"
proof (rule nodes_keptI [OF r])
  obtain b where b: "b \<in> cells bs" "keystr h' b = Some u" using view view_iff [OF r(2)] by blast
  have "b = a"
  proof (rule ccontr)
    assume "b \<noteq> a"
    then show False using rep_keys [OF r(1) b(1) a(1)] node_cong(2) [OF frame [OF b(1)]] b(2) a(2) by simp
  qed
  then show "keystr h' c = keystr h c" if "c \<in> cells bs" for c
    using b(2) a(2) node_cong(2) [OF frame [OF that]] by (cases "c = a") simp_all
qed (use frame a(2) in auto)

lemma nodes_kept_trans:
  assumes "nodes_kept u h h'" "nodes_kept u h' h''"
  shows "nodes_kept u h h''"
proof (cases "\<exists>bs. rep h bs")
  case True
  then obtain bs where r: "rep h bs" by blast
  obtain bs' where b1: "rep h' bs'" "cells bs \<subseteq> cells bs'" "\<forall>b\<in>cells bs. keystr h' b = keystr h b"
    "\<forall>b\<in>cells bs. keystr h b \<noteq> Some u \<longrightarrow> agree h h' (set (owned h b))"
    by (rule nodes_keptE [OF assms(1) r])
  obtain bs'' where b2: "rep h'' bs''" "cells bs' \<subseteq> cells bs''" "\<forall>b\<in>cells bs'. keystr h'' b = keystr h' b"
    "\<forall>b\<in>cells bs'. keystr h' b \<noteq> Some u \<longrightarrow> agree h' h'' (set (owned h' b))"
    by (rule nodes_keptE [OF assms(2) b1(1)])
  show ?thesis
  proof (rule nodes_keptI [OF r b2(1)])
    show "cells bs \<subseteq> cells bs''" using b1(2) b2(2) by blast
    show "keystr h'' b = keystr h b" if "b \<in> cells bs" for b using that b1(2,3) b2(3) by (metis subsetD)
    show "agree h h'' (set (owned h b))" if b: "b \<in> cells bs" "keystr h b \<noteq> Some u" for b
    proof -
      have a: "agree h h' (set (owned h b))" using b1(4) b by blast
      have "b \<in> cells bs'" "keystr h' b \<noteq> Some u" using b1(2,3) b by auto
      then have "agree h' h'' (set (owned h b))" using b2(4) node_cong(4) [OF a] by metis
      then show ?thesis using a by (simp add: agree_def)
    qed
  qed
qed (simp add: nodes_kept_def)

text \<open>A node that was found stays the one that is found.\<close>

lemma node_stays:
  assumes "nodes_kept u h h'" "cache_ok h" "get h k = Some a" "a \<noteq> 0"
  shows "get h' k = Some a"
proof -
  obtain bs where r: "rep h bs" using assms(2) by (auto simp: cache_ok_def)
  obtain bs' where b: "rep h' bs'" "cells bs \<subseteq> cells bs'" "\<forall>b\<in>cells bs. keystr h' b = keystr h b"
    "\<forall>b\<in>cells bs. keystr h b \<noteq> Some u \<longrightarrow> agree h h' (set (owned h b))"
    by (rule nodes_keptE [OF assms(1) r])
  from r get_key [OF r assms(3)] show ?thesis
  proof (cases rule: rep_cases)
    case (hit c e)
    then have "c = a" using assms(3) by simp
    then show ?thesis using get_hit(1) [OF b(1), of a k] hit(1,2) b(2,3) by auto
  qed (use assms(3,4) in simp)
qed

text \<open>The block that holds the response of an entry.\<close>

definition response_at :: "heap \<Rightarrow> string \<Rightarrow> nat \<Rightarrow> bool" where
  "response_at h k p \<longleftrightarrow> (\<exists>bs. rep h bs \<and> (\<exists>b\<in>cells bs. keystr h b = Some k \<and> map_option nval (nodes h b) = Some p))"

lemma response_kept:
  assumes "nodes_kept u h h'" "response_at h k p" "k \<noteq> u"
  shows "response_at h' k p" "strs h' p = strs h p"
proof -
  obtain bs b where b: "rep h bs" "b \<in> cells bs" "keystr h b = Some k" "map_option nval (nodes h b) = Some p"
    using assms(2) unfolding response_at_def by blast
  then have ne: "keystr h b \<noteq> Some u" using assms(3) by simp
  obtain bs' where "rep h' bs'" "cells bs \<subseteq> cells bs'" "\<forall>b\<in>cells bs. keystr h' b = keystr h b"
    "\<forall>b\<in>cells bs. keystr h b \<noteq> Some u \<longrightarrow> agree h h' (set (owned h b))"
    by (rule nodes_keptE [OF assms(1) b(1)])
  then have b': "rep h' bs'" "b \<in> cells bs'" "agree h h' (set (owned h b))" using b(2) ne by blast+
  note cong = node_cong [OF b'(3)]
  show "response_at h' k p" unfolding response_at_def
    using b'(1,2) b(3,4) cong(1,2) by metis
  have "p \<in> set (owned h b)" using b(4) by (auto simp: owned_def)
  then show "strs h' p = strs h p" using b'(3) by (simp add: agree_def)
qed

lemma store_entry_steps:
  assumes ok: "cache_ok h" and st: "store_entry h k e = Some h'"
  obtains bs a h1 where "rep h bs" "alloc_entry h k e = (a, h1)" "rep h1 bs" "cache_ok h1" "cache_view h1 = cache_view h"
    "cache_key k" "put_fresh h1 a k e" "do_put h1 a = Some h'"
proof -
  obtain bs where r: "rep h bs" "0 < brk h" using ok by (auto simp: cache_ok_def)
  obtain a h1 where al: "alloc_entry h k e = (a, h1)" by fastforce
  have r1: "rep h1 bs" "cache_ok h1" "cache_view h1 = cache_view h"
    using alloc_entry_same [OF r, of k e] al by (auto simp: same_cache_def cache_ok_def)
  have pt: "do_put h1 a = Some h'" using st al by (simp add: store_entry_def)
  have "strs h1 (p_key a) = Some k"
    using al by (auto simp: alloc_entry_def Let_def malloc_str_def malloc_tm_def malloc_info_def split: option.splits)
  then have k: "cache_key k" using put_key [OF r1(1)] pt by (auto simp: do_put_def)
  show ?thesis by (rule that [OF r(1) al r1 k alloc_entry_args [OF r k al] pt])
qed

lemma store_entry_keeps:
  assumes "cache_ok h" "store_entry h k e = Some h'"
  shows "cache_ok h'" "cache_view h' = (cache_view h)(k \<mapsto> merge_entry (cache_view h k) e)"
proof -
  obtain a h1 where a: "cache_ok h1" "cache_view h1 = cache_view h" "put_fresh h1 a k e" "do_put h1 a = Some h'"
    using store_entry_steps [OF assms] by blast
  from do_put_view [OF a(1,3)] show "cache_ok h'" "cache_view h' = (cache_view h)(k \<mapsto> merge_entry (cache_view h k) e)"
    using a(2,4) by auto
qed

lemma store_entry_nodes:
  assumes "cache_ok h" "store_entry h k e = Some h'"
  shows "nodes_kept k h h'"
proof -
  obtain bs a h1 where r: "rep h bs" and al: "alloc_entry h k e = (a, h1)" and r1: "rep h1 bs" and k: "cache_key k"
    and fr: "put_fresh h1 a k e" and pt: "do_put h1 a = Some h'" using store_entry_steps [OF assms] by blast
  note f = fr [unfolded put_fresh_def]
  have "agree h h1 (set (owned h b))" if "b \<in> cells bs" for b
    by (rule alloc_entry_frame [OF al]) (use live_owned [OF r that] rep_live [OF r] in blast)
  then have a1: "nodes_kept k h h1" by (intro nodes_kept_agree [OF r r1]) simp_all
  from r1 k have "nodes_kept k h1 h'"
  proof (cases rule: rep_cases)
    case (hit b e0)
    obtain h2 where h2: "do_put h1 a = Some h2" "rep h2 bs"
        "\<And>c. c \<in> cells bs \<Longrightarrow> c \<noteq> b \<Longrightarrow> agree h1 h2 (set (owned h1 c))" "cache_view h2 k = Some (e\<lparr>e_host := e_host e0\<rparr>)"
      using put_hit [OF r1 f hit(1-3)] by (metis do_put_def fun_upd_same)
    then show ?thesis using nodes_kept_replace [OF r1 h2(2) hit(1,2)] pt by simp
  next
    case miss
    obtain h2 bs' where h2: "do_put h1 a = Some h2" "rep h2 bs'" "cells bs \<subseteq> cells bs'"
        "\<And>c. c \<in> cells bs \<Longrightarrow> agree h1 h2 (set (owned h1 c))"
      using put_miss [OF r1 f miss(1)] by (metis do_put_def)
    then show ?thesis using nodes_kept_agree [OF r1 h2(2,3,4)] pt by simp
  qed
  with a1 show ?thesis by (rule nodes_kept_trans)
qed

end
