(* ===== verification/Cache_Clear.thy ===== *)
theory Cache_Clear
  imports Cache_Map
begin

text \<open>
  \<open>freeNode\<close> and \<open>clearCache\<close>: on a represented cache every block that a node owns is freed
  exactly once (a second \<open>free\<close> of a block would fault), and nothing else is touched.
\<close>

lemma free_ok:
  "p \<noteq> 0 \<Longrightarrow> strs h p \<noteq> None \<Longrightarrow> free_str h p = Some (h\<lparr>strs := (strs h)(p := None)\<rparr>)"
  "p \<noteq> 0 \<Longrightarrow> tms h p \<noteq> None \<Longrightarrow> free_tm h p = Some (h\<lparr>tms := (tms h)(p := None)\<rparr>)"
  "p \<noteq> 0 \<Longrightarrow> infos h p \<noteq> None \<Longrightarrow> free_info h p = Some (h\<lparr>infos := (infos h)(p := None)\<rparr>)"
  "p \<noteq> 0 \<Longrightarrow> nodes h p \<noteq> None \<Longrightarrow> free_node h p = Some (h\<lparr>nodes := (nodes h)(p := None)\<rparr>)"
  "free_str h 0 = Some h" "free_tm h 0 = Some h"
  by (simp_all add: free_str_def free_tm_def free_info_def free_node_def)

text \<open>The blocks of a node, each with its type, are gone.\<close>

definition released :: "heap \<Rightarrow> heap \<Rightarrow> nat \<Rightarrow> bool" where
  "released h h' a \<longleftrightarrow> nodes h' a = None \<and>
     (\<forall>n i. nodes h a = Some n \<longrightarrow> infos h (ninfo n) = Some i \<longrightarrow>
        strs h' (nkey n) = None \<and> strs h' (nval n) = None \<and> strs h' (nhost n) = None \<and>
        infos h' (ninfo n) = None \<and> (eTag i \<noteq> 0 \<longrightarrow> strs h' (eTag i) = None) \<and>
        (expiryTime i \<noteq> 0 \<longrightarrow> tms h' (expiryTime i) = None))"

lemma freeNode_ok:
  assumes "keystr h a = Some k" "entry_of h a = Some e" "distinct (owned h a)" "0 \<notin> set (owned h a)"
  obtains h' where "freeNode h a = Some h'" "released h h' a" "MAP h' = MAP h"
    "\<And>S. S \<inter> set (owned h a) = {} \<Longrightarrow> agree h h' S"
proof -
  obtain n where n: "nodes h a = Some n" using assms(1) by (auto simp: keystr_def elim!: bind_SomeE)
  obtain i where i: "infos h (ninfo n) = Some i"
    using assms(2) n by (auto simp: entry_of_def contents_def elim!: bind_SomeE)
  have l: "strs h (nkey n) \<noteq> None" "strs h (nval n) \<noteq> None" "strs h (nhost n) \<noteq> None"
    "eTag i = 0 \<or> strs h (eTag i) \<noteq> None" "expiryTime i = 0 \<or> tms h (expiryTime i) \<noteq> None"
    using assms(1,2) n i
    by (auto simp: keystr_def entry_of_def contents_def opt_ptr_def elim!: bind_SomeE split: if_splits)
  have ow: "owned h a = a # nkey n # nval n # nhost n # ninfo n # filter (\<lambda>p. p \<noteq> 0) [eTag i, expiryTime i]"
    by (simp add: owned_def n info_ptrs_def i)
  define s where "s = (strs h)(nkey n := None, nval n := None)"
  define h' where "h' = h\<lparr>strs := (if eTag i = 0 then s else s(eTag i := None))(nhost n := None),
    tms := (if expiryTime i = 0 then tms h else (tms h)(expiryTime i := None)),
    infos := (infos h)(ninfo n := None), nodes := (nodes h)(a := None)\<rparr>"
  have nz: "a \<noteq> 0" "nkey n \<noteq> 0" "nval n \<noteq> 0" "nhost n \<noteq> 0" "ninfo n \<noteq> 0" 
    using assms(4) by (auto simp: ow)
  have ne: "nkey n \<noteq> nval n" "nkey n \<noteq> nhost n" "nval n \<noteq> nhost n"
    "eTag i \<noteq> nkey n" "eTag i \<noteq> nval n" "eTag i \<noteq> nhost n"
    using assms(3) nz by (auto simp: ow split: if_splits)
  have "freeNode h a = Some h'"
    using n i l nz ne
    by (cases "eTag i = 0"; cases "expiryTime i = 0")
      (simp_all add: freeNode_def free_ok h'_def s_def del: not_None_eq)
  moreover have "released h h' a" using n i by (simp add: released_def h'_def s_def)
  moreover have "agree h h' S" if "S \<inter> set (owned h a) = {}" for S
  proof -
    have "p \<noteq> a" "p \<noteq> nkey n" "p \<noteq> nval n" "p \<noteq> nhost n" "p \<noteq> ninfo n"
      "eTag i \<noteq> 0 \<Longrightarrow> p \<noteq> eTag i" "expiryTime i \<noteq> 0 \<Longrightarrow> p \<noteq> expiryTime i" if "p \<in> S" for p
      using that \<open>S \<inter> set (owned h a) = {}\<close> by (auto simp: ow)
    then show ?thesis unfolding agree_def h'_def s_def by simp
  qed
  moreover have "MAP h' = MAP h" by (simp add: h'_def)
  ultimately show ?thesis using that by blast
qed

text \<open>A set of nodes that can be freed one after the other.\<close>

definition separate :: "heap \<Rightarrow> nat set \<Rightarrow> bool" where
  "separate h A \<longleftrightarrow> (\<forall>a\<in>A. keystr h a \<noteq> None \<and> entry_of h a \<noteq> None \<and> distinct (owned h a)
      \<and> 0 \<notin> set (owned h a))
    \<and> (\<forall>a\<in>A. \<forall>b\<in>A. a \<noteq> b \<longrightarrow> set (owned h a) \<inter> set (owned h b) = {})"

definition freed_only :: "heap \<Rightarrow> heap \<Rightarrow> nat set \<Rightarrow> bool" where
  "freed_only h h' A \<longleftrightarrow> (\<forall>a\<in>A. released h h' a) \<and> MAP h' = MAP h \<and>
     (\<forall>S. S \<inter> (\<Union>a\<in>A. set (owned h a)) = {} \<longrightarrow> agree h h' S)"

lemma agree_trans: "agree h1 h2 S \<Longrightarrow> agree h2 h3 S \<Longrightarrow> agree h1 h3 S"
  by (simp add: agree_def)

lemma released_agree:
  assumes "released h h1 a" "agree h1 h2 (set (owned h a))"
  shows "released h h2 a"
  unfolding released_def
proof (intro conjI allI impI)
  have "a \<in> set (owned h a)" by (simp add: owned_def split: option.split)
  with assms show "nodes h2 a = None" by (simp add: released_def agree_def)
  fix n i assume n: "nodes h a = Some n" and i: "infos h (ninfo n) = Some i"
  from assms(1) n i have r: "strs h1 (nkey n) = None" "strs h1 (nval n) = None" "strs h1 (nhost n) = None"
    "infos h1 (ninfo n) = None" "eTag i \<noteq> 0 \<Longrightarrow> strs h1 (eTag i) = None"
    "expiryTime i \<noteq> 0 \<Longrightarrow> tms h1 (expiryTime i) = None"
    unfolding released_def by blast+
  have m: "nkey n \<in> set (owned h a)" "nval n \<in> set (owned h a)" "nhost n \<in> set (owned h a)"
    "ninfo n \<in> set (owned h a)" "eTag i \<noteq> 0 \<Longrightarrow> eTag i \<in> set (owned h a)"
    "expiryTime i \<noteq> 0 \<Longrightarrow> expiryTime i \<in> set (owned h a)"
    using n i by (simp_all add: owned_def info_ptrs_def)
  show "strs h2 (nkey n) = None" "strs h2 (nval n) = None" "strs h2 (nhost n) = None"
    "infos h2 (ninfo n) = None" "eTag i \<noteq> 0 \<Longrightarrow> strs h2 (eTag i) = None"
    "expiryTime i \<noteq> 0 \<Longrightarrow> tms h2 (expiryTime i) = None"
    using assms(2) r m by (simp_all add: agree_def)
qed

text \<open>Freeing \<open>A\<close> and then \<open>B\<close> is freeing both, when they are separate.\<close>

lemma freed_only_Un:
  assumes sep: "separate h (A \<union> B)" and dj: "A \<inter> B = {}"
    and f1: "freed_only h h1 A" and f2: "freed_only h1 h2 B"
  shows "freed_only h h2 (A \<union> B)"
proof -
  have d: "set (owned h a) \<inter> set (owned h b) = {}" if "a \<in> A" "b \<in> B" for a b
  proof -
    have "a \<noteq> b" using that dj by blast
    then show ?thesis using sep that unfolding separate_def by blast
  qed
  have keep: "agree h h1 (set (owned h b))" if "b \<in> B" for b
    using f1 d that unfolding freed_only_def by blast
  note cong = node_cong [OF keep]
  have "released h h2 a" if "a \<in> A" for a
  proof (rule released_agree)
    show "released h h1 a" using f1 that by (simp add: freed_only_def)
    show "agree h1 h2 (set (owned h a))"
    proof -
      have "set (owned h a) \<inter> (\<Union>b\<in>B. set (owned h1 b)) = {}"
        using d [OF that] cong(4) by (simp add: Int_UN_distrib)
      with f2 show ?thesis by (simp only: freed_only_def)
    qed
  qed
  moreover have "released h h2 b" if "b \<in> B" for b
  proof -
    have "released h1 h2 b" using f2 that by (simp add: freed_only_def)
    moreover have "nodes h1 b = nodes h b" by (rule cong(1) [OF that])
    moreover have "infos h1 (ninfo n) = infos h (ninfo n)" if "nodes h b = Some n" for n
      using keep [OF \<open>b \<in> B\<close>] that by (auto simp: agree_def owned_def info_ptrs_def split: option.splits)
    ultimately show ?thesis by (auto simp: released_def)
  qed
  moreover have "agree h h2 S" if "S \<inter> (\<Union>a\<in>A \<union> B. set (owned h a)) = {}" for S
  proof (rule agree_trans)
    show "agree h h1 S" using f1 that unfolding freed_only_def by blast
    have "(\<Union>a\<in>B. set (owned h1 a)) = (\<Union>a\<in>B. set (owned h a))" using cong(4) by simp
    then show "agree h1 h2 S" using f2 that unfolding freed_only_def by blast
  qed
  ultimately show ?thesis using f1 f2 by (auto simp: freed_only_def)
qed

lemma separate_after:
  assumes "separate h (A \<union> B)" "A \<inter> B = {}" "freed_only h h1 A"
  shows "separate h1 B" and "\<And>b. b \<in> B \<Longrightarrow> nodes h1 b = nodes h b"
proof -
  have keep: "agree h h1 (set (owned h b))" if "b \<in> B" for b
  proof -
    have "set (owned h b) \<inter> set (owned h a) = {}" if "a \<in> A" for a
    proof -
      have "a \<noteq> b" using assms(2) that \<open>b \<in> B\<close> by blast
      then show ?thesis using assms(1) that \<open>b \<in> B\<close> unfolding separate_def by (metis UnCI)
    qed
    then show ?thesis using assms(3) unfolding freed_only_def by blast
  qed
  note cong = node_cong [OF keep]
  show "\<And>b. b \<in> B \<Longrightarrow> nodes h1 b = nodes h b" by (rule cong(1))
  show "separate h1 B"
    unfolding separate_def
  proof (intro conjI ballI impI)
    fix b assume b: "b \<in> B"
    then have "keystr h b \<noteq> None \<and> entry_of h b \<noteq> None \<and> distinct (owned h b) \<and> 0 \<notin> set (owned h b)"
      using assms(1) unfolding separate_def by blast
    then show "keystr h1 b \<noteq> None" "entry_of h1 b \<noteq> None" "distinct (owned h1 b)" "0 \<notin> set (owned h1 b)"
      using cong(2-4) [OF b] by simp_all
    fix c assume "c \<in> B" "b \<noteq> c"
    then have "set (owned h b) \<inter> set (owned h c) = {}"
      using assms(1) b unfolding separate_def by blast
    then show "set (owned h1 b) \<inter> set (owned h1 c) = {}"
      by (simp only: cong(4) [OF b] cong(4) [OF \<open>c \<in> B\<close>])
  qed
qed

lemma clear_chain_ok:
  assumes "chain h p as" "separate h (set as)"
  shows "\<exists>h'. clear_chain h p = Some h' \<and> freed_only h h' (set as)"
  using assms
proof (induction as arbitrary: h p)
  case Nil
  then show ?case by (simp add: clear_chain.simps freed_only_def agree_def)
next
  case (Cons a as)
  obtain n where n: "nodes h a = Some n" "p = a" "a \<noteq> 0" "chain h (nnext n) as"
    using Cons.prems(1) by (auto split: option.splits)
  have "a \<notin> set as" using chain_distinct [OF Cons.prems(1)] by simp
  have s: "separate h ({a} \<union> set as)" using Cons.prems(2) by simp
  then obtain k e where "keystr h a = Some k" "entry_of h a = Some e" "distinct (owned h a)" "0 \<notin> set (owned h a)"
    unfolding separate_def by blast
  then obtain h1 where h1: "freeNode h a = Some h1" "released h h1 a" "MAP h1 = MAP h"
    "\<And>S. S \<inter> set (owned h a) = {} \<Longrightarrow> agree h h1 S"
    by (rule freeNode_ok) blast
  then have f1: "freed_only h h1 {a}" by (simp add: freed_only_def)
  have dj: "{a} \<inter> set as = {}" using \<open>a \<notin> set as\<close> by simp
  note sa = separate_after [OF s dj f1]
  have "chain h1 (nnext n) as" using n(4) chain_cong [of as h1 h] sa(2) by simp
  then obtain h' where h': "clear_chain h1 (nnext n) = Some h'" "freed_only h1 h' (set as)"
    using Cons.IH sa(1) by blast
  have "freed_only h h' ({a} \<union> set as)" by (rule freed_only_Un [OF s dj f1 h'(2)])
  then show ?case using n h1(1) h'(1) by (simp add: clear_chain.simps)
qed

lemma clear_buckets_ok:
  assumes "list_all2 (chain h) ps ass" "separate h (\<Union>(set ` set ass))"
    "distinct (concat ass)"
  shows "\<exists>h'. clear_buckets h ps = Some h' \<and> freed_only h h' (\<Union>(set ` set ass))"
  using assms
proof (induction ass arbitrary: h ps rule: list.induct)
  case Nil
  from Nil.prems(1) have "ps = []" by (simp only: list_all2_Nil2)
  then show ?case by (simp add: freed_only_def agree_def)
next
  case (Cons as ass)
  then obtain p qs where ps: "ps = p # qs" "chain h p as" "list_all2 (chain h) qs ass"
    by (auto simp: list_all2_Cons2)
  have s: "separate h (set as \<union> \<Union>(set ` set ass))" using Cons.prems(2) by simp
  have dj: "set as \<inter> \<Union>(set ` set ass) = {}" using Cons.prems(3) by auto
  from s have "separate h (set as)" unfolding separate_def by blast
  then obtain h1 where h1: "clear_chain h p = Some h1" "freed_only h h1 (set as)"
    using clear_chain_ok [OF ps(2)] by blast
  note sa = separate_after [OF s dj h1(2)]
  have "chain h1 q bs" if "bs \<in> set ass" "chain h q bs" for q bs
  proof -
    have "nodes h1 b = nodes h b" if "b \<in> set bs" for b using \<open>bs \<in> set ass\<close> that by (intro sa(2)) blast
    with that show ?thesis by (subst chain_cong [of bs h1 h]) simp_all
  qed
  then have "list_all2 (chain h1) qs ass"
    using ps(3) by (auto simp: list_all2_conv_all_nth)
  then obtain h' where h': "clear_buckets h1 qs = Some h'" "freed_only h1 h' (\<Union>(set ` set ass))"
    using Cons.IH [OF _ sa(1)] Cons.prems(3) unfolding concat.simps distinct_append by blast
  have "freed_only h h' (set as \<union> \<Union>(set ` set ass))" by (rule freed_only_Un [OF s dj h1(2) h'(2)])
  then show ?case using ps h1(1) h'(1) by simp
qed

lemma rep_separate: "rep h bs \<Longrightarrow> separate h (cells bs)"
  unfolding separate_def
  by (metis rep_node rep_distinct rep_disjoint live_owned rep_live less_irrefl option.distinct(1))

end
