(* ===== verification/Cache_Props.thy ===== *)
theory Cache_Props
  imports Cache_Spec Cache_Clear
begin

text \<open>The properties of the cache, stated over the operations of \<^verbatim>\<open>cache.c\<close>.\<close>

lemma rep_empty: "rep empty_cache (\<lambda>_. [])"
  by (auto simp: rep_def empty_cache_def cells_def live_def)

lemma cache_ok_empty: "cache_ok empty_cache"
  using rep_empty by (auto simp: cache_ok_def empty_cache_def)

lemma view_empty: "cache_view empty_cache k = None"
  using view_iff [OF rep_empty] by (cases "cache_view empty_cache k") (auto simp: cells_def)

lemma alloc_entry_ok:
  assumes "cache_ok h" "cache_key k" "alloc_entry h k e = (a, h')"
  shows "cache_ok h'" "cache_view h' = cache_view h" "put_fresh h' a k e"
proof -
  obtain bs where "0 < brk h" "rep h bs" using assms(1) by (auto simp: cache_ok_def)
  note r = this(2) this(1)
  show "put_fresh h' a k e" by (rule alloc_entry_args [OF r assms(2,3)])
  show "cache_ok h'" "cache_view h' = cache_view h"
    using alloc_entry_same [OF r, of k e] assms(3) by (auto simp: same_cache_def cache_ok_def)
qed

lemma store_then_get_lookup:
  assumes "cache_ok h" "cache_key k"
  shows "\<exists>h'. store_entry h k e = Some h' \<and> cache_ok h' \<and>
     get_entry h' k = Some (Some (merge_entry (cache_view h k) e)) \<and>
     (\<forall>k'. cache_key k' \<longrightarrow> k' \<noteq> k \<longrightarrow> get_entry h' k' = get_entry h k')"
proof -
  obtain a h1 where al: "alloc_entry h k e = (a, h1)" by fastforce
  note ok = alloc_entry_ok [OF assms al]
  obtain h' where h': "do_put h1 a = Some h'" using cache.upd_total [OF ok(1,3)] by auto
  show ?thesis
  proof (intro exI conjI allI impI)
    show "store_entry h k e = Some h'" by (simp add: store_entry_def al h')
    show "cache_ok h'" by (rule cache.upd_ok [OF ok(1,3) h'])
    show "get_entry h' k = Some (Some (merge_entry (cache_view h k) e))"
      using cache.look_after_upd [OF ok(1,3) h'] ok(2) by simp
    show "get_entry h' k' = get_entry h k'" if "cache_key k'" "k' \<noteq> k" for k'
      using cache.look_other [OF ok(1,3) h' that(2,1)] get_entry_view assms(1) ok(1,2) that(1) by simp
  qed
qed

text \<open>C4: storing a response never faults, keeps the heap invariant, and is seen by the next
  lookup of the URI; every other URI is looked up as before.\<close>

theorem store_then_get:
  assumes "cache_ok h" "cache_key k"
  shows "\<exists>h'. store_entry h k e = Some h' \<and> cache_ok h' \<and>
     get_entry h' k = Some (Some (merge_entry (cache_view h k) e)) \<and>
     (\<forall>k'. cache_key k' \<longrightarrow> k' \<noteq> k \<longrightarrow> get_entry h' k' = get_entry h k')"
  by (rule store_then_get_lookup [OF assms])

definition page :: entry where
  "page = \<lparr>e_val = ''HTTP/1.1 200 OK'', e_host = ''h'', e_needs = 1, e_expiry = None, e_etag = Some ''t''\<rparr>"

lemma cache_key_root: "cache_key ''/''"
  by (rule cache_key_ascii) (simp_all add: schar_def)

theorem store_then_get_witness:
  "\<exists>h'. store_entry empty_cache ''/'' page = Some h' \<and> cache_ok h' \<and>
     get_entry h' ''/'' = Some (Some page) \<and>
     (\<forall>k'. cache_key k' \<longrightarrow> k' \<noteq> ''/'' \<longrightarrow> get_entry h' k' = get_entry empty_cache k')"
  using store_then_get [OF cache_ok_empty cache_key_root, of page]
  by (simp add: view_empty merge_entry_def)

text \<open>C37: a URI whose signed bytes sum to a negative number that is not a multiple of 100 is
  hashed to a negative bucket, so the lookup reads outside of the table.\<close>

theorem get_negative_bucket_faults:
  assumes "hash_loop 0 k = Some v" "v < 0" "\<not> 100 dvd v"
  shows "get h k = None"
proof -
  have "0 \<le> (- v) mod 100" "(- v) mod 100 \<noteq> 0" using assms(3) by (auto simp: dvd_eq_mod_eq_0 [symmetric])
  then have "c_rem v (int NUM_BUCKETS) < 0" using assms(2) by (simp add: c_rem_neg NUM_BUCKETS_def)
  then show ?thesis using assms(1) by (simp add: get_def indexOf_def getNode_def bucket_head_def)
qed

theorem get_negative_bucket_faults_witness:
  "hash_loop 0 [CHR 0xC3, CHR 0xA9] = Some (-148) \<and> get empty_cache [CHR 0xC3, CHR 0xA9] = None"
proof -
  have h: "hash_loop 0 [CHR 0xC3, CHR 0xA9] = Some (-148)"
    by (simp add: schar_def int_of_bits_def)
  then show ?thesis using get_negative_bucket_faults [OF h, of empty_cache] by simp
qed

text \<open>Clearing the cache frees every block of every node, each once, touches nothing else,
  and leaves the heads of the table pointing to the freed nodes.\<close>

theorem clearCache_frees:
  assumes "rep h bs"
  shows "\<exists>h'. clearCache h = Some h' \<and> (\<forall>a\<in>cells bs. released h h' a) \<and> MAP h' = MAP h \<and>
     (\<forall>p. (\<forall>a\<in>cells bs. p \<notin> set (owned h a)) \<longrightarrow> agree h h' {p})"
proof -
  let ?ass = "map bs [0..<NUM_BUCKETS]"
  have u: "\<Union>(set ` set ?ass) = cells bs" by (auto simp: cells_def)
  have "i = j" if "a \<in> set (bs i)" "a \<in> set (bs j)" "i < NUM_BUCKETS" "j < NUM_BUCKETS" for a i j
  proof -
    have "a \<in> cells bs" using that(1,3) by blast
    then obtain k e where k: "keystr h a = Some k" "entry_of h a = Some e"
      using rep_node [OF assms] by blast
    show ?thesis using rep_index [OF assms that(3,1) k(1)] rep_index [OF assms that(4,2) k(1)] by simp
  qed
  then have "distinct (concat ?ass)"
    using chain_distinct [OF rep_chain [OF assms]] by (intro distinct_concat_upt) blast+
  moreover have "list_all2 (chain h) (MAP h) ?ass"
    using rep_chain [OF assms] rep_len [OF assms] by (simp add: list_all2_conv_all_nth)
  ultimately obtain h' where "clear_buckets h (MAP h) = Some h'" "freed_only h h' (cells bs)"
    using clear_buckets_ok [of h "MAP h" ?ass] rep_separate [OF assms] unfolding u by blast
  then show ?thesis by (auto simp: clearCache_def freed_only_def)
qed

theorem clearCache_frees_witness:
  "\<exists>h' bs g. store_entry empty_cache ''/'' page = Some h' \<and> rep h' bs \<and> cells bs \<noteq> {} \<and>
     clearCache h' = Some g \<and> (\<forall>a\<in>cells bs. released h' g a)"
proof -
  obtain h' where h': "store_entry empty_cache ''/'' page = Some h'" "cache_ok h'"
    and look: "get_entry h' ''/'' = Some (Some (merge_entry None page))"
    using store_then_get_lookup [OF cache_ok_empty cache_key_root, of page] by (auto simp: view_empty)
  obtain bs where r: "rep h' bs" using h'(2) by (auto simp: cache_ok_def)
  have "cache_view h' ''/'' \<noteq> None" using look get_entry_view [OF h'(2) cache_key_root] by simp
  then have "cells bs \<noteq> {}" using view_iff [OF r] by auto
  then show ?thesis using clearCache_frees [OF r] h'(1) r by blast
qed

text \<open>Storing a response under a URI that is already cached frees the old \<open>CacheInfo\<close> but not
  the eTag it points to: the string stays allocated and no node of the cache reaches it.\<close>

theorem store_leaks_etag:
  assumes ok: "cache_ok h" "cache_key k" and old: "cache_view h k = Some e0" "e_etag e0 = Some s"
    and st: "store_entry h k e = Some h'"
  shows "\<exists>p. strs h' p = Some s \<and> (\<forall>bs. rep h' bs \<longrightarrow> (\<forall>a\<in>cells bs. p \<notin> set (owned h' a)))"
proof -
  obtain bs where r: "rep h bs" "0 < brk h" using ok(1) by (auto simp: cache_ok_def)
  obtain a h1 where al: "alloc_entry h k e = (a, h1)" by fastforce
  have r1: "rep h1 bs" and v1: "cache_view h1 k = Some e0"
    using alloc_entry_same [OF r, of k e] al old(1) by (auto simp: same_cache_def)
  then obtain c where c: "c \<in> cells bs" "keystr h1 c = Some k" "entry_of h1 c = Some e0"
    by (auto simp: view_iff)
  then obtain n i where n: "nodes h1 c = Some n" "infos h1 (ninfo n) = Some i"
    and et: "eTag i \<noteq> 0" "strs h1 (eTag i) = Some s"
    using old(2) by (auto simp: entry_of_def contents_def opt_ptr_def elim!: bind_SomeE split: if_splits)
  have f: "fresh_args h1 (p_key a) (p_val a) (p_host a) (p_info a) k e"
    using alloc_entry_args [OF r ok(2) al] by (simp add: put_fresh_def)
  have pt: "put h1 (p_key a) (p_val a) (p_host a) (p_info a) = Some h'"
    using st al by (simp add: store_entry_def do_put_def)
  obtain h2 where h2: "put h1 (p_key a) (p_val a) (p_host a) (p_info a) = Some h2" "rep h2 bs"
    "\<And>i. infos h1 (ninfo (the (nodes h1 c))) = Some i \<Longrightarrow>
       strs h2 (eTag i) = strs h1 (eTag i) \<and> tms h2 (expiryTime i) = tms h1 (expiryTime i) \<and>
       (eTag i \<noteq> 0 \<longrightarrow> (\<forall>b\<in>cells bs. eTag i \<notin> set (owned h2 b)))"
    by (rule put_hit [OF r1 f c]) blast
  then have "h2 = h'" using pt by simp
  with h2(3) [of i] n et have "strs h' (eTag i) = Some s \<and> (\<forall>b\<in>cells bs. eTag i \<notin> set (owned h' b))"
    by simp
  moreover have "cells bs' = cells bs" if "rep h' bs'" for bs'
    using rep_cells_unique [OF that] h2(2) \<open>h2 = h'\<close> by blast
  ultimately show ?thesis by auto
qed

theorem store_leaks_etag_witness:
  "\<exists>h1 h2 p. store_entry empty_cache ''/'' page = Some h1 \<and> store_entry h1 ''/'' page = Some h2 \<and>
     strs h2 p = Some ''t'' \<and> (\<forall>bs. rep h2 bs \<longrightarrow> (\<forall>a\<in>cells bs. p \<notin> set (owned h2 a)))"
proof -
  obtain a g where al: "alloc_entry empty_cache ''/'' page = (a, g)" by fastforce
  note ok = alloc_entry_ok [OF cache_ok_empty cache_key_root al]
  obtain h1 where h1: "do_put g a = Some h1" "cache_ok h1" "cache_view h1 ''/'' = Some page"
    using do_put_view [OF ok(1,3)] by (auto simp: ok(2) view_empty merge_entry_def)
  obtain b f where bl: "alloc_entry h1 ''/'' page = (b, f)" by fastforce
  note ok' = alloc_entry_ok [OF h1(2) cache_key_root bl]
  obtain h2 where h2: "do_put f b = Some h2" using do_put_view [OF ok'(1,3)] by auto
  have s1: "store_entry empty_cache ''/'' page = Some h1" "store_entry h1 ''/'' page = Some h2"
    using al h1(1) bl h2 by (simp_all add: store_entry_def)
  have et: "e_etag page = Some ''t''" by (simp add: page_def)
  show ?thesis using store_leaks_etag [OF h1(2) cache_key_root h1(3) et s1(2)] s1 by blast
qed

end
