(* ===== verification/ParseRequest.thy ===== *)
theory ParseRequest
  imports Timeparse
begin

text \<open>
  \<open>parseRequest\<close> of \<^verbatim>\<open>threadPool.c\<close>: the request is parsed in place, in the buffer it was
  read into. \<open>strsep\<close> cuts it at newlines, spaces and colons, and the cut characters are put
  back afterwards, so that the buffer can be forwarded to the server. \<open>host\<close> and \<open>URI\<close> are
  local variables without an initial value (\<open>None\<close>); their use at the end of the function
  is a fault when no line has set them.
\<close>

record ReqInfo =
  reqType :: int
  isHttps :: int
  host :: string
  URI :: string
  reqLine :: string

definition MAX_LOG_LINE_LEN :: nat where "MAX_LOG_LINE_LEN = 200"
definition PRINTABLE_ASCII :: int where "PRINTABLE_ASCII = 32"

section \<open>The request line\<close>

text \<open>A word of the request line: a method, a version, or else the URI.\<close>

definition classify :: "int \<times> int \<times> string option \<Rightarrow> string \<Rightarrow> int \<times> int \<times> string option" where
  "classify acc word = (case acc of (rt, https, uri) \<Rightarrow>
     if strcaseeq word ''GET'' then (0, https, uri)
     else if strcaseeq word ''CONNECT'' then (1, 1, uri)
     else if strcaseeq word ''POST'' then (2, https, uri)
     else if strcaseeq word (''HTTP/1.0'' @ [CR]) then (rt, https, uri)
     else if strcaseeq word (''HTTP/1.1'' @ [CR]) then (rt, https, uri)
     else (rt, https, Some word))"

function parse_words :: "cbuf \<Rightarrow> nat \<Rightarrow> nat option \<Rightarrow> int \<times> int \<times> string option
    \<Rightarrow> (cbuf \<times> int \<times> int \<times> string option) option" where
  "parse_words b originalLine line acc = do {
     (word, line', b1) \<leftarrow> strsep b line SP;
     (case word of
        None \<Rightarrow> Some (b1, acc)
      | Some w \<Rightarrow> do {
          s \<leftarrow> cstr b1 w;
          b2 \<leftarrow> (if line' \<noteq> None then restore b1 originalLine SP else Some b1);
          parse_words b2 originalLine line' (classify acc s) }) }"
  by pat_completeness auto
termination
proof (relation "measure (\<lambda>(b, orig, line, acc). case line of None \<Rightarrow> 0 | Some p \<Rightarrow> Suc (length b - p))", goal_cases)
  case 1
  show ?case by simp
next
  case (2 b originalLine line acc x word y line' b1 w s b2)
  then have eq: "strsep b line SP = Some (Some w, line', b1)" by simp
  have len: "length b1 = length b" "length b2 = length b"
    using 2 strsep_length [OF eq] by (auto dest: restore_length split: if_splits)
  obtain p where p: "line = Some p" using eq by (cases line) auto
  show ?case
  proof (cases line')
    case None
    then show ?thesis using p by simp
  next
    case (Some p')
    from strsep_progress [OF eq [unfolded Some]] p have "p < p'" "p' \<le> length b" by auto
    with p Some len show ?thesis by simp
  qed
qed

declare parse_words.simps [simp del]

text \<open>The first line: it is copied, logged (into an array of 200 bytes) and split into words.\<close>

definition log_request :: "string \<Rightarrow> string \<Rightarrow> string \<Rightarrow> string \<Rightarrow> string" where
  "log_request UID line ipstr time = UID @ '': '' @ line @ '' from '' @ ipstr @ '' @ '' @ time"

section \<open>The header lines\<close>

text \<open>
  \<open>host[strlen(host) - 1]\<close> is read to strip a trailing carriage return, so the host must
  not be empty.
\<close>

definition strip_host :: "string \<Rightarrow> string option" where
  "strip_host s = (if s = [] then None
     else Some (if schar (last s) < PRINTABLE_ASCII then butlast s else s))"

definition parse_header :: "cbuf \<Rightarrow> nat \<Rightarrow> string option \<Rightarrow> (cbuf \<times> string option) option" where
  "parse_header b l hst = do {
     (headerName, line, b) \<leftarrow> strsep b (Some l) COLON;
     name \<leftarrow> cstr b l;
     (b, hst) \<leftarrow> (if strcaseeq name ''Host''
        then do {
          (hostName, line, b) \<leftarrow> strsep b line COLON;
          hn \<leftarrow> hostName;
          raw \<leftarrow> cstr b (hn + 1);
          h \<leftarrow> strip_host raw;
          b \<leftarrow> (if line \<noteq> None then restore b hn COLON else Some b);
          Some (b, Some h) }
        else Some (b, hst));
     b \<leftarrow> restore b l COLON;
     Some (b, hst) }"

section \<open>The loop over the lines\<close>

record parse_state =
  ps_buf :: cbuf
  ps_rest :: "nat option"
  ps_lineNum :: nat
  ps_words :: "int \<times> int \<times> string option"
  ps_host :: "string option"
  ps_reqLine :: string
  ps_log :: "string list"

definition first_line :: "string \<Rightarrow> string \<Rightarrow> string \<Rightarrow> nat \<Rightarrow> parse_state \<Rightarrow> parse_state option" where
  "first_line UID ipstr time l s = do {
     line \<leftarrow> cstr (ps_buf s) l;
     msg \<leftarrow> sprintf MAX_LOG_LINE_LEN (log_request UID line ipstr time);
     (b, acc) \<leftarrow> parse_words (ps_buf s) l (Some l) (ps_words s);
     Some (s\<lparr>ps_buf := b, ps_words := acc, ps_reqLine := line, ps_log := ps_log s @ [msg]\<rparr>) }"

definition header_line :: "nat \<Rightarrow> parse_state \<Rightarrow> parse_state option" where
  "header_line l s = do {
     (b, h) \<leftarrow> parse_header (ps_buf s) l (ps_host s);
     Some (s\<lparr>ps_buf := b, ps_host := h\<rparr>) }"

definition put_newline :: "parse_state \<Rightarrow> parse_state option" where
  "put_newline s = do { b \<leftarrow> restore (ps_buf s) 0 LF; Some (s\<lparr>ps_buf := b\<rparr>) }"

text \<open>One round of the loop: \<open>Inl\<close> leaves it (no line is left, or the empty line is met).\<close>

definition next_line :: "string \<Rightarrow> string \<Rightarrow> string \<Rightarrow> parse_state \<Rightarrow> (parse_state + parse_state) option" where
  "next_line UID ipstr time s = do {
     (line, rest, b) \<leftarrow> strsep (ps_buf s) (ps_rest s) LF;
     (case line of
        None \<Rightarrow> Some (Inl s)
      | Some l \<Rightarrow> do {
          let s = s\<lparr>ps_buf := b, ps_rest := rest, ps_lineNum := ps_lineNum s + 1\<rparr>;
          if ps_lineNum s = 1 then do {
            s \<leftarrow> first_line UID ipstr time l s;
            s \<leftarrow> put_newline s;
            Some (Inr s) }
          else do {
            str \<leftarrow> cstr b l;
            if strncaseeq str [CR] 1 then Some (Inl s)
            else do {
              s \<leftarrow> header_line l s;
              s \<leftarrow> put_newline s;
              Some (Inr s) } } }) }"

lemma parse_words_length:
  "parse_words b orig line acc = Some (b', acc') \<Longrightarrow> length b' = length b"
proof (induction b orig line acc arbitrary: b' acc' rule: parse_words.induct)
  case (1 b orig line acc)
  from "1.prems" obtain word line' b1 where s: "strsep b line SP = Some (word, line', b1)"
    by (subst (asm) parse_words.simps) (auto elim!: bind_SomeE)
  show ?case
  proof (cases word)
    case None
    with "1.prems" s show ?thesis
      by (subst (asm) parse_words.simps) (auto dest: strsep_length)
  next
    case (Some w)
    from "1.prems" s Some obtain str b2 where b2: "cstr b1 w = Some str"
      "(if line' \<noteq> None then restore b1 orig SP else Some b1) = Some b2"
      "parse_words b2 orig line' (classify acc str) = Some (b', acc')"
      by (subst (asm) parse_words.simps) (auto elim!: bind_SomeE)
    have "length b' = length b2" by (rule "1.IH" [OF s refl refl Some b2])
    with s b2(2) show ?thesis by (auto dest!: strsep_length restore_length split: if_splits)
  qed
qed

lemma parse_header_length:
  "parse_header b l h = Some (b', h') \<Longrightarrow> length b' = length b"
  by (auto simp: parse_header_def elim!: bind_SomeE dest!: buffer_lengths split: if_splits)

lemma next_line_progress:
  assumes "next_line UID ipstr time s = Some (Inr s')"
  shows "length (ps_buf s') = length (ps_buf s)"
    and "\<exists>p. ps_rest s = Some p \<and> (\<forall>p'. ps_rest s' = Some p' \<longrightarrow> p < p' \<and> p' \<le> length (ps_buf s))"
proof -
  obtain line rest b where sep: "strsep (ps_buf s) (ps_rest s) LF = Some (line, rest, b)"
    using assms by (auto simp: next_line_def elim!: bind_SomeE)
  then obtain p where p: "ps_rest s = Some p" using assms
    by (cases "ps_rest s") (auto simp: next_line_def)
  note l = strsep_token [OF sep [unfolded p]]
  have "length (ps_buf s') = length b \<and> ps_rest s' = rest"
    using assms sep l
    by (auto simp: next_line_def first_line_def header_line_def put_newline_def Let_def
        elim!: bind_SomeE dest!: restore_length parse_words_length parse_header_length split: if_splits)
  moreover have "p < p' \<and> p' \<le> length (ps_buf s)" if "rest = Some p'" for p'
    using strsep_progress [OF sep [unfolded that]] p by simp
  ultimately show "length (ps_buf s') = length (ps_buf s)"
    "\<exists>p. ps_rest s = Some p \<and> (\<forall>p'. ps_rest s' = Some p' \<longrightarrow> p < p' \<and> p' \<le> length (ps_buf s))"
    using strsep_length [OF sep] p by auto
qed

function parse_lines :: "string \<Rightarrow> string \<Rightarrow> string \<Rightarrow> parse_state \<Rightarrow> parse_state option" where
  "parse_lines UID ipstr time s = do {
     r \<leftarrow> next_line UID ipstr time s;
     (case r of Inl s' \<Rightarrow> Some s' | Inr s' \<Rightarrow> parse_lines UID ipstr time s') }"
  by pat_completeness auto
termination
proof (relation "measure (\<lambda>(u, i, t, s). case ps_rest s of None \<Rightarrow> 0 | Some p \<Rightarrow> Suc (length (ps_buf s) - p))", goal_cases)
  case 1
  show ?case by simp
next
  case (2 UID ipstr time s r s')
  then have "next_line UID ipstr time s = Some (Inr s')" by simp
  note np = next_line_progress [OF this]
  from np(2) obtain p where "ps_rest s = Some p"
    "\<forall>p'. ps_rest s' = Some p' \<longrightarrow> p < p' \<and> p' \<le> length (ps_buf s)" by blast
  with np(1) show ?case by (cases "ps_rest s'") auto
qed

declare parse_lines.simps [simp del]

section \<open>The function\<close>

text \<open>
  After the loop the first line of the body is cut off, and the newline of the empty line
  and, if the body does not start with a newline, that of its first line are written back.
\<close>

definition parse_body :: "cbuf \<Rightarrow> nat option \<Rightarrow> cbuf option" where
  "parse_body b rest = do {
     (b, emptyBody) \<leftarrow> (case rest of
        None \<Rightarrow> Some (b, True)
      | Some p \<Rightarrow> do {
          (body, rest, b) \<leftarrow> strsep b (Some p) LF;
          bd \<leftarrow> cstr b p;
          Some (b, bd = []) });
     b \<leftarrow> restore b 0 LF;
     (if emptyBody then Some b else restore b 0 LF) }"

definition parse_init :: "cbuf \<Rightarrow> parse_state" where
  "parse_init b = \<lparr>ps_buf = b, ps_rest = Some 0, ps_lineNum = 0, ps_words = (0, 0, None),
     ps_host = None, ps_reqLine = [], ps_log = []\<rparr>"

text \<open>The result, the buffer afterwards, and the messages that were logged.\<close>

definition parseRequest :: "cbuf \<Rightarrow> string \<Rightarrow> string \<Rightarrow> string
    \<Rightarrow> (ReqInfo option \<times> cbuf \<times> string list) option" where
  "parseRequest b UID ipstr time = do {
     n \<leftarrow> strlen b 0;
     if n \<le> 4 then Some (None, b, [])
     else do {
       s \<leftarrow> parse_lines UID ipstr time (parse_init b);
       b \<leftarrow> parse_body (ps_buf s) (ps_rest s);
       h \<leftarrow> ps_host s;
       let (rt, https, uri) = ps_words s;
       u \<leftarrow> uri;
       Some (Some \<lparr>reqType = rt, isHttps = https, host = h, URI = u, reqLine = ps_reqLine s\<rparr>,
         b, ps_log s) } }"

end
