(* ===== verification/ParseRequest_Spec.thy ===== *)
theory ParseRequest_Spec
  imports ParseRequest
begin

text \<open>
  What parsing a request computes, as functions of its lines, and that the in-place parser
  computes it and restores the buffer.
\<close>

section \<open>Splitting\<close>

function split_on :: "char \<Rightarrow> string \<Rightarrow> string list" where
  "split_on d s = (let w = takeWhile (\<lambda>c. c \<noteq> d) s in
     if length w < length s then w # split_on d (drop (length w + 1) s) else [s])"
  by pat_completeness auto
termination by (relation "measure (\<lambda>(d, s). length s)") auto

declare split_on.simps [simp del]

lemma split_on_hit: "d \<notin> set w \<Longrightarrow> split_on d (w @ d # r) = w # split_on d r"
  by (subst split_on.simps) (simp add: takeWhile_split Let_def)

lemma split_on_miss: "d \<notin> set w \<Longrightarrow> split_on d w = [w]"
  by (subst split_on.simps) (simp add: takeWhile_id_notin Let_def)

section \<open>The request line\<close>

lemma parse_words_at:
  assumes "NUL \<notin> set done" "NUL \<notin> set rest"
  shows "parse_words (pre @ done @ rest @ NUL # post) (length pre) (Some (length pre + length done)) acc =
    Some (pre @ done @ rest @ NUL # post, foldl classify acc (split_on SP rest))"
  using assms
proof (induction "length rest" arbitrary: "done" rest acc rule: less_induct)
  case less
  show ?case
  proof (cases "SP \<in> set rest")
    case True
    then obtain w r where rest: "rest = w @ SP # r" and w: "SP \<notin> set w" by (rule split_list_at)
    have n: "NUL \<notin> set w" "NUL \<notin> set r" using less.prems rest by auto
    have sep: "strsep (pre @ done @ rest @ NUL # post) (Some (length pre + length done)) SP =
        Some (Some (length pre + length done), Some (length pre + length done + length w + 1),
          pre @ done @ w @ NUL # r @ NUL # post)"
      using strsep_hit [OF n(1) w _ n(2), of "pre @ done" post] by (simp add: rest)
    have c: "cstr (pre @ done @ w @ NUL # r @ NUL # post) (length pre + length done) = Some w"
      using cstr_at [OF n(1), of "pre @ done" "r @ NUL # post"] by simp
    have rs: "restore (pre @ done @ w @ NUL # r @ NUL # post) (length pre) SP =
        Some (pre @ done @ w @ SP # r @ NUL # post)"
      using restore_at [of "done @ w" pre "r @ NUL # post" SP] n(1) less.prems(1) by simp
    have "parse_words (pre @ (done @ w @ [SP]) @ r @ NUL # post) (length pre)
        (Some (length pre + length (done @ w @ [SP]))) (classify acc w) =
        Some (pre @ (done @ w @ [SP]) @ r @ NUL # post, foldl classify (classify acc w) (split_on SP r))"
      by (rule less.hyps) (use less.prems n rest in auto)
    then show ?thesis
      by (subst parse_words.simps) (simp add: sep c rs, simp add: rest split_on_hit [OF w] add.assoc)
  next
    case False
    have "strsep (pre @ done @ rest @ NUL # post) (Some (length pre + length done)) SP =
        Some (Some (length pre + length done), None, pre @ done @ rest @ NUL # post)"
      using strsep_miss [OF less.prems(2) False, of "pre @ done" post] by simp
    moreover have "cstr (pre @ done @ rest @ NUL # post) (length pre + length done) = Some rest"
      using cstr_at [OF less.prems(2), of "pre @ done" post] by simp
    moreover have "parse_words b o' None a = Some (b, a)" for b o' a
      by (subst parse_words.simps) simp
    ultimately show ?thesis
      by (subst parse_words.simps) (simp add: split_on_miss [OF False])
  qed
qed

section \<open>Header lines\<close>

definition header_name :: "string \<Rightarrow> string" where
  "header_name l = takeWhile (\<lambda>c. c \<noteq> COLON) l"

definition header_value :: "string \<Rightarrow> string" where
  "header_value l = drop (length (header_name l) + 1) l"

text \<open>The host of a \<open>Host\<close> header: up to a port, without the blank after the colon.\<close>

definition host_of :: "string \<Rightarrow> string option" where
  "host_of l = (let v = takeWhile (\<lambda>c. c \<noteq> COLON) (header_value l)
     in if v = [] then None else strip_host (tl v))"

definition is_host :: "string \<Rightarrow> bool" where
  "is_host l = strcaseeq (header_name l) ''Host''"

text \<open>A header line that the parser handles: it has a colon, and a host where it is one.\<close>

definition good_header :: "string \<Rightarrow> bool" where
  "good_header l \<longleftrightarrow> COLON \<in> set l \<and> LF \<notin> set l \<and> NUL \<notin> set l \<and> hd l \<noteq> CR \<and>
     (is_host l \<longrightarrow> host_of l \<noteq> None)"

definition header_step :: "string option \<Rightarrow> string \<Rightarrow> string option" where
  "header_step h l = (if is_host l then host_of l else h)"

lemma header_split:
  assumes "COLON \<in> set l"
  shows "l = header_name l @ COLON # header_value l" "COLON \<notin> set (header_name l)"
proof -
  obtain w r where l: "l = w @ COLON # r" "COLON \<notin> set w" using assms by (rule split_list_at)
  then show "l = header_name l @ COLON # header_value l" "COLON \<notin> set (header_name l)"
    by (simp_all add: header_name_def header_value_def takeWhile_split)
qed

lemma host_value_at:
  assumes n: "NUL \<notin> set vl" and v: "takeWhile (\<lambda>c. c \<noteq> COLON) vl = x # raw"
  shows "\<exists>line b'. strsep (pre @ vl @ NUL # post) (Some (length pre)) COLON = Some (Some (length pre), line, b') \<and>
    cstr b' (length pre + 1) = Some raw \<and>
    (if line \<noteq> None then restore b' (length pre) COLON else Some b') = Some (pre @ vl @ NUL # post)"
proof (cases "COLON \<in> set vl")
  case False
  then have vl: "vl = x # raw" using v by (simp add: takeWhile_id_notin)
  have "strsep (pre @ vl @ NUL # post) (Some (length pre)) COLON = Some (Some (length pre), None, pre @ vl @ NUL # post)"
    by (rule strsep_miss [OF n False])
  moreover have "cstr (pre @ vl @ NUL # post) (length pre + 1) = Some raw"
    using cstr_at [of raw "pre @ [x]" post] n by (simp add: vl)
  ultimately show ?thesis by simp
next
  case True
  then obtain q where vl: "vl = (x # raw) @ COLON # q" using v by (metis header_name_def header_split(1))
  have nv: "NUL \<notin> set (x # raw)" "COLON \<notin> set (x # raw)" "NUL \<notin> set q"
    using n v vl by (auto dest: set_takeWhileD simp del: v) (metis v set_takeWhileD list.set_intros)+
  let ?b' = "pre @ (x # raw) @ NUL # q @ NUL # post"
  have "strsep (pre @ vl @ NUL # post) (Some (length pre)) COLON =
      Some (Some (length pre), Some (length pre + length (x # raw) + 1), ?b')"
    using strsep_hit [OF nv(1,2) _ nv(3), of pre post] by (simp add: vl)
  moreover have "cstr ?b' (length pre + 1) = Some raw"
    using cstr_at [of raw "pre @ [x]" "q @ NUL # post"] nv(1) by simp
  moreover have "restore ?b' (length pre) COLON = Some (pre @ vl @ NUL # post)"
    using restore_at [OF nv(1), of pre "q @ NUL # post" COLON] by (simp add: vl)
  ultimately show ?thesis by simp
qed

lemma parse_header_at:
  assumes g: "good_header l"
  shows "parse_header (pre @ l @ NUL # post) (length pre) h =
    Some (pre @ l @ NUL # post, header_step h l)"
proof -
  define nm vl where "nm = header_name l" and "vl = header_value l"
  have l: "l = nm @ COLON # vl" "COLON \<notin> set nm"
    using header_split g by (auto simp: nm_def vl_def good_header_def)
  have n: "NUL \<notin> set nm" "NUL \<notin> set vl" using g l(1) by (auto simp: good_header_def)
  let ?b = "pre @ nm @ NUL # vl @ NUL # post"
  have sep: "strsep (pre @ l @ NUL # post) (Some (length pre)) COLON =
      Some (Some (length pre), Some (length pre + length nm + 1), ?b)"
    using strsep_hit [OF n(1) l(2) _ n(2), of pre post] by (simp add: l(1))
  have c: "cstr ?b (length pre) = Some nm" by (rule cstr_at [OF n(1)])
  have r: "restore ?b (length pre) COLON = Some (pre @ l @ NUL # post)"
    using restore_at [OF n(1), of pre "vl @ NUL # post" COLON] by (simp add: l(1))
  show ?thesis
  proof (cases "is_host l")
    case False
    then have "\<not> strcaseeq nm ''Host''" by (simp add: is_host_def nm_def)
    with False show ?thesis by (simp add: parse_header_def sep c r header_step_def)
  next
    case True
    then have hostn: "strcaseeq nm ''Host''" by (simp add: is_host_def nm_def)
    define v where "v = takeWhile (\<lambda>c. c \<noteq> COLON) vl"
    obtain x raw hh where v: "v = x # raw" and hh: "strip_host raw = Some hh" "host_of l = Some hh"
      using True g by (cases v) (auto simp: good_header_def host_of_def v_def vl_def)
    have p: "length (pre @ nm @ [NUL]) = length pre + length nm + 1" by simp
    obtain line b' where "strsep ?b (Some (length pre + length nm + 1)) COLON = Some (Some (length pre + length nm + 1), line, b')"
      "cstr b' (length pre + length nm + 1 + 1) = Some raw"
      "(if line \<noteq> None then restore b' (length pre + length nm + 1) COLON else Some b') = Some ?b"
      using host_value_at [OF n(2) v [unfolded v_def], of "pre @ nm @ [NUL]" post] unfolding p by auto
    then show ?thesis
      using True hh by (cases line) (simp_all add: parse_header_def sep c r hostn header_step_def)
  qed
qed

section \<open>The lines of a request\<close>

text \<open>
  The state between two lines: the buffer holds the lines read so far and the rest of the
  text, with every separator in place, and the next line starts after the lines read.
\<close>

definition at_line :: "string \<Rightarrow> string \<Rightarrow> string \<Rightarrow> parse_state \<Rightarrow> bool" where
  "at_line tx rest post s \<longleftrightarrow> ps_buf s = tx @ rest @ NUL # post \<and> ps_rest s = Some (length tx)
     \<and> NUL \<notin> set tx \<and> NUL \<notin> set rest"

lemma next_header:
  assumes al: "at_line tx (l @ LF # rest) post s" and g: "good_header l" and n: "0 < ps_lineNum s"
  shows "next_line UID ipstr time s = Some (Inr (s\<lparr>ps_rest := Some (length (tx @ l @ [LF])),
      ps_lineNum := ps_lineNum s + 1, ps_host := header_step (ps_host s) l\<rparr>))"
    and "at_line (tx @ l @ [LF]) rest post (s\<lparr>ps_rest := Some (length (tx @ l @ [LF])),
      ps_lineNum := ps_lineNum s + 1, ps_host := header_step (ps_host s) l\<rparr>)"
proof -
  have nn: "NUL \<notin> set l" "LF \<notin> set l" "hd l \<noteq> CR" "l \<noteq> []" "NUL \<notin> set rest" "NUL \<notin> set tx"
    and b: "ps_buf s = tx @ l @ LF # rest @ NUL # post" "ps_rest s = Some (length tx)"
    using g al by (auto simp: good_header_def at_line_def)
  let ?b = "tx @ l @ NUL # rest @ NUL # post"
  have sep: "strsep (ps_buf s) (ps_rest s) LF = Some (Some (length tx), Some (length tx + length l + 1), ?b)"
    using strsep_hit [OF nn(1,2) _ nn(5), of tx post] by (simp add: b)
  have c: "cstr ?b (length tx) = Some l" by (rule cstr_at [OF nn(1)])
  have cr: "\<not> strncaseeq l [CR] 1"
    using nn(3,4) by (cases l) (auto simp: strncaseeq_def tolower_CR)
  have h: "parse_header ?b (length tx) (ps_host s) = Some (?b, header_step (ps_host s) l)"
    by (rule parse_header_at [OF g])
  have r: "restore ?b 0 LF = Some (tx @ l @ LF # rest @ NUL # post)"
    using restore_at [of "tx @ l" "[]" "rest @ NUL # post" LF] nn by simp
  show "next_line UID ipstr time s = Some (Inr (s\<lparr>ps_rest := Some (length (tx @ l @ [LF])),
      ps_lineNum := ps_lineNum s + 1, ps_host := header_step (ps_host s) l\<rparr>))"
    using n by (simp add: next_line_def sep c cr [simplified] header_line_def h put_newline_def r b(1) [symmetric] Let_def)
  show "at_line (tx @ l @ [LF]) rest post (s\<lparr>ps_rest := Some (length (tx @ l @ [LF])),
      ps_lineNum := ps_lineNum s + 1, ps_host := header_step (ps_host s) l\<rparr>)"
    using al nn by (auto simp: at_line_def)
qed

text \<open>The text of a block of lines.\<close>

definition unlines :: "string list \<Rightarrow> string" where
  "unlines ls = concat (map (\<lambda>l. l @ [LF]) ls)"

lemma parse_header_lines:
  assumes "at_line tx (unlines hs @ rest) post s" "\<forall>l\<in>set hs. good_header l" "0 < ps_lineNum s"
  shows "\<exists>s'. parse_lines UID ipstr time s = parse_lines UID ipstr time s' \<and>
    at_line (tx @ unlines hs) rest post s' \<and> 0 < ps_lineNum s' \<and>
    ps_host s' = foldl header_step (ps_host s) hs \<and> ps_words s' = ps_words s \<and>
    ps_reqLine s' = ps_reqLine s \<and> ps_log s' = ps_log s"
  using assms
proof (induction hs arbitrary: tx s)
  case Nil
  then show ?case by (intro exI [of _ s]) (auto simp: unlines_def)
next
  case (Cons l hs)
  have al: "at_line tx (l @ LF # (unlines hs @ rest)) post s" and g: "good_header l"
    using Cons.prems by (simp_all add: unlines_def)
  note nh = next_header [OF al g Cons.prems(3)]
  have hs: "\<forall>l\<in>set hs. good_header l" using Cons.prems(2) by simp
  have eq: "unlines (l # hs) = l @ LF # unlines hs" by (simp add: unlines_def)
  show ?case
    using Cons.IH [OF nh(2) hs] by (subst parse_lines.simps) (simp add: nh(1) eq)
qed

section \<open>Whole requests\<close>

text \<open>
  The text of a message: the request line, header lines, a line that starts with a carriage return,
  and a body. Every line ends with a newline; carriage returns are part of the lines.
\<close>

definition message_text :: "string \<Rightarrow> string list \<Rightarrow> string \<Rightarrow> string" where
  "message_text rl hs body = rl @ LF # unlines hs @ CR # LF # body"

definition good_request :: "string \<Rightarrow> string list \<Rightarrow> string \<Rightarrow> bool" where
  "good_request rl hs body \<longleftrightarrow> NUL \<notin> set rl \<and> LF \<notin> set rl \<and> 2 \<le> length rl \<and>
     (\<forall>l\<in>set hs. good_header l) \<and> NUL \<notin> set body"

definition request_words :: "string \<Rightarrow> int \<times> int \<times> string option" where
  "request_words rl = foldl classify (0, 0, None) (split_on SP rl)"

definition request_host :: "string list \<Rightarrow> string option" where
  "request_host hs = foldl header_step None hs"

lemma unlines_NUL: "\<forall>l\<in>set hs. good_header l \<Longrightarrow> NUL \<notin> set (unlines hs)"
  by (auto simp: unlines_def good_header_def)

lemma parse_first_line:
  fixes post :: string
  assumes n: "NUL \<notin> set rl" "LF \<notin> set rl" "NUL \<notin> set rest"
    and fit: "length (log_request UID rl ipstr time) < MAX_LOG_LINE_LEN"
  defines "b \<equiv> rl @ LF # rest @ NUL # post"
  defines "s1 \<equiv> (parse_init b)\<lparr>ps_rest := Some (length (rl @ [LF])), ps_lineNum := 1,
      ps_words := request_words rl, ps_reqLine := rl, ps_log := [log_request UID rl ipstr time]\<rparr>"
  shows "next_line UID ipstr time (parse_init b) = Some (Inr s1)" and "at_line (rl @ [LF]) rest post s1"
proof -
  let ?b = "rl @ NUL # rest @ NUL # post"
  have sep: "strsep b (Some 0) LF = Some (Some 0, Some (length rl + 1), ?b)"
    using strsep_hit [OF n(1,2) _ n(3), of "[]" post] by (simp add: b_def)
  have c: "cstr ?b 0 = Some rl" using cstr_at [OF n(1), of "[]"] by simp
  have w: "parse_words ?b 0 (Some 0) (0, 0, None) = Some (?b, request_words rl)"
    using parse_words_at [of "[]" rl "[]" "rest @ NUL # post" "(0, 0, None)"] n(1)
    by (simp add: request_words_def)
  have r: "restore ?b 0 LF = Some b"
    using restore_at [OF n(1), of "[]" "rest @ NUL # post" LF] by (simp add: b_def)
  show "next_line UID ipstr time (parse_init b) = Some (Inr s1)"
    using fit by (simp add: next_line_def parse_init_def sep first_line_def c w put_newline_def r
        sprintf_def s1_def Let_def)
  show "at_line (rl @ [LF]) rest post s1"
    using n by (simp add: at_line_def s1_def parse_init_def b_def)
qed

lemma next_line_blank:
  assumes al: "at_line tx (CR # LF # body) post s" and n: "0 < ps_lineNum s"
  shows "next_line UID ipstr time s = Some (Inl (s\<lparr>ps_buf := tx @ CR # NUL # body @ NUL # post,
      ps_rest := Some (length tx + 2), ps_lineNum := ps_lineNum s + 1\<rparr>))"
proof -
  let ?b = "tx @ CR # NUL # body @ NUL # post"
  have sep: "strsep (ps_buf s) (ps_rest s) LF = Some (Some (length tx), Some (length tx + 2), ?b)"
    using al strsep_hit [of "[CR]" LF body tx post] by (simp add: at_line_def)
  have c: "cstr ?b (length tx) = Some [CR]"
    using cstr_at [of "[CR]" tx "body @ NUL # post"] by simp
  have "strncaseeq [CR] [CR] (Suc 0)" by (simp add: strncaseeq_def)
  then show ?thesis using n by (simp add: next_line_def sep c Let_def)
qed

text \<open>The three shapes of a body: empty, starting with a newline, or with a first line.\<close>

lemma parse_body_at:
  fixes post :: string
  assumes n: "NUL \<notin> set tx" "NUL \<notin> set body"
  defines "b \<equiv> tx @ NUL # body @ NUL # NUL # post"
  shows "body = [] \<Longrightarrow> parse_body b (Some (length tx + 1)) = Some (tx @ LF # NUL # NUL # post)"
    and "body = LF # y \<Longrightarrow> parse_body b (Some (length tx + 1)) = Some (tx @ LF # NUL # y @ NUL # NUL # post)"
    and "body = x @ LF # y \<Longrightarrow> x \<noteq> [] \<Longrightarrow> LF \<notin> set x \<Longrightarrow>
      parse_body b (Some (length tx + 1)) = Some (tx @ LF # body @ NUL # NUL # post)"
    and "LF \<notin> set body \<Longrightarrow> body \<noteq> [] \<Longrightarrow>
      parse_body b (Some (length tx + 1)) = Some (tx @ LF # body @ LF # NUL # post)"
proof -
  have p: "length tx + 1 = length (tx @ [NUL])" by simp
  have r0: "restore (tx @ NUL # q) 0 LF = Some (tx @ LF # q)" for q
    using restore_at [OF n(1), of "[]" q LF] by simp
  have r1: "restore (tx @ LF # w @ NUL # q) 0 LF = Some (tx @ LF # w @ LF # q)" if "NUL \<notin> set w" for w q
    using restore_at [of "tx @ LF # w" "[]" q LF] n(1) that by simp
  have c: "cstr (tx @ NUL # w @ NUL # q) (Suc (length tx)) = Some w" if "NUL \<notin> set w" for w q
    using cstr_at [OF that, of "tx @ [NUL]" q] by simp
  have miss: "strsep b (Some (Suc (length tx))) LF = Some (Some (Suc (length tx)), None, b)"
    if "LF \<notin> set body"
    using strsep_miss [OF n(2) that, of "tx @ [NUL]" "NUL # post"] by (simp add: b_def)
  have hit: "strsep b (Some (Suc (length tx))) LF = Some (Some (Suc (length tx)),
      Some (Suc (length tx) + length x + 1), tx @ NUL # x @ NUL # y @ NUL # NUL # post)"
    if "body = x @ LF # y" "LF \<notin> set x" for x y
    using strsep_hit [of x LF y "tx @ [NUL]" "NUL # post"] that n(2) by (simp add: b_def)
  show "body = [] \<Longrightarrow> parse_body b (Some (length tx + 1)) = Some (tx @ LF # NUL # NUL # post)"
    using miss c [of "[]"] r0 by (simp add: parse_body_def, simp add: b_def)
  show "body = LF # y \<Longrightarrow> parse_body b (Some (length tx + 1)) = Some (tx @ LF # NUL # y @ NUL # NUL # post)"
    using hit [of "[]" y] c [of "[]"] r0 by (simp add: parse_body_def)
  show "parse_body b (Some (length tx + 1)) = Some (tx @ LF # body @ NUL # NUL # post)"
    if "body = x @ LF # y" "x \<noteq> []" "LF \<notin> set x"
    using hit [OF that(1,3)] c [of x] r0 r1 [of x] n(2) that by (simp add: parse_body_def)
  show "LF \<notin> set body \<Longrightarrow> body \<noteq> [] \<Longrightarrow>
      parse_body b (Some (length tx + 1)) = Some (tx @ LF # body @ LF # NUL # post)"
    using miss c [OF n(2)] r0 r1 [OF n(2)] by (simp add: parse_body_def, simp add: b_def)
qed

text \<open>The whole function: what the loop leaves is handed to \<open>parse_body\<close> and the final checks.\<close>

lemma parseRequest_text:
  assumes g: "good_request rl hs body"
    and fit: "length (log_request UID rl ipstr time) < MAX_LOG_LINE_LEN"
    and w: "request_words rl = (rt, https, uri)"
  shows "parseRequest (message_text rl hs body @ NUL # post) UID ipstr time = do {
      b' \<leftarrow> parse_body (rl @ LF # unlines hs @ CR # NUL # body @ NUL # post)
        (Some (length (rl @ LF # unlines hs @ [CR]) + 1));
      h \<leftarrow> request_host hs;
      u \<leftarrow> uri;
      Some (Some \<lparr>reqType = rt, isHttps = https, host = h, URI = u, reqLine = rl\<rparr>,
        b', [log_request UID rl ipstr time]) }"
proof -
  let ?b = "message_text rl hs body @ NUL # post"
  have n: "NUL \<notin> set rl" "LF \<notin> set rl" "NUL \<notin> set (unlines hs @ CR # LF # body)"
    "\<forall>l\<in>set hs. good_header l" "2 \<le> length rl"
    using g unlines_NUL by (auto simp: good_request_def)
  have b: "?b = rl @ LF # (unlines hs @ CR # LF # body) @ NUL # post" by (simp add: message_text_def)
  from parse_first_line [OF n(1,2,3) fit, of post, folded b]
  obtain s1 where s1: "next_line UID ipstr time (parse_init ?b) = Some (Inr s1)"
    "at_line (rl @ [LF]) (unlines hs @ CR # LF # body) post s1" "0 < ps_lineNum s1"
    "ps_host s1 = None \<and> ps_words s1 = request_words rl \<and> ps_reqLine s1 = rl \<and>
      ps_log s1 = [log_request UID rl ipstr time]"
    by (rule that) (simp_all add: parse_init_def)
  obtain s' where s': "parse_lines UID ipstr time s1 = parse_lines UID ipstr time s'"
    "at_line ((rl @ [LF]) @ unlines hs) (CR # LF # body) post s'" "0 < ps_lineNum s'"
    "ps_host s' = foldl header_step (ps_host s1) hs" "ps_words s' = ps_words s1"
    "ps_reqLine s' = ps_reqLine s1" "ps_log s' = ps_log s1"
    using parse_header_lines [OF s1(2) n(4) s1(3), of UID ipstr time] by blast
  have "parse_lines UID ipstr time (parse_init ?b) = parse_lines UID ipstr time s1"
    by (subst parse_lines.simps) (simp add: s1(1))
  also have "\<dots> = Some (s'\<lparr>ps_buf := rl @ LF # unlines hs @ CR # NUL # body @ NUL # post,
      ps_rest := Some (length (rl @ LF # unlines hs @ [CR]) + 1), ps_lineNum := ps_lineNum s' + 1\<rparr>)"
    unfolding s'(1) by (subst parse_lines.simps) (simp add: next_line_blank [OF s'(2,3)])
  finally have "parse_lines UID ipstr time (parse_init ?b) = \<dots>" .
  moreover have "strlen ?b 0 = Some (length (message_text rl hs body))"
    using strlen_at [of "message_text rl hs body" "[]" post] n by (simp add: message_text_def)
  moreover have "\<not> length (message_text rl hs body) \<le> 4" using n(5) by (simp add: message_text_def)
  ultimately show ?thesis using s'(4-) s1(4) w by (simp add: parseRequest_def request_host_def)
qed

end
