(* ===== verification/ParseRequest_Props.thy ===== *)
theory ParseRequest_Props
  imports ParseRequest_Spec
begin

text \<open>The properties of request parsing.\<close>

section \<open>Lines of well-formed requests\<close>

lemma split_on_three:
  assumes "SP \<notin> set m" "SP \<notin> set u" "SP \<notin> set v"
  shows "split_on SP (m @ SP # u @ SP # v) = [m, u, v]"
  using assms by (simp add: split_on_hit split_on_miss)

text \<open>A word that is read as the URI: it is none of the words the parser knows.\<close>

definition uri_word :: "string \<Rightarrow> bool" where
  "uri_word u \<longleftrightarrow> SP \<notin> set u \<and> LF \<notin> set u \<and> NUL \<notin> set u \<and>
     (\<forall>w\<in>{''GET'', ''CONNECT'', ''POST'', ''HTTP/1.0'' @ [CR], ''HTTP/1.1'' @ [CR]}. \<not> strcaseeq u w)"

definition request_line :: "string \<Rightarrow> string \<Rightarrow> string" where
  "request_line m u = m @ SP # u @ SP # ''HTTP/1.1'' @ [CR]"

definition host_header :: "string \<Rightarrow> string" where
  "host_header h = ''Host: '' @ h @ [CR]"

definition host_word :: "string \<Rightarrow> bool" where
  "host_word h \<longleftrightarrow> COLON \<notin> set h \<and> LF \<notin> set h \<and> NUL \<notin> set h"

definition method_type :: "string \<Rightarrow> int \<times> int" where
  "method_type m = (if m = ''CONNECT'' then (1, 1) else if m = ''POST'' then (2, 0) else (0, 0))"

lemma request_words_line:
  assumes "m \<in> {''GET'', ''CONNECT'', ''POST''}" "uri_word u"
  shows "request_words (request_line m u) = (fst (method_type m), snd (method_type m), Some u)"
proof -
  have "split_on SP (request_line m u) = [m, u, ''HTTP/1.1'' @ [CR]]"
    using assms split_on_three [of m u "''HTTP/1.1'' @ [CR]"] by (auto simp: request_line_def uri_word_def)
  moreover have "classify acc u = (fst acc, fst (snd acc), Some u)" for acc
    using assms(2) by (auto simp: classify_def uri_word_def split: prod.split)
  ultimately show ?thesis using assms(1)
    by (auto simp: request_words_def method_type_def classify_def strcaseeq_def tolower_def Let_def)
qed

lemma host_of_host_header:
  assumes "host_word h"
  shows "is_host (host_header h)" "host_of (host_header h) = Some h" "good_header (host_header h)"
proof -
  have n: "header_name (host_header h) = ''Host''" by (simp add: header_name_def host_header_def)
  then have v: "header_value (host_header h) = SP # h @ [CR]" by (simp add: header_value_def host_header_def)
  have "takeWhile (\<lambda>c. c \<noteq> COLON) (SP # h @ [CR]) = SP # h @ [CR]"
    using assms by (intro takeWhile_id_notin) (auto simp: host_word_def)
  then show "host_of (host_header h) = Some h"
    by (simp add: host_of_def v strip_host_def schar_def PRINTABLE_ASCII_def)
  moreover show "is_host (host_header h)" by (simp add: is_host_def n)
  ultimately show "good_header (host_header h)"
    using assms by (auto simp: good_header_def host_word_def, auto simp: host_header_def)
qed

lemma parse_written:
  assumes m: "m \<in> {''GET'', ''CONNECT'', ''POST''}" and u: "uri_word u" and h: "host_word h"
    and hs: "\<forall>l\<in>set hs. good_header l \<and> \<not> is_host l"
    and fit: "length (log_request UID (request_line m u) ipstr time) < MAX_LOG_LINE_LEN"
    and b: "b = message_text (request_line m u) (host_header h # hs) [] @ NUL # NUL # post"
  shows "parseRequest b UID ipstr time =
    Some (Some \<lparr>reqType = fst (method_type m), isHttps = snd (method_type m), host = h, URI = u,
        reqLine = request_line m u\<rparr>, b, [log_request UID (request_line m u) ipstr time])"
proof -
  let ?rl = "request_line m u" and ?hs = "host_header h # hs"
  have rl: "NUL \<notin> set ?rl" "LF \<notin> set ?rl" "2 \<le> length ?rl"
    using m u by (auto simp: request_line_def uri_word_def)
  have g: "good_request ?rl ?hs []"
    using rl hs host_of_host_header(3) [OF h] by (auto simp: good_request_def)
  have "foldl header_step (Some h) hs = Some h"
    using hs by (induction hs) (auto simp: header_step_def)
  then have "request_host ?hs = Some h"
    using host_of_host_header(1,2) [OF h] by (simp add: request_host_def header_step_def)
  moreover have "NUL \<notin> set (?rl @ LF # unlines ?hs @ [CR])"
    using g rl unlines_NUL by (auto simp: good_request_def)
  then have "parse_body (?rl @ LF # unlines ?hs @ CR # NUL # [] @ NUL # NUL # post)
      (Some (length (?rl @ LF # unlines ?hs @ [CR]) + 1)) = Some b"
    using parse_body_at(1) [of "?rl @ LF # unlines ?hs @ [CR]" "[]" post]
    by (simp add: b message_text_def)
  ultimately show ?thesis
    using parseRequest_text [OF g fit request_words_line [OF m u], of "NUL # post"] by (simp add: b)
qed

section \<open>Properties\<close>

text \<open>C7: a request that a client writes with a known method, a URI and a \<open>Host\<close> header, and
  any further header lines that are not \<open>Host\<close>, is parsed to exactly these, and the buffer is
  byte for byte the one that was received, ready to be forwarded.\<close>

theorem parse_written_request:
  assumes m: "m \<in> {''GET'', ''CONNECT'', ''POST''}" and u: "uri_word u" and h: "host_word h"
    and hs: "\<forall>l\<in>set hs. good_header l \<and> \<not> is_host l"
    and fit: "length (log_request UID (request_line m u) ipstr time) < MAX_LOG_LINE_LEN"
    and b: "b = message_text (request_line m u) (host_header h # hs) [] @ NUL # NUL # post"
  shows "parseRequest b UID ipstr time =
    Some (Some \<lparr>reqType = fst (method_type m), isHttps = snd (method_type m), host = h, URI = u,
        reqLine = request_line m u\<rparr>, b, [log_request UID (request_line m u) ipstr time])"
  by (rule parse_written [OF assms])

lemma sample_uri: "uri_word ''http://a/x''"
  by (simp add: uri_word_def strcaseeq_def tolower_def)

lemma sample_host: "host_word ''a''"
  by (simp add: host_word_def)

lemma sample_fit: "length (log_request ''7'' (request_line ''GET'' ''http://a/x'') ''ip'' ''now'') < MAX_LOG_LINE_LEN"
  by (simp add: log_request_def request_line_def MAX_LOG_LINE_LEN_def)

theorem parse_written_request_witness:
  "let b = message_text (request_line ''GET'' ''http://a/x'') [host_header ''a''] [] @ NUL # NUL # []
   in parseRequest b ''7'' ''ip'' ''now'' =
     Some (Some \<lparr>reqType = 0, isHttps = 0, host = ''a'', URI = ''http://a/x'',
       reqLine = request_line ''GET'' ''http://a/x''\<rparr>, b,
       [log_request ''7'' (request_line ''GET'' ''http://a/x'') ''ip'' ''now''])"
  using parse_written_request [OF _ sample_uri sample_host _ sample_fit refl, of "[]" "[]"]
  by (simp add: method_type_def)

text \<open>The buffer of a request with a body is restored exactly when the body has a newline after
  a first line that is not empty.\<close>

theorem parse_restores_buffer:
  assumes g: "good_request rl hs body" and body: "body = x @ LF # y" "x \<noteq> []" "LF \<notin> set x"
    and fit: "length (log_request UID rl ipstr time) < MAX_LOG_LINE_LEN"
    and w: "request_words rl = (rt, https, Some u)" and h: "request_host hs = Some hst"
    and b: "b = message_text rl hs body @ NUL # NUL # post"
  shows "\<exists>inf. parseRequest b UID ipstr time = Some (Some inf, b, [log_request UID rl ipstr time])"
proof -
  have "NUL \<notin> set (rl @ LF # unlines hs @ [CR])" "NUL \<notin> set body"
    using g unlines_NUL by (auto simp: good_request_def)
  from parse_body_at(3) [OF this body, of post]
  have "parse_body (rl @ LF # unlines hs @ CR # NUL # body @ NUL # NUL # post)
      (Some (length (rl @ LF # unlines hs @ [CR]) + 1)) = Some b"
    by (simp add: b message_text_def)
  then show ?thesis using parseRequest_text [OF g fit w, of "NUL # post"] h by (simp add: b)
qed

lemma sample_request: "good_request (request_line ''GET'' ''http://a/x'') [host_header ''a''] body
    \<longleftrightarrow> NUL \<notin> set body"
  using host_of_host_header(3) [OF sample_host] by (simp add: good_request_def request_line_def)

lemma sample_words: "request_words (request_line ''GET'' ''http://a/x'') = (0, 0, Some ''http://a/x'')"
  using request_words_line [OF _ sample_uri, of "''GET''"] by (simp add: method_type_def)

lemma sample_host_found: "request_host [host_header ''a''] = Some ''a''"
  using host_of_host_header(1,2) [OF sample_host] by (simp add: request_host_def header_step_def)

theorem parse_restores_buffer_witness:
  "\<exists>inf b. b = message_text (request_line ''GET'' ''http://a/x'') [host_header ''a''] ([CHR ''q'', LF])
      @ NUL # NUL # [] \<and>
    parseRequest b ''7'' ''ip'' ''now'' =
      Some (Some inf, b, [log_request ''7'' (request_line ''GET'' ''http://a/x'') ''ip'' ''now''])"
proof -
  have g: "good_request (request_line ''GET'' ''http://a/x'') [host_header ''a''] [CHR ''q'', LF]"
    by (simp add: sample_request)
  have q: "[CHR ''q'', LF] = [CHR ''q''] @ LF # []" "[CHR ''q''] \<noteq> []" "LF \<notin> set [CHR ''q'']"
    by simp_all
  show ?thesis
    using parse_restores_buffer [OF g q sample_fit sample_words sample_host_found refl, of "[]"] by blast
qed

text \<open>A body without a newline (an ordinary form) comes back one byte longer: a newline that the
  client never sent is appended and forwarded.\<close>

theorem parse_appends_newline:
  assumes g: "good_request rl hs body" and body: "body \<noteq> []" "LF \<notin> set body"
    and fit: "length (log_request UID rl ipstr time) < MAX_LOG_LINE_LEN"
    and w: "request_words rl = (rt, https, Some u)" and h: "request_host hs = Some hst"
  shows "\<exists>inf. parseRequest (message_text rl hs body @ NUL # NUL # post) UID ipstr time =
    Some (Some inf, message_text rl hs (body @ [LF]) @ NUL # post, [log_request UID rl ipstr time])"
proof -
  have "NUL \<notin> set (rl @ LF # unlines hs @ [CR])" "NUL \<notin> set body"
    using g unlines_NUL by (auto simp: good_request_def)
  from parse_body_at(4) [OF this body(2,1), of post]
  show ?thesis using parseRequest_text [OF g fit w, of "NUL # post"] h by (simp add: message_text_def)
qed

theorem parse_appends_newline_witness:
  "\<exists>inf. parseRequest (message_text (request_line ''GET'' ''http://a/x'') [host_header ''a''] ''k=v''
      @ NUL # NUL # []) ''7'' ''ip'' ''now'' =
    Some (Some inf, message_text (request_line ''GET'' ''http://a/x'') [host_header ''a''] (''k=v'' @ [LF])
      @ NUL # [], [log_request ''7'' (request_line ''GET'' ''http://a/x'') ''ip'' ''now''])"
  using parse_appends_newline [of _ _ "''k=v''", OF _ _ _ sample_fit sample_words sample_host_found, of "[]"]
  by (simp add: sample_request)

text \<open>A body that starts with a newline is cut off: the text in the buffer ends after the blank line.\<close>

theorem parse_truncates_body:
  assumes g: "good_request rl hs (LF # y)"
    and fit: "length (log_request UID rl ipstr time) < MAX_LOG_LINE_LEN"
    and w: "request_words rl = (rt, https, Some u)" and h: "request_host hs = Some hst"
  shows "\<exists>inf b' lg. parseRequest (message_text rl hs (LF # y) @ NUL # NUL # post) UID ipstr time =
    Some (Some inf, b', lg) \<and> cstr b' 0 = Some (message_text rl hs [])"
proof -
  have n: "NUL \<notin> set (rl @ LF # unlines hs @ [CR])" "NUL \<notin> set (LF # y)"
    using g unlines_NUL by (auto simp: good_request_def)
  from cstr_at [of "message_text rl hs []" "[]" "y @ NUL # NUL # post"] n
  have "cstr (message_text rl hs [] @ NUL # y @ NUL # NUL # post) 0 = Some (message_text rl hs [])"
    by (simp add: message_text_def)
  with parse_body_at(2) [OF n refl, of post] show ?thesis
    using parseRequest_text [OF g fit w, of "NUL # post"] h by (simp add: message_text_def)
qed

theorem parse_truncates_body_witness:
  "\<exists>inf b' lg. parseRequest (message_text (request_line ''GET'' ''http://a/x'') [host_header ''a'']
      (LF # ''rest'') @ NUL # NUL # []) ''7'' ''ip'' ''now'' = Some (Some inf, b', lg) \<and>
    cstr b' 0 = Some (message_text (request_line ''GET'' ''http://a/x'') [host_header ''a''] [])"
  using parse_truncates_body [of _ _ "''rest''", OF _ sample_fit sample_words sample_host_found, of "[]"]
  by (simp add: sample_request)

text \<open>C39: a request without a \<open>Host\<close> header, or without a word for the URI, makes the parser use a
  variable that was never set.\<close>

theorem parse_without_host_faults:
  assumes "good_request rl hs body" "length (log_request UID rl ipstr time) < MAX_LOG_LINE_LEN"
    and "request_host hs = None \<or> snd (snd (request_words rl)) = None"
  shows "parseRequest (message_text rl hs body @ NUL # post) UID ipstr time = None"
proof -
  obtain rt https uri where w: "request_words rl = (rt, https, uri)" by (cases "request_words rl") auto
  then show ?thesis
    using parseRequest_text [OF assms(1,2) w, of post] assms(3)
    by (auto simp: bind_eq_None_conv split: bind_splits)
qed

theorem parse_without_host_faults_witness:
  "parseRequest (message_text (request_line ''GET'' ''http://a/x'') [] [] @ NUL # []) ''7'' ''ip'' ''now'' = None"
  using parse_without_host_faults [OF _ sample_fit, of "[]" "[]" "[]"]
  by (simp add: good_request_def request_line_def request_host_def)

text \<open>C38: a request line that does not fit the 200 bytes of the log message together with the rest of
  the message overflows the array on the stack, whatever follows it.\<close>

theorem long_request_line_faults:
  assumes "NUL \<notin> set rl" "LF \<notin> set rl" "NUL \<notin> set rest"
    and "MAX_LOG_LINE_LEN \<le> length (log_request UID rl ipstr time)" "4 < length rl"
  shows "parseRequest (rl @ LF # rest @ NUL # post) UID ipstr time = None"
proof -
  let ?b = "rl @ LF # rest @ NUL # post"
  have "strsep ?b (Some 0) LF = Some (Some 0, Some (length rl + 1), rl @ NUL # rest @ NUL # post)"
    using strsep_hit [OF assms(1,2) _ assms(3), of "[]" post] by simp
  moreover have "cstr (rl @ NUL # rest @ NUL # post) 0 = Some rl"
    using cstr_at [OF assms(1), of "[]"] by simp
  ultimately have "next_line UID ipstr time (parse_init ?b) = None"
    using assms(4) by (simp add: next_line_def parse_init_def first_line_def sprintf_def Let_def)
  then have "parse_lines UID ipstr time (parse_init ?b) = None"
    by (subst parse_lines.simps) simp
  moreover have "strlen ?b 0 = Some (length (rl @ LF # rest))"
    using strlen_at [of "rl @ LF # rest" "[]" post] assms(1,3) by simp
  ultimately show ?thesis using assms(5) by (simp add: parseRequest_def)
qed

theorem long_request_line_faults_witness:
  "parseRequest (replicate 200 (CHR ''x'') @ LF # [] @ NUL # []) ''7'' ''ip'' ''now'' = None"
  by (rule long_request_line_faults)
    (simp_all add: MAX_LOG_LINE_LEN_def log_request_def)

end
