(* ===== verification/ParseResponse.thy ===== *)
theory ParseResponse
  imports ParseRequest
begin

text \<open>
  \<open>parseResponse\<close> and \<open>parseCacheHeaders\<close> of \<^verbatim>\<open>threadPool.c\<close>: the headers of a server's response
  are parsed in place, like those of a request. The block of the \<open>CacheInfo\<close> is not initialised
  by its allocation: a field that was not written is \<open>None\<close>.
\<close>

record resp_info =
  ri_needs :: "int option"
  ri_expiry :: "tm option option"
  ri_etag :: "string option option"

definition no_info :: resp_info where
  "no_info = \<lparr>ri_needs = None, ri_expiry = None, ri_etag = None\<rparr>"

section \<open>Cache-Control\<close>

text \<open>What one policy does: forbid caching (\<open>None\<close>) or change the \<open>CacheInfo\<close>.\<close>

definition apply_policy :: "int \<Rightarrow> string \<Rightarrow> resp_info \<Rightarrow> resp_info option option" where
  "apply_policy now s info =
     (if strcaseeq s ''no-store'' \<or> s = ''private'' then Some None
      else if strncaseeq s ''must-revalidate'' 15 \<or> s = ''proxy-revalidate'' \<or> s = ''no-cache''
        then Some (Some (info\<lparr>ri_needs := Some 1\<rparr>))
      else if strncaseeq s ''max-age='' 8
        then do { expiryTm \<leftarrow> getTimeFromExpiry now (strtol (drop 8 s));
                  Some (Some (info\<lparr>ri_expiry := Some (Some expiryTm)\<rparr>)) }
      else Some (Some info))"

text \<open>
  The policy starts one byte after the comma, where a blank is expected; the carriage return
  at its end is cut off.
\<close>

function parse_policies :: "int \<Rightarrow> cbuf \<Rightarrow> nat option \<Rightarrow> resp_info \<Rightarrow> (int \<times> resp_info) option" where
  "parse_policies now b cacheHeaders info = do {
     (tok, rest, b1) \<leftarrow> strsep b cacheHeaders COMMA;
     (case tok of
        None \<Rightarrow> Some (1, info)
      | Some t \<Rightarrow> do {
          n \<leftarrow> strlen b1 (t + 1);
          c \<leftarrow> peek b1 (t + n);
          b2 \<leftarrow> (if c = CR then poke b1 (t + n) NUL else Some b1);
          s \<leftarrow> cstr b2 (t + 1);
          r \<leftarrow> apply_policy now s info;
          (case r of
             None \<Rightarrow> Some (0, info)
           | Some info' \<Rightarrow> do {
               c' \<leftarrow> peek b2 (t + length s);
               if c' = CR then Some (1, info')
               else parse_policies now b2 rest info' }) }) }"
  by pat_completeness auto
termination
proof (relation "measure (\<lambda>(now, b, h, info). case h of None \<Rightarrow> 0 | Some p \<Rightarrow> Suc (length b - p))", goal_cases)
  case 1
  show ?case by simp
next
  case (2 now b h info x tok y rest b1 t n c b2 s r info' c')
  then have eq: "strsep b h COMMA = Some (Some t, rest, b1)" by simp
  have len: "length b1 = length b" "length b2 = length b"
    using 2 strsep_length [OF eq] by (auto dest: poke_length split: if_splits)
  obtain p where p: "h = Some p" using eq by (cases h) auto
  show ?case
  proof (cases rest)
    case None
    then show ?thesis using p by simp
  next
    case (Some p')
    from strsep_progress [OF eq [unfolded Some]] p have "p < p'" "p' \<le> length b" by auto
    with p Some len show ?thesis by simp
  qed
qed

declare parse_policies.simps [simp del]

definition parseCacheHeaders :: "int \<Rightarrow> cbuf \<Rightarrow> resp_info \<Rightarrow> (int \<times> resp_info) option" where
  "parseCacheHeaders now b info = parse_policies now b (Some 0)
     (info\<lparr>ri_needs := Some 0, ri_expiry := Some None, ri_etag := Some None\<rparr>)"

section \<open>Header lines\<close>

record resp_state =
  rs_length :: int
  rs_chunked :: int
  rs_info :: resp_info
  rs_hasCC :: bool
  rs_canCache :: int

text \<open>
  The value is trimmed of its last byte while it is converted. A header without a colon has no
  value (\<open>NULL\<close>), which these branches dereference.
\<close>

definition content_length :: "cbuf \<Rightarrow> nat option \<Rightarrow> (cbuf \<times> int) option" where
  "content_length b line = do {
     q \<leftarrow> line;
     _ \<leftarrow> strlen b (q + 1);
     n \<leftarrow> strlen b q;
     b \<leftarrow> poke b (q + n - 1) NUL;
     v \<leftarrow> cstr b (q + 1);
     b \<leftarrow> restore b q CR;
     Some (b, atoi v) }"

definition etag_value :: "cbuf \<Rightarrow> nat option \<Rightarrow> string option" where
  "etag_value b line = do {
     q \<leftarrow> line;
     s \<leftarrow> cstr b q;
     check (2 \<le> length s);
     Some (take (length s - 2) (drop 1 s)) }"

definition response_header :: "int \<Rightarrow> cbuf \<Rightarrow> nat \<Rightarrow> resp_state \<Rightarrow> (cbuf \<times> resp_state) option" where
  "response_header now b l r = do {
     (headerName, line, b) \<leftarrow> strsep b (Some l) COLON;
     name \<leftarrow> cstr b l;
     (b, r) \<leftarrow> (if strcaseeq name ''Content-Length''
        then do { (b, n) \<leftarrow> content_length b line; Some (b, r\<lparr>rs_length := n, rs_chunked := 0\<rparr>) }
        else if strcaseeq name ''Cache-Control''
        then do {
          q \<leftarrow> line;
          copy \<leftarrow> cstr b q;
          (can, info) \<leftarrow> parseCacheHeaders now (copy @ [NUL]) (rs_info r);
          Some (b, r\<lparr>rs_hasCC := True, rs_canCache := can, rs_info := info\<rparr>) }
        else if strcaseeq name ''Transfer-Encoding''
        then do { q \<leftarrow> line; _ \<leftarrow> cstr b (q + 1); Some (b, r\<lparr>rs_chunked := 1\<rparr>) }
        else if strncaseeq name ''ETag'' 4
        then do {
          t \<leftarrow> etag_value b line;
          Some (b, r\<lparr>rs_info := (rs_info r)\<lparr>ri_etag := Some (Some t)\<rparr>\<rparr>) }
        else Some (b, r));
     b \<leftarrow> restore b l COLON;
     Some (b, r) }"

section \<open>The loop over the lines\<close>

record resp_loop =
  rl_buf :: cbuf
  rl_rest :: "nat option"
  rl_lineNum :: nat
  rl_line :: "nat option"
  rl_st :: resp_state
  rl_log :: "string list"

definition log_response :: "string \<Rightarrow> string \<Rightarrow> string \<Rightarrow> string" where
  "log_response UID line hst = UID @ '': Received '' @ line @ '' from '' @ hst @ ''.''"

definition response_line :: "int \<Rightarrow> string \<Rightarrow> string \<Rightarrow> resp_loop \<Rightarrow> (resp_loop + resp_loop) option" where
  "response_line now UID hst s = do {
     (line, rest, b) \<leftarrow> strsep (rl_buf s) (rl_rest s) LF;
     (case line of
        None \<Rightarrow> Some (Inl (s\<lparr>rl_line := None\<rparr>))
      | Some l \<Rightarrow> do {
          str \<leftarrow> cstr b l;
          let s = s\<lparr>rl_buf := b, rl_rest := rest, rl_lineNum := rl_lineNum s + 1, rl_line := Some l\<rparr>;
          if strcaseeq str [CR] then Some (Inl s)
          else if rl_lineNum s = 1 then do {
            msg \<leftarrow> sprintf MAX_LOG_LINE_LEN (log_response UID str hst);
            b \<leftarrow> restore b 0 LF;
            Some (Inr (s\<lparr>rl_buf := b, rl_log := rl_log s @ [msg]\<rparr>)) }
          else do {
            (b, r) \<leftarrow> response_header now b l (rl_st s);
            b \<leftarrow> restore b 0 LF;
            Some (Inr (s\<lparr>rl_buf := b, rl_st := r\<rparr>)) } }) }"

lemma response_header_length:
  "response_header now b l r = Some (b', r') \<Longrightarrow> length b' = length b"
  by (auto simp: response_header_def content_length_def elim!: bind_SomeE dest!: buffer_lengths split: if_splits)

lemma response_line_progress:
  assumes "response_line now UID hst s = Some (Inr s')"
  shows "length (rl_buf s') = length (rl_buf s)"
    and "\<exists>p. rl_rest s = Some p \<and> (\<forall>p'. rl_rest s' = Some p' \<longrightarrow> p < p' \<and> p' \<le> length (rl_buf s))"
proof -
  obtain line rest b where sep: "strsep (rl_buf s) (rl_rest s) LF = Some (line, rest, b)"
    using assms by (auto simp: response_line_def elim!: bind_SomeE)
  then obtain p where p: "rl_rest s = Some p" using assms
    by (cases "rl_rest s") (auto simp: response_line_def)
  note l = strsep_token [OF sep [unfolded p]]
  have "length (rl_buf s') = length b \<and> rl_rest s' = rest"
    using assms sep l
    by (auto simp: response_line_def Let_def
        elim!: bind_SomeE dest!: restore_length response_header_length split: if_splits)
  moreover have "p < p' \<and> p' \<le> length (rl_buf s)" if "rest = Some p'" for p'
    using strsep_progress [OF sep [unfolded that]] p by simp
  ultimately show "length (rl_buf s') = length (rl_buf s)"
    "\<exists>p. rl_rest s = Some p \<and> (\<forall>p'. rl_rest s' = Some p' \<longrightarrow> p < p' \<and> p' \<le> length (rl_buf s))"
    using strsep_length [OF sep] p by auto
qed

function response_lines :: "int \<Rightarrow> string \<Rightarrow> string \<Rightarrow> resp_loop \<Rightarrow> resp_loop option" where
  "response_lines now UID hst s = do {
     r \<leftarrow> response_line now UID hst s;
     (case r of Inl s' \<Rightarrow> Some s' | Inr s' \<Rightarrow> response_lines now UID hst s') }"
  by pat_completeness auto
termination
proof (relation "measure (\<lambda>(n, u, h, s). case rl_rest s of None \<Rightarrow> 0 | Some p \<Rightarrow> Suc (length (rl_buf s) - p))", goal_cases)
  case 1
  show ?case by simp
next
  case (2 now UID hst s r s')
  then have "response_line now UID hst s = Some (Inr s')" by simp
  note np = response_line_progress [OF this]
  from np(2) obtain p where "rl_rest s = Some p"
    "\<forall>p'. rl_rest s' = Some p' \<longrightarrow> p < p' \<and> p' \<le> length (rl_buf s)" by blast
  with np(1) show ?case by (cases "rl_rest s'") auto
qed

declare response_lines.simps [simp del]

section \<open>The function\<close>

record resp_result =
  rr_ret :: int
  rr_buf :: cbuf
  rr_chunked :: int
  rr_info :: resp_info
  rr_canCache :: int
  rr_log :: "string list"

text \<open>
  After the loop the newline of the blank line is written through \<open>line\<close>, which is NULL when
  no blank line was found. The two writes at the end go to the first NUL of the buffer.
\<close>

definition parseResponse :: "int \<Rightarrow> cbuf \<Rightarrow> int \<Rightarrow> resp_info \<Rightarrow> int \<Rightarrow> string \<Rightarrow> string \<Rightarrow> resp_result option" where
  "parseResponse now b isChunked info canCache hst UID = do {
     n \<leftarrow> strlen b 0;
     if n \<le> 4 then Some \<lparr>rr_ret = -1, rr_buf = b, rr_chunked = isChunked, rr_info = info,
         rr_canCache = canCache, rr_log = []\<rparr>
     else do {
       s \<leftarrow> response_lines now UID hst \<lparr>rl_buf = b, rl_rest = Some 0, rl_lineNum = 0, rl_line = None,
         rl_st = \<lparr>rs_length = 0, rs_chunked = isChunked, rs_info = info, rs_hasCC = False,
           rs_canCache = canCache\<rparr>, rl_log = []\<rparr>;
       l \<leftarrow> rl_line s;
       b \<leftarrow> poke (rl_buf s) (l + 1) LF;
       bodySizeLeft \<leftarrow> (case rl_rest s of
           None \<Rightarrow> Some 0
         | Some p \<Rightarrow> do { n \<leftarrow> strlen b p;
             Some (if 0 < n then to_int32 (rs_length (rl_st s) - int n) else 0) });
       b \<leftarrow> restore b 0 LF;
       b \<leftarrow> (if bodySizeLeft \<noteq> 0 then restore b 0 LF else Some b);
       Some \<lparr>rr_ret = (if 0 < bodySizeLeft then bodySizeLeft else 0), rr_buf = b,
         rr_chunked = rs_chunked (rl_st s), rr_info = rs_info (rl_st s),
         rr_canCache = (if rs_hasCC (rl_st s) then rs_canCache (rl_st s) else 0), rr_log = rl_log s\<rparr> } }"

end
