(* ===== verification/ParseResponse_Spec.thy ===== *)
theory ParseResponse_Spec
  imports ParseResponse ParseRequest_Spec
begin

text \<open>
  What parsing a response computes, as functions of its lines and of the policies of its
  \<open>Cache-Control\<close> header, and that the in-place parser computes it.
\<close>

section \<open>Cache-Control\<close>

text \<open>A policy as the code reads it: without its first byte, whatever that is, and without a final
  carriage return.\<close>

definition policy_of :: "string \<Rightarrow> string" where
  "policy_of t = (if last t = CR then butlast (tl t) else tl t)"

definition good_policy :: "string \<Rightarrow> bool" where
  "good_policy t \<longleftrightarrow> 2 \<le> length t \<and> COMMA \<notin> set t \<and> NUL \<notin> set t \<and> CR \<notin> set (butlast t)"

fun policies :: "int \<Rightarrow> string list \<Rightarrow> resp_info \<Rightarrow> (int \<times> resp_info) option" where
  "policies now [] info = Some (1, info)"
| "policies now (t # ts) info = do {
     r \<leftarrow> apply_policy now (policy_of t) info;
     (case r of None \<Rightarrow> Some (0, info) | Some info' \<Rightarrow> policies now ts info') }"

lemma policies_Nil: "policies now [] = (\<lambda>info. Some (1, info))"
  by (rule ext) simp

lemma policy_in_buffer:
  assumes g: "good_policy t"
  shows "\<exists>b2 c c'. strlen (pre @ t @ NUL # post) (length pre + 1) = Some (length t - 1) \<and>
    peek (pre @ t @ NUL # post) (length pre + (length t - 1)) = Some c \<and>
    (if c = CR then poke (pre @ t @ NUL # post) (length pre + (length t - 1)) NUL
      else Some (pre @ t @ NUL # post)) = Some b2 \<and>
    cstr b2 (length pre + 1) = Some (policy_of t) \<and>
    peek b2 (length pre + length (policy_of t)) = Some c' \<and> c' \<noteq> CR \<and>
    (\<exists>w. b2 = pre @ w @ NUL # post \<and> length w = length t)"
proof -
  obtain x u where t: "t = x # u" "u \<noteq> []" using g by (cases t; cases "tl t") (auto simp: good_policy_def)
  obtain v l where u: "u = v @ [l]" using t(2) by (cases u rule: rev_cases) auto
  have n: "NUL \<notin> set u" "x \<noteq> CR" "CR \<notin> set v" "NUL \<notin> set v"
    using g by (auto simp: good_policy_def t u split: if_splits)
  have e: "pre @ t @ NUL # post = (pre @ [x]) @ u @ NUL # post" by (simp add: t)
  have len: "strlen (pre @ t @ NUL # post) (length pre + 1) = Some (length t - 1)"
    unfolding e using strlen_at [OF n(1), of "pre @ [x]" post] by (simp add: t)
  have pk: "peek (pre @ t @ NUL # post) (length pre + (length t - 1)) = Some l"
    by (simp add: t u peek_def nth_append)
  show ?thesis
  proof (cases "l = CR")
    case False
    have "cstr (pre @ t @ NUL # post) (length pre + 1) = Some u"
      unfolding e using cstr_at [OF n(1), of "pre @ [x]" post] by simp
    moreover have "policy_of t = u" using False by (simp add: policy_of_def t u)
    moreover have "peek (pre @ t @ NUL # post) (length pre + length u) = Some l"
      using pk by (simp add: t)
    ultimately show ?thesis using len pk False by auto
  next
    case True
    let ?b2 = "pre @ (x # v @ [NUL]) @ NUL # post"
    have pk': "poke (pre @ t @ NUL # post) (length pre + (length t - 1)) NUL = Some ?b2"
      using poke_at [of "length pre + (length t - 1)" pre "x # v" l "NUL # post" NUL] by (simp add: t u)
    have c: "cstr ?b2 (length pre + 1) = Some v"
      using cstr_at [OF n(4), of "pre @ [x]" "NUL # post"] by simp
    have p: "policy_of t = v" using True by (simp add: policy_of_def t u)
    have "peek ?b2 (length pre + length v) = Some (last (x # v))"
      by (cases v rule: rev_cases) (simp_all add: peek_def nth_append)
    moreover have "last (x # v) \<noteq> CR" using n(2,3) by (cases v rule: rev_cases) auto
    ultimately show ?thesis using len pk pk' c p True
      by (intro exI [of _ ?b2] exI [of _ l] exI [of _ "last (x # v)"] conjI
          exI [of _ "x # v @ [NUL]"]) (simp_all add: t u)
  qed
qed

lemma parse_policies_step:
  assumes "strsep b h COMMA = Some (Some t, rest, b1)" "strlen b1 (t + 1) = Some n"
    "peek b1 (t + n) = Some c" "(if c = CR then poke b1 (t + n) NUL else Some b1) = Some b2"
    "cstr b2 (t + 1) = Some s" "peek b2 (t + length s) = Some c'" "c' \<noteq> CR"
  shows "parse_policies now b h info = do {
     r \<leftarrow> apply_policy now s info;
     (case r of None \<Rightarrow> Some (0, info) | Some info' \<Rightarrow> parse_policies now b2 rest info') }"
proof (cases "apply_policy now s info")
  case None
  then show ?thesis using assms
    by (subst parse_policies.simps) (cases "c = CR"; simp)
next
  case (Some r)
  then show ?thesis using assms
    by (subst parse_policies.simps) (cases "c = CR"; cases r; simp)
qed

lemma split_on_induct_step:
  assumes "d \<in> set s"
  obtains w r where "s = w @ d # r" "d \<notin> set w" "split_on d s = w # split_on d r"
  using assms by (metis split_list_at split_on_hit)

lemma parse_policies_at:
  assumes "\<forall>t\<in>set (split_on COMMA v). good_policy t" "NUL \<notin> set v"
  shows "parse_policies now (pre @ v @ NUL # post) (Some (length pre)) info =
    policies now (split_on COMMA v) info"
  using assms
proof (induction "length v" arbitrary: pre v info rule: less_induct)
  case less
  show ?case
  proof (cases "COMMA \<in> set v")
    case False
    then have s: "split_on COMMA v = [v]" and g: "good_policy v"
      using less.prems(1) by (simp_all add: split_on_miss)
    have sep: "strsep (pre @ v @ NUL # post) (Some (length pre)) COMMA =
        Some (Some (length pre), None, pre @ v @ NUL # post)"
      by (rule strsep_miss [OF less.prems(2) False])
    have fin: "parse_policies now b None i = Some (1, i)" for b i
      by (subst parse_policies.simps) simp
    from policy_in_buffer [OF g, of pre post] obtain b2 c c' where
      "strlen (pre @ v @ NUL # post) (length pre + 1) = Some (length v - 1)"
      "peek (pre @ v @ NUL # post) (length pre + (length v - 1)) = Some c"
      "(if c = CR then poke (pre @ v @ NUL # post) (length pre + (length v - 1)) NUL
        else Some (pre @ v @ NUL # post)) = Some b2"
      "cstr b2 (length pre + 1) = Some (policy_of v)"
      "peek b2 (length pre + length (policy_of v)) = Some c'" "c' \<noteq> CR" by blast
    note st = parse_policies_step [OF sep this]
    show ?thesis
      by (simp only: st s policies.simps fin policies_Nil)
  next
    case True
    then obtain w r where v: "v = w @ COMMA # r" and w: "COMMA \<notin> set w"
      and s: "split_on COMMA v = w # split_on COMMA r" by (rule split_on_induct_step)
    have n: "NUL \<notin> set w" "NUL \<notin> set r" using less.prems(2) v by auto
    have g: "good_policy w" and gr: "\<forall>t\<in>set (split_on COMMA r). good_policy t"
      using less.prems(1) s by auto
    have sep: "strsep (pre @ v @ NUL # post) (Some (length pre)) COMMA =
        Some (Some (length pre), Some (length pre + length w + 1), pre @ w @ NUL # r @ NUL # post)"
      using strsep_hit [OF n(1) w _ n(2), of pre post] by (simp add: v)
    from policy_in_buffer [OF g, of pre "r @ NUL # post"] obtain b2 c c' w' where b2:
      "strlen (pre @ w @ NUL # r @ NUL # post) (length pre + 1) = Some (length w - 1)"
      "peek (pre @ w @ NUL # r @ NUL # post) (length pre + (length w - 1)) = Some c"
      "(if c = CR then poke (pre @ w @ NUL # r @ NUL # post) (length pre + (length w - 1)) NUL
        else Some (pre @ w @ NUL # r @ NUL # post)) = Some b2"
      "cstr b2 (length pre + 1) = Some (policy_of w)"
      "peek b2 (length pre + length (policy_of w)) = Some c'" "c' \<noteq> CR"
      "b2 = pre @ w' @ NUL # r @ NUL # post" "length w' = length w" by blast
    have ih: "parse_policies now b2 (Some (length pre + length w + 1)) i = policies now (split_on COMMA r) i" for i
      using less.hyps [of r "pre @ w' @ [NUL]" i] v gr n(2) b2(7,8) by simp
    show ?thesis
      by (simp only: parse_policies_step [OF sep b2(1-6)] s policies.simps ih)
  qed
qed

definition cache_start :: "resp_info \<Rightarrow> resp_info" where
  "cache_start info = info\<lparr>ri_needs := Some 0, ri_expiry := Some None, ri_etag := Some None\<rparr>"

lemma parseCacheHeaders_at:
  assumes "\<forall>t\<in>set (split_on COMMA v). good_policy t" "NUL \<notin> set v"
  shows "parseCacheHeaders now (v @ [NUL]) info = policies now (split_on COMMA v) (cache_start info)"
  using parse_policies_at [OF assms, of now "[]" "[]"] by (simp add: parseCacheHeaders_def cache_start_def)


section \<open>Header lines\<close>

definition names :: "string \<Rightarrow> string \<Rightarrow> bool" where
  "names l nm = strcaseeq (header_name l) nm"

text \<open>The effect of a header line on the state, read off its text.\<close>

definition resp_step :: "int \<Rightarrow> resp_state \<Rightarrow> string \<Rightarrow> resp_state option" where
  "resp_step now r l = (let v = header_value l in
     if names l ''Content-Length''
     then Some (r\<lparr>rs_length := atoi (butlast (tl v)), rs_chunked := 0\<rparr>)
     else if names l ''Cache-Control''
     then do {
       (can, info) \<leftarrow> policies now (split_on COMMA v) (cache_start (rs_info r));
       Some (r\<lparr>rs_hasCC := True, rs_canCache := can, rs_info := info\<rparr>) }
     else if names l ''Transfer-Encoding'' then Some (r\<lparr>rs_chunked := 1\<rparr>)
     else if strncaseeq (header_name l) ''ETag'' 4
     then Some (r\<lparr>rs_info := (rs_info r)\<lparr>ri_etag := Some (Some (take (length v - 2) (tl v)))\<rparr>\<rparr>)
     else Some r)"

text \<open>
  A header line of a response that ends with a carriage return, and whose value starts with a
  blank (any byte) after the colon.
\<close>

definition good_resp_header :: "string \<Rightarrow> bool" where
  "good_resp_header l \<longleftrightarrow> COLON \<in> set l \<and> LF \<notin> set l \<and> NUL \<notin> set l \<and>
     2 \<le> length (header_value l) \<and> last l = CR \<and>
     (names l ''Cache-Control'' \<longrightarrow> (\<forall>t\<in>set (split_on COMMA (header_value l)). good_policy t))"

lemma good_resp_header_split:
  assumes g: "good_resp_header l"
  obtains nm x v where "l = nm @ COLON # x # v @ [CR]" "COLON \<notin> set nm" "NUL \<notin> set nm" "NUL \<notin> set (x # v)"
    "header_name l = nm" "header_value l = x # v @ [CR]"
proof -
  have l: "l = header_name l @ COLON # header_value l" "COLON \<notin> set (header_name l)"
    using header_split g by (auto simp: good_resp_header_def)
  obtain x u where hv: "header_value l = x # u" "u \<noteq> []"
    using g by (cases "header_value l"; cases "tl (header_value l)") (auto simp: good_resp_header_def)
  obtain v where u: "u = v @ [CR]"
  proof (cases u rule: rev_cases)
    case (snoc v c)
    have "last l = last (header_name l @ COLON # header_value l)" using l(1) by simp
    also have "\<dots> = c" by (simp add: hv(1) snoc)
    finally have "c = CR" using g by (simp add: good_resp_header_def)
    then show ?thesis using snoc by (intro that) simp
  qed (use hv in simp)
  have "NUL \<notin> set l" using g by (simp add: good_resp_header_def)
  then have "NUL \<notin> set (header_name l)" "NUL \<notin> set (x # v)"
    by (subst (asm) l(1), simp add: hv u)+
  then show ?thesis using that [of "header_name l" x v] l hv u by simp
qed

lemma content_length_at:
  assumes n: "NUL \<notin> set (x # v)"
  shows "content_length (pre @ (x # v @ [CR]) @ NUL # post) (Some (length pre)) =
    Some (pre @ (x # v @ [CR]) @ NUL # post, atoi v)"
proof -
  let ?b = "pre @ (x # v @ [CR]) @ NUL # post"
  have s1: "strlen ?b (length pre + 1) = Some (length v + 1)"
    using strlen_at [of "v @ [CR]" "pre @ [x]" post] n by simp
  have s0: "strlen ?b (length pre) = Some (length v + 2)"
    using strlen_at [of "x # v @ [CR]" pre post] n by simp
  have pk: "poke ?b (length pre + (length v + 2) - 1) NUL = Some (pre @ (x # v) @ NUL # NUL # post)"
    using poke_at [of "length pre + (length v + 1)" pre "x # v" CR "NUL # post" NUL] by simp
  have c: "cstr (pre @ (x # v) @ NUL # NUL # post) (length pre + 1) = Some v"
    using cstr_at [of v "pre @ [x]" "NUL # post"] n by simp
  have r: "restore (pre @ (x # v) @ NUL # NUL # post) (length pre) CR = Some ?b"
    using restore_at [of "x # v" pre "NUL # post" CR] n by simp
  show ?thesis unfolding content_length_def by (simp only: bind.bind_lunit s1 s0 pk c r)
qed

lemma response_header_at:
  assumes g: "good_resp_header l"
  shows "response_header now (pre @ l @ NUL # post) (length pre) r = do {
    r' \<leftarrow> resp_step now r l; Some (pre @ l @ NUL # post, r') }"
proof -
  obtain nm x v where l: "l = nm @ COLON # x # v @ [CR]" "COLON \<notin> set nm" "NUL \<notin> set nm"
    "NUL \<notin> set (x # v)" "header_name l = nm" "header_value l = x # v @ [CR]"
    using g by (rule good_resp_header_split)
  let ?vl = "x # v @ [CR]"
  let ?b = "pre @ nm @ NUL # ?vl @ NUL # post"
  have nv: "NUL \<notin> set ?vl" using l(4) by simp
  have sep: "strsep (pre @ l @ NUL # post) (Some (length pre)) COLON =
      Some (Some (length pre), Some (length pre + length nm + 1), ?b)"
    using strsep_hit [OF l(3,2) _ nv, of pre post] by (simp add: l(1))
  have c: "cstr ?b (length pre) = Some nm" by (rule cstr_at [OF l(3)])
  have rs: "restore ?b (length pre) COLON = Some (pre @ l @ NUL # post)"
    using restore_at [OF l(3), of pre "?vl @ NUL # post" COLON] by (simp add: l(1))
  have cl: "content_length ?b (Some (length pre + length nm + 1)) = Some (?b, atoi v)"
    using content_length_at [OF l(4), of "pre @ nm @ [NUL]" post] by simp
  have cv: "cstr ?b (length pre + length nm + 1) = Some ?vl"
    using cstr_at [OF nv, of "pre @ nm @ [NUL]" post] by simp
  have cv1: "cstr ?b (length pre + length nm + 1 + 1) = Some (v @ [CR])"
    using cstr_at [of "v @ [CR]" "pre @ nm @ [NUL, x]" post] l(4) by simp
  have et: "etag_value ?b (Some (length pre + length nm + 1)) = Some v"
    unfolding etag_value_def by (simp only: bind.bind_lunit cv) simp
  have pc: "parseCacheHeaders now (?vl @ [NUL]) info = policies now (split_on COMMA ?vl) (cache_start info)"
    if "names l ''Cache-Control''" for info
    using g that nv by (intro parseCacheHeaders_at) (auto simp: good_resp_header_def l(6))
  note facts = response_header_def sep c rs bind.bind_lunit prod.case option.case
    resp_step_def names_def l(5,6) Let_def
  consider "strcaseeq nm ''Content-Length''"
    | "\<not> strcaseeq nm ''Content-Length''" "strcaseeq nm ''Cache-Control''"
    | "\<not> strcaseeq nm ''Content-Length''" "\<not> strcaseeq nm ''Cache-Control''"
    by blast
  then show ?thesis
  proof cases
    case 1
    then show ?thesis by (simp only: facts cl if_True) simp
  next
    case 2
    then have pc': "parseCacheHeaders now (?vl @ [NUL]) info = policies now (split_on COMMA ?vl) (cache_start info)"
      for info by (intro pc) (simp add: names_def l(5))
    from 2 show ?thesis
      by (cases "policies now (split_on COMMA ?vl) (cache_start (rs_info r))")
        (auto simp only: facts cv pc' if_True if_False bind.bind_lzero)
  next
    case 3
    then show ?thesis
      by (simp only: facts cv1 et if_False bind.bind_lunit) (auto simp: rs simp del: append.simps)
  qed
qed

section \<open>The lines of a response\<close>

fun resp_steps :: "int \<Rightarrow> resp_state \<Rightarrow> string list \<Rightarrow> resp_state option" where
  "resp_steps now r [] = Some r"
| "resp_steps now r (l # ls) = do { r' \<leftarrow> resp_step now r l; resp_steps now r' ls }"

definition at_resp_line :: "string \<Rightarrow> string \<Rightarrow> string \<Rightarrow> resp_loop \<Rightarrow> bool" where
  "at_resp_line tx rest post s \<longleftrightarrow> rl_buf s = tx @ rest @ NUL # post \<and> rl_rest s = Some (length tx)
     \<and> NUL \<notin> set tx \<and> NUL \<notin> set rest"

lemma response_line_header:
  assumes al: "at_resp_line tx (l @ LF # rest) post s" and g: "good_resp_header l" and n: "0 < rl_lineNum s"
    and st: "resp_step now (rl_st s) l = Some r'"
  defines "s' \<equiv> s\<lparr>rl_rest := Some (length (tx @ l @ [LF])),
      rl_lineNum := rl_lineNum s + 1, rl_line := Some (length tx), rl_st := r'\<rparr>"
  shows "response_line now UID hst s = Some (Inr s')" and "at_resp_line (tx @ l @ [LF]) rest post s'"
proof -
  have nn: "NUL \<notin> set l" "LF \<notin> set l" "NUL \<notin> set rest" "NUL \<notin> set tx"
    and b: "rl_buf s = tx @ l @ LF # rest @ NUL # post" "rl_rest s = Some (length tx)"
    using g al by (auto simp: good_resp_header_def at_resp_line_def)
  let ?b = "tx @ l @ NUL # rest @ NUL # post"
  have sep: "strsep (rl_buf s) (rl_rest s) LF = Some (Some (length tx), Some (length tx + length l + 1), ?b)"
    using strsep_hit [OF nn(1,2) _ nn(3), of tx post] by (simp add: b)
  have c: "cstr ?b (length tx) = Some l" by (rule cstr_at [OF nn(1)])
  obtain nm x v where "l = nm @ COLON # x # v @ [CR]" using g by (rule good_resp_header_split)
  then have cr: "\<not> strcaseeq l [CR]"
    by (auto simp: strcaseeq_def dest: arg_cong [where f = length])
  have h: "response_header now ?b (length tx) (rl_st s) = Some (?b, r')"
    by (simp add: response_header_at [OF g] st)
  have r: "restore ?b 0 LF = Some (tx @ l @ LF # rest @ NUL # post)"
    using restore_at [of "tx @ l" "[]" "rest @ NUL # post" LF] nn by simp
  show "response_line now UID hst s = Some (Inr s')"
    using n by (simp add: response_line_def sep c cr h r b(1) [symmetric] Let_def s'_def)
  show "at_resp_line (tx @ l @ [LF]) rest post s'"
    using al nn by (auto simp: at_resp_line_def s'_def)
qed

lemma response_line_fault:
  assumes al: "at_resp_line tx (l @ LF # rest) post s" and g: "good_resp_header l" and n: "0 < rl_lineNum s"
    and st: "resp_step now (rl_st s) l = None"
  shows "response_line now UID hst s = None"
proof -
  have nn: "NUL \<notin> set l" "LF \<notin> set l" "NUL \<notin> set rest"
    and b: "rl_buf s = tx @ l @ LF # rest @ NUL # post" "rl_rest s = Some (length tx)"
    using g al by (auto simp: good_resp_header_def at_resp_line_def)
  let ?b = "tx @ l @ NUL # rest @ NUL # post"
  have sep: "strsep (rl_buf s) (rl_rest s) LF = Some (Some (length tx), Some (length tx + length l + 1), ?b)"
    using strsep_hit [OF nn(1,2) _ nn(3), of tx post] by (simp add: b)
  have c: "cstr ?b (length tx) = Some l" by (rule cstr_at [OF nn(1)])
  obtain nm x v where "l = nm @ COLON # x # v @ [CR]" using g by (rule good_resp_header_split)
  then have cr: "\<not> strcaseeq l [CR]"
    by (auto simp: strcaseeq_def dest: arg_cong [where f = length])
  have "response_header now ?b (length tx) (rl_st s) = None"
    by (simp add: response_header_at [OF g] st)
  then show ?thesis using n by (simp add: response_line_def sep c cr Let_def)
qed

lemma response_header_lines:
  assumes "at_resp_line tx (unlines hs @ rest) post s" "\<forall>l\<in>set hs. good_resp_header l"
    "0 < rl_lineNum s" "resp_steps now (rl_st s) hs = Some r'"
  shows "\<exists>s'. response_lines now UID hst s = response_lines now UID hst s' \<and>
    at_resp_line (tx @ unlines hs) rest post s' \<and> 0 < rl_lineNum s' \<and>
    rl_st s' = r' \<and> rl_log s' = rl_log s"
  using assms
proof (induction hs arbitrary: tx s)
  case Nil
  then show ?case by (intro exI [of _ s]) (auto simp: unlines_def)
next
  case (Cons l hs)
  have al: "at_resp_line tx (l @ LF # (unlines hs @ rest)) post s" and g: "good_resp_header l"
    using Cons.prems by (simp_all add: unlines_def)
  obtain r where r: "resp_step now (rl_st s) l = Some r" "resp_steps now r hs = Some r'"
    using Cons.prems(4) by (auto elim: bind_SomeE)
  note nh = response_line_header [OF al g Cons.prems(3) r(1)]
  have hs: "\<forall>l\<in>set hs. good_resp_header l" using Cons.prems(2) by simp
  have eq: "unlines (l # hs) = l @ LF # unlines hs" by (simp add: unlines_def)
  show ?case
    using Cons.IH [OF nh(2) hs] r(2) by (subst response_lines.simps) (simp add: nh(1) eq)
qed

section \<open>Whole responses\<close>

definition good_response :: "string \<Rightarrow> string list \<Rightarrow> string \<Rightarrow> bool" where
  "good_response st hs body \<longleftrightarrow> NUL \<notin> set st \<and> LF \<notin> set st \<and> 2 \<le> length st \<and>
     (\<forall>l\<in>set hs. good_resp_header l) \<and> NUL \<notin> set body"

definition resp_begin :: "int \<Rightarrow> resp_info \<Rightarrow> int \<Rightarrow> resp_state" where
  "resp_begin isChunked info canCache = \<lparr>rs_length = 0, rs_chunked = isChunked, rs_info = info,
     rs_hasCC = False, rs_canCache = canCache\<rparr>"

text \<open>What is still to be read of the body: nothing when the first read had none of it.\<close>

definition body_left :: "resp_state \<Rightarrow> string \<Rightarrow> int" where
  "body_left r body = (if body = [] then 0 else to_int32 (rs_length r - int (length body)))"

lemma good_resp_unlines: "\<forall>l\<in>set hs. good_resp_header l \<Longrightarrow> NUL \<notin> set (unlines hs)"
  by (auto simp: unlines_def good_resp_header_def)

lemma response_first_line:
  assumes n: "NUL \<notin> set st" "LF \<notin> set st" "NUL \<notin> set rest" "2 \<le> length st"
    and al: "at_resp_line [] (st @ LF # rest) post s" "rl_lineNum s = 0"
    and fit: "length (log_response UID st hst) < MAX_LOG_LINE_LEN"
  defines "s' \<equiv> s\<lparr>rl_rest := Some (length (st @ [LF])), rl_lineNum := 1, rl_line := Some 0,
      rl_log := rl_log s @ [log_response UID st hst]\<rparr>"
  shows "response_line now UID hst s = Some (Inr s')" and "at_resp_line (st @ [LF]) rest post s'"
proof -
  have b: "rl_buf s = st @ LF # rest @ NUL # post" "rl_rest s = Some 0"
    using al by (simp_all add: at_resp_line_def)
  let ?b = "st @ NUL # rest @ NUL # post"
  have sep: "strsep (rl_buf s) (rl_rest s) LF = Some (Some 0, Some (length st + 1), ?b)"
    using strsep_hit [OF n(1,2) _ n(3), of "[]" post] by (simp add: b)
  have c: "cstr ?b 0 = Some st" using cstr_at [OF n(1), of "[]"] by simp
  have cr: "\<not> strcaseeq st [CR]"
    using n(4) by (auto simp: strcaseeq_def dest: arg_cong [where f = length])
  have r: "restore ?b 0 LF = Some (rl_buf s)"
    using restore_at [OF n(1), of "[]" "rest @ NUL # post" LF] by (simp add: b)
  show "response_line now UID hst s = Some (Inr s')"
    using fit by (simp add: response_line_def sep c cr r al(2) sprintf_def s'_def Let_def)
  show "at_resp_line (st @ [LF]) rest post s'"
    using n by (simp add: at_resp_line_def s'_def b)
qed

lemma response_line_blank:
  assumes al: "at_resp_line tx (CR # LF # body) post s"
  shows "response_line now UID hst s = Some (Inl (s\<lparr>rl_buf := tx @ CR # NUL # body @ NUL # post,
      rl_rest := Some (length tx + 2), rl_lineNum := rl_lineNum s + 1, rl_line := Some (length tx)\<rparr>))"
proof -
  let ?b = "tx @ CR # NUL # body @ NUL # post"
  have sep: "strsep (rl_buf s) (rl_rest s) LF = Some (Some (length tx), Some (length tx + 2), ?b)"
    using al strsep_hit [of "[CR]" LF body tx post] by (simp add: at_resp_line_def)
  have c: "cstr ?b (length tx) = Some [CR]"
    using cstr_at [of "[CR]" tx "body @ NUL # post"] by simp
  show ?thesis by (simp add: response_line_def sep c Let_def)
qed

theorem parseResponse_text:
  assumes g: "good_response st hs body"
    and fit: "length (log_response UID st hst) < MAX_LOG_LINE_LEN"
    and st: "resp_steps now (resp_begin isChunked info canCache) hs = Some r"
  shows "parseResponse now (message_text st hs body @ NUL # post) isChunked info canCache hst UID = do {
      b \<leftarrow> (if body_left r body \<noteq> 0 then restore (message_text st hs body @ LF # post) 0 LF
             else Some (message_text st hs body @ LF # post));
      Some \<lparr>rr_ret = max 0 (body_left r body), rr_buf = b, rr_chunked = rs_chunked r, rr_info = rs_info r,
        rr_canCache = (if rs_hasCC r then rs_canCache r else 0), rr_log = [log_response UID st hst]\<rparr> }"
proof -
  let ?m = "message_text st hs body"
  let ?s0 = "\<lparr>rl_buf = ?m @ NUL # post, rl_rest = Some 0, rl_lineNum = 0, rl_line = None,
         rl_st = \<lparr>rs_length = 0, rs_chunked = isChunked, rs_info = info, rs_hasCC = False,
           rs_canCache = canCache\<rparr>, rl_log = []\<rparr>"
  have n: "NUL \<notin> set st" "LF \<notin> set st" "NUL \<notin> set (unlines hs @ CR # LF # body)"
    "\<forall>l\<in>set hs. good_resp_header l" "2 \<le> length st" "NUL \<notin> set body" "NUL \<notin> set (unlines hs)"
    using g good_resp_unlines by (auto simp: good_response_def)
  have m: "?m = st @ LF # unlines hs @ CR # LF # body" by (simp add: message_text_def)
  have nm: "NUL \<notin> set ?m" using n by (simp add: m)
  have al0: "at_resp_line [] (st @ LF # unlines hs @ CR # LF # body) post ?s0"
    using n by (simp add: at_resp_line_def m)
  note f = response_first_line [OF n(1,2,3,5) al0 _ fit]
  define s1 where "s1 = ?s0\<lparr>rl_rest := Some (length (st @ [LF])), rl_lineNum := 1, rl_line := Some 0,
      rl_log := [log_response UID st hst]\<rparr>"
  have s1: "response_line now UID hst ?s0 = Some (Inr s1)"
    "at_resp_line (st @ [LF]) (unlines hs @ CR # LF # body) post s1"
    using f by (simp_all add: s1_def)
  have st1: "resp_steps now (rl_st s1) hs = Some r" using st by (simp add: s1_def resp_begin_def)
  have "0 < rl_lineNum s1" by (simp add: s1_def)
  from response_header_lines [OF s1(2) n(4) this st1, of UID hst] obtain s2 where s2:
    "response_lines now UID hst s1 = response_lines now UID hst s2"
    "at_resp_line ((st @ [LF]) @ unlines hs) (CR # LF # body) post s2"
    "rl_st s2 = r" "rl_log s2 = [log_response UID st hst]"
    by (auto simp: s1_def)
  define tx where "tx = st @ LF # unlines hs"
  have s2': "at_resp_line tx (CR # LF # body) post s2" using s2(2) by (simp add: tx_def)
  let ?s3 = "s2\<lparr>rl_buf := tx @ CR # NUL # body @ NUL # post,
      rl_rest := Some (length tx + 2), rl_lineNum := rl_lineNum s2 + 1, rl_line := Some (length tx)\<rparr>"
  have ls: "response_lines now UID hst ?s0 = Some ?s3"
    using s1(1) s2(1) response_line_blank [OF s2', of now UID hst]
    by (subst response_lines.simps, simp, subst response_lines.simps, simp)
  have len: "strlen (?m @ NUL # post) 0 = Some (length ?m)" using strlen_at [OF nm, of "[]" post] by simp
  have pk: "poke (tx @ CR # NUL # body @ NUL # post) (length tx + 1) LF = Some (?m @ NUL # post)"
    using poke_at [of "length tx + 1" tx "[CR]" NUL "body @ NUL # post" LF] by (simp add: m tx_def)
  have bl: "strlen (?m @ NUL # post) (length tx + 2) = Some (length body)"
    using strlen_at [OF n(6), of "tx @ [CR, LF]" post] by (simp add: m tx_def)
  have r0: "restore (?m @ NUL # post) 0 LF = Some (?m @ LF # post)"
    using restore_at [OF nm, of "[]" post LF] by simp
  have long: "\<not> length ?m \<le> 4" using n(5) by (simp add: m)
  show ?thesis
    using len long ls pk bl r0
    by (simp add: parseResponse_def s2(3,4) body_left_def max_def Let_def)
qed

end
