(* ===== verification/ParseResponse_Headers.thy ===== *)
theory ParseResponse_Headers
  imports ParseResponse_Spec
begin

text \<open>The headers that servers send: numbers and policies, and what they do to the state of the parser.\<close>

section \<open>Printing and reading decimal numbers\<close>

lemma nat_digits_digits: "c \<in> set (nat_digits n) \<Longrightarrow> isdigit c"
proof (induction n rule: nat_digits.induct)
  case (1 n)
  show ?case
  proof (cases "n < 10")
    case True
    with "1.prems" have "c = char_of (48 + n)" by (subst (asm) nat_digits.simps) simp
    with True show ?thesis by (simp add: isdigit_def)
  next
    case False
    with "1.prems" have "c \<in> set (nat_digits (n div 10)) \<or> c = char_of (48 + n mod 10)"
      by (subst (asm) nat_digits.simps) auto
    then show ?thesis
    proof
      assume "c = char_of (48 + n mod 10)"
      moreover have "48 + n mod 10 < 256" "n mod 10 \<le> 9" by (simp_all add: less_Suc_eq_le [symmetric])
      ultimately show ?thesis by (simp add: isdigit_def)
    qed (rule "1.IH" [OF False])
  qed
qed

lemma nat_digits_nonempty: "nat_digits n \<noteq> []"
  by (subst nat_digits.simps) simp

lemma digits_val_nat:
  "digits_val 0 (nat_digits n @ s) = digits_val (int n) s"
proof (induction n arbitrary: s rule: nat_digits.induct)
  case (1 n)
  show ?case
  proof (cases "n < 10")
    case True
    then have "isdigit (char_of (48 + n))" "digit_val (char_of (48 + n)) = int n"
      by (simp_all add: isdigit_def digit_val_def)
    with True show ?thesis by (subst nat_digits.simps) simp
  next
    case False
    have "n mod 10 < 10" by simp
    then have d: "isdigit (char_of (48 + n mod 10))" "digit_val (char_of (48 + n mod 10)) = int (n mod 10)"
      by (simp_all add: isdigit_def digit_val_def)
    have "digits_val 0 (nat_digits n @ s) =
        digits_val 0 (nat_digits (n div 10) @ char_of (48 + n mod 10) # s)"
      using False by (subst nat_digits.simps) simp
    also have "\<dots> = digits_val (10 * int (n div 10) + int (n mod 10)) s"
      unfolding "1.IH" [OF False] using d by simp
    also have "10 * int (n div 10) + int (n mod 10) = int n"
      by (metis mult_div_mod_eq of_nat_add of_nat_mult of_nat_numeral)
    finally show ?thesis .
  qed
qed

lemma strtol_nat_digits:
  assumes "int n \<le> long_max"
  shows "strtol (nat_digits n) = int n"
proof -
  obtain c r where e: "nat_digits n = c # r" using nat_digits_nonempty by (cases "nat_digits n") auto
  have "isdigit c" using nat_digits_digits [of c n] e by simp
  then have "\<not> isspace c" "c \<noteq> CHR ''-''" "c \<noteq> CHR ''+''"
    by (auto simp: isdigit_def isspace_def Let_def)
  moreover have "digits_val 0 (c # r) = int n" using digits_val_nat [of n "[]"] e by simp
  ultimately show ?thesis using assms
    by (simp add: strtol_def e Let_def max_def min_def long_max_def long_min_def)
qed

lemma to_int32_id: "- (2 ^ 31) \<le> x \<Longrightarrow> x < 2 ^ 31 \<Longrightarrow> to_int32 x = x"
  by (simp add: to_int32_def)

lemma atoi_nat_digits: "n < 2 ^ 31 \<Longrightarrow> atoi (nat_digits n) = int n"
  by (simp add: atoi_def strtol_nat_digits long_max_def to_int32_id)

section \<open>The header lines of a server\<close>

definition header :: "string \<Rightarrow> string \<Rightarrow> string" where
  "header nm v = nm @ '': '' @ v @ [CR]"

lemma header_parts:
  assumes "COLON \<notin> set nm"
  shows "header_name (header nm v) = nm" "header_value (header nm v) = SP # v @ [CR]"
  using assms by (simp_all add: header_def header_name_def header_value_def takeWhile_split)

definition plain :: "string \<Rightarrow> bool" where
  "plain v \<longleftrightarrow> CR \<notin> set v \<and> LF \<notin> set v \<and> NUL \<notin> set v"

lemma good_header_plain:
  assumes "COLON \<notin> set nm" "plain nm" "plain v" "\<not> strcaseeq nm ''Cache-Control''"
  shows "good_resp_header (header nm v)"
  using assms header_parts [OF assms(1), of v]
  by (auto simp: good_resp_header_def names_def plain_def, auto simp: header_def)

lemma plain_nat_digits: "plain (nat_digits n)"
proof -
  have "\<not> isdigit CR" "\<not> isdigit LF" "\<not> isdigit NUL" by (simp_all add: isdigit_def)
  then show ?thesis unfolding plain_def using nat_digits_digits [of _ n] by blast
qed

text \<open>The policies of a list, separated by a comma and a blank.\<close>

fun policy_list :: "string list \<Rightarrow> string" where
  "policy_list [] = []"
| "policy_list [p] = p"
| "policy_list (p # ps) = p @ '', '' @ policy_list ps"

definition policy_word :: "string \<Rightarrow> bool" where
  "policy_word p \<longleftrightarrow> p \<noteq> [] \<and> COMMA \<notin> set p \<and> plain p"

lemma policy_list_tokens:
  assumes "ps \<noteq> []" "\<forall>p\<in>set ps. policy_word p"
  shows "split_on COMMA (SP # policy_list ps @ [CR]) =
    map ((#) SP) (butlast ps) @ [SP # last ps @ [CR]]"
  using assms
proof (induction ps rule: policy_list.induct)
  case (2 p)
  then have "COMMA \<notin> set (SP # p @ [CR])" by (simp add: policy_word_def)
  from split_on_miss [OF this] show ?case by simp
next
  case (3 p q qs)
  then have "COMMA \<notin> set (SP # p)" by (simp add: policy_word_def)
  from split_on_hit [OF this, of "SP # policy_list (q # qs) @ [CR]"] 3 show ?case by simp
qed simp

lemma policy_words:
  assumes "ps \<noteq> []" "\<forall>p\<in>set ps. policy_word p"
  shows "map policy_of (map ((#) SP) (butlast ps) @ [SP # last ps @ [CR]]) = ps"
    and "\<forall>t\<in>set (map ((#) SP) (butlast ps) @ [SP # last ps @ [CR]]). good_policy t"
proof -
  have "policy_of (SP # p) = p" "good_policy (SP # p)" if "p \<in> set ps" for p
  proof -
    have p: "policy_word p" using assms that by blast
    then have "p \<noteq> []" "last p \<noteq> CR" by (auto simp: policy_word_def plain_def dest: last_in_set)
    then show "policy_of (SP # p) = p" by (simp add: policy_of_def)
    show "good_policy (SP # p)" using p by (cases p) (auto simp: good_policy_def policy_word_def plain_def dest: in_set_butlastD)
  qed
  moreover have "policy_of (SP # p @ [CR]) = p" for p by (simp add: policy_of_def)
  moreover have "good_policy (SP # p @ [CR])" if "policy_word p" for p
    using that by (auto simp: good_policy_def policy_word_def plain_def butlast_append Suc_le_eq)
  moreover have "map (policy_of \<circ> (#) SP) (butlast ps) = butlast ps"
    using calculation(1) by (auto intro!: map_idI dest: in_set_butlastD)
  ultimately show "map policy_of (map ((#) SP) (butlast ps) @ [SP # last ps @ [CR]]) = ps"
    and "\<forall>t\<in>set (map ((#) SP) (butlast ps) @ [SP # last ps @ [CR]]). good_policy t"
    using assms by (auto dest: in_set_butlastD)
qed

text \<open>The policies one after another, on the words themselves.\<close>

fun apply_policies :: "int \<Rightarrow> string list \<Rightarrow> resp_info \<Rightarrow> (int \<times> resp_info) option" where
  "apply_policies now [] info = Some (1, info)"
| "apply_policies now (p # ps) info = do {
     r \<leftarrow> apply_policy now p info;
     (case r of None \<Rightarrow> Some (0, info) | Some info' \<Rightarrow> apply_policies now ps info') }"

lemma policies_words: "policies now ts info = apply_policies now (map policy_of ts) info"
proof (induction ts arbitrary: info)
  case (Cons t ts)
  then show ?case
    by (cases "apply_policy now (policy_of t) info") (auto split: option.split)
qed simp

lemma cache_control_header:
  assumes "ps \<noteq> []" "\<forall>p\<in>set ps. policy_word p"
  shows "good_resp_header (header ''Cache-Control'' (policy_list ps))"
    and "resp_step now r (header ''Cache-Control'' (policy_list ps)) = do {
       (can, info) \<leftarrow> apply_policies now ps (cache_start (rs_info r));
       Some (r\<lparr>rs_hasCC := True, rs_canCache := can, rs_info := info\<rparr>) }"
proof -
  let ?h = "header ''Cache-Control'' (policy_list ps)"
  have hp: "header_name ?h = ''Cache-Control''" "header_value ?h = SP # policy_list ps @ [CR]"
    by (simp_all add: header_parts)
  note tok = policy_list_tokens [OF assms] and pw = policy_words [OF assms]
  have "plain (policy_list ps)" using assms
    by (induction ps rule: policy_list.induct) (auto simp: plain_def policy_word_def)
  moreover have "names ?h ''Cache-Control''" by (simp add: names_def hp)
  ultimately show "good_resp_header ?h"
    using pw(2) hp by (auto simp: good_resp_header_def tok plain_def, auto simp: header_def)
  show "resp_step now r ?h = do {
       (can, info) \<leftarrow> apply_policies now ps (cache_start (rs_info r));
       Some (r\<lparr>rs_hasCC := True, rs_canCache := can, rs_info := info\<rparr>) }"
    by (simp only: resp_step_def names_def hp tok policies_words pw(1) Let_def)
      (simp add: strcaseeq_def tolower_def)
qed

section \<open>Folds over header lines\<close>

lemma resp_steps_append:
  "resp_steps now r (hs @ hs') = do { r' \<leftarrow> resp_steps now r hs; resp_steps now r' hs' }"
  by (induction hs arbitrary: r) simp_all

definition sets_length :: "string \<Rightarrow> bool" where
  "sets_length l \<longleftrightarrow> names l ''Content-Length'' \<or> names l ''Transfer-Encoding''"

definition sets_policy :: "string \<Rightarrow> bool" where
  "sets_policy l \<longleftrightarrow> names l ''Cache-Control''"

definition sets_etag :: "string \<Rightarrow> bool" where
  "sets_etag l \<longleftrightarrow> strncaseeq (header_name l) ''ETag'' 4"

lemma resp_step_keeps:
  assumes "resp_step now r l = Some r'"
  shows "\<not> sets_length l \<Longrightarrow> rs_length r' = rs_length r \<and> rs_chunked r' = rs_chunked r"
    and "\<not> sets_policy l \<Longrightarrow> rs_hasCC r' = rs_hasCC r \<and> rs_canCache r' = rs_canCache r \<and>
      ri_needs (rs_info r') = ri_needs (rs_info r) \<and> ri_expiry (rs_info r') = ri_expiry (rs_info r)"
    and "\<not> sets_policy l \<Longrightarrow> \<not> sets_etag l \<Longrightarrow> ri_etag (rs_info r') = ri_etag (rs_info r)"
  using assms
  by (auto simp: resp_step_def Let_def sets_length_def sets_policy_def sets_etag_def names_def
      elim!: bind_SomeE split: if_splits)

lemma resp_steps_keep:
  assumes "resp_steps now r hs = Some r'"
  shows "\<forall>l\<in>set hs. \<not> sets_length l \<Longrightarrow> rs_length r' = rs_length r \<and> rs_chunked r' = rs_chunked r"
    and "\<forall>l\<in>set hs. \<not> sets_policy l \<Longrightarrow> rs_hasCC r' = rs_hasCC r \<and> rs_canCache r' = rs_canCache r \<and>
      ri_needs (rs_info r') = ri_needs (rs_info r) \<and> ri_expiry (rs_info r') = ri_expiry (rs_info r)"
    and "\<forall>l\<in>set hs. \<not> sets_policy l \<and> \<not> sets_etag l \<Longrightarrow> ri_etag (rs_info r') = ri_etag (rs_info r)"
proof -
  have "(\<forall>l\<in>set hs. \<not> sets_length l) \<longrightarrow> rs_length r' = rs_length r \<and> rs_chunked r' = rs_chunked r"
    using assms by (induction hs arbitrary: r) (auto elim!: bind_SomeE dest!: resp_step_keeps(1))
  then show "\<forall>l\<in>set hs. \<not> sets_length l \<Longrightarrow> rs_length r' = rs_length r \<and> rs_chunked r' = rs_chunked r" by blast
  have "(\<forall>l\<in>set hs. \<not> sets_policy l) \<longrightarrow> rs_hasCC r' = rs_hasCC r \<and> rs_canCache r' = rs_canCache r \<and>
      ri_needs (rs_info r') = ri_needs (rs_info r) \<and> ri_expiry (rs_info r') = ri_expiry (rs_info r)"
    using assms by (induction hs arbitrary: r) (auto elim!: bind_SomeE dest!: resp_step_keeps(2))
  then show "\<forall>l\<in>set hs. \<not> sets_policy l \<Longrightarrow> rs_hasCC r' = rs_hasCC r \<and> rs_canCache r' = rs_canCache r \<and>
      ri_needs (rs_info r') = ri_needs (rs_info r) \<and> ri_expiry (rs_info r') = ri_expiry (rs_info r)" by blast
  have "(\<forall>l\<in>set hs. \<not> sets_policy l \<and> \<not> sets_etag l) \<longrightarrow> ri_etag (rs_info r') = ri_etag (rs_info r)"
    using assms by (induction hs arbitrary: r) (auto elim!: bind_SomeE dest!: resp_step_keeps(3))
  then show "\<forall>l\<in>set hs. \<not> sets_policy l \<and> \<not> sets_etag l \<Longrightarrow> ri_etag (rs_info r') = ri_etag (rs_info r)" by blast
qed

text \<open>The only fault of a well-formed header is a \<open>max-age\<close> beyond the calendar.\<close>

definition modest_policy :: "string \<Rightarrow> bool" where
  "modest_policy p \<longleftrightarrow> (strncaseeq p ''max-age='' 8 \<longrightarrow> \<bar>strtol (drop 8 p)\<bar> \<le> 10 ^ 12)"

definition modest_header :: "string \<Rightarrow> bool" where
  "modest_header l \<longleftrightarrow> (sets_policy l \<longrightarrow> (\<forall>t\<in>set (split_on COMMA (header_value l)). modest_policy (policy_of t)))"

definition clock_ok :: "int \<Rightarrow> bool" where
  "clock_ok now \<longleftrightarrow> \<bar>now\<bar> \<le> 10 ^ 12"

lemma apply_policy_total:
  assumes "clock_ok now" "modest_policy p"
  shows "\<exists>r. apply_policy now p info = Some r"
proof -
  have "\<exists>e. getTimeFromExpiry now (strtol (drop 8 p)) = Some e" if "strncaseeq p ''max-age='' 8"
    using assms that by (intro getTimeFromExpiry_defined) (auto simp: clock_ok_def modest_policy_def)
  then show ?thesis by (auto simp: apply_policy_def)
qed

lemma apply_policies_total:
  assumes "clock_ok now" "\<forall>p\<in>set ps. modest_policy p"
  shows "\<exists>can info'. apply_policies now ps info = Some (can, info') \<and>
    (can = (if \<exists>p\<in>set ps. strcaseeq p ''no-store'' \<or> p = ''private'' then 0 else 1))"
  using assms(2)
proof (induction ps arbitrary: info)
  case (Cons p ps)
  obtain r where r: "apply_policy now p info = Some r"
    using apply_policy_total [OF assms(1), of p info] Cons.prems by auto
  then have forbid: "r = None \<longleftrightarrow> strcaseeq p ''no-store'' \<or> p = ''private''"
    by (auto simp: apply_policy_def elim!: bind_SomeE split: if_splits)
  show ?case
  proof (cases r)
    case None
    then show ?thesis using r forbid by auto
  next
    case (Some info1)
    then show ?thesis using r forbid Cons.IH [of info1] Cons.prems by auto
  qed
qed simp

lemma resp_steps_total:
  assumes "clock_ok now" "\<forall>l\<in>set hs. modest_header l"
  shows "\<exists>r'. resp_steps now r hs = Some r'"
  using assms(2)
proof (induction hs arbitrary: r)
  case (Cons l hs)
  have "\<exists>r'. resp_step now r l = Some r'"
  proof (cases "sets_policy l")
    case True
    then have "\<forall>p\<in>set (map policy_of (split_on COMMA (header_value l))). modest_policy p"
      using Cons.prems by (auto simp: modest_header_def)
    from apply_policies_total [OF assms(1) this, of "cache_start (rs_info r)"]
    show ?thesis by (auto simp: resp_step_def Let_def policies_words)
  qed (auto simp: resp_step_def Let_def sets_policy_def)
  then show ?case using Cons by auto
qed simp

lemma apply_policies_etag:
  "apply_policies now ps info = Some (can, info') \<Longrightarrow> ri_etag info' = ri_etag info"
proof (induction ps arbitrary: info)
  case (Cons p ps)
  have e: "ri_etag i = ri_etag info" if "apply_policy now p info = Some (Some i)" for i
    using that by (auto simp: apply_policy_def elim!: bind_SomeE split: if_splits)
  show ?case using Cons by (auto elim!: bind_SomeE dest: e split: option.splits)
qed simp

text \<open>Lines that run out before a blank line leave the loop with \<open>line = NULL\<close>.\<close>

lemma response_line_end:
  assumes al: "at_resp_line tx [] post s" and n: "0 < rl_lineNum s"
    and r: "response_lines now UID hst s = Some s'"
  shows "rl_line s' = None"
proof -
  have sep: "strsep (rl_buf s) (rl_rest s) LF = Some (Some (length tx), None, tx @ NUL # post)"
    using al strsep_miss [of "[]" LF tx post] by (simp add: at_resp_line_def)
  have c: "cstr (tx @ NUL # post) (length tx) = Some []" using cstr_at [of "[]" tx post] by simp
  have fin: "response_lines now UID hst s1 = Some (s1\<lparr>rl_line := None\<rparr>)" if "rl_rest s1 = None" for s1
    using that by (subst response_lines.simps) (simp add: response_line_def)
  have "\<not> strcaseeq [] [CR]" by (simp add: strcaseeq_def)
  then have "\<exists>s1. response_line now UID hst s = Some (Inr s1) \<and> rl_rest s1 = None"
    using r n by (subst (asm) response_lines.simps)
      (auto simp: response_line_def sep c Let_def elim!: bind_SomeE)
  then obtain s1 where "response_line now UID hst s = Some (Inr s1)" "rl_rest s1 = None" by blast
  then show ?thesis using r fin [of s1] by (subst (asm) response_lines.simps) auto
qed

lemma response_lines_unterminated:
  assumes "at_resp_line tx (unlines hs @ []) post s" "0 < rl_lineNum s" "\<forall>l\<in>set hs. good_resp_header l"
    "response_lines now UID hst s = Some s'"
  shows "rl_line s' = None"
  using assms
proof (induction hs arbitrary: tx s)
  case Nil
  then show ?case using response_line_end [of tx post s now UID hst s'] by (simp add: unlines_def)
next
  case (Cons l hs)
  have al: "at_resp_line tx (l @ LF # unlines hs) post s" and g: "good_resp_header l"
    using Cons.prems by (simp_all add: unlines_def)
  show ?case
  proof (cases "resp_step now (rl_st s) l")
    case None
    then have "response_line now UID hst s = None" by (rule response_line_fault [OF al g Cons.prems(2)])
    then show ?thesis using Cons.prems(4) by (subst (asm) response_lines.simps) simp
  next
    case (Some r')
    note nh = response_line_header [OF al g Cons.prems(2) Some]
    then show ?thesis
      using Cons.IH [of "tx @ l @ [LF]"] Cons.prems(3,4)
      by (subst (asm) response_lines.simps) (simp add: nh(1))
  qed
qed

lemma last_policies_decide:
  assumes "resp_steps now r0 (hs1 @ header ''Cache-Control'' (policy_list ps) # hs2) = Some r" "clock_ok now"
    and "\<forall>l\<in>set hs2. \<not> sets_policy l" "ps \<noteq> []" "\<forall>p\<in>set ps. policy_word p \<and> modest_policy p"
  shows "rs_hasCC r" "rs_canCache r = (if \<exists>p\<in>set ps. strcaseeq p ''no-store'' \<or> p = ''private'' then 0 else 1)"
proof -
  obtain r1 r2 where r2: "resp_step now r1 (header ''Cache-Control'' (policy_list ps)) = Some r2"
    "resp_steps now r2 hs2 = Some r" using assms(1) by (auto simp: resp_steps_append elim!: bind_SomeE)
  have ps: "\<forall>p\<in>set ps. policy_word p" "\<forall>p\<in>set ps. modest_policy p" using assms(5) by auto
  define can :: int where "can = (if \<exists>p\<in>set ps. strcaseeq p ''no-store'' \<or> p = ''private'' then 0 else 1)"
  obtain info' where "apply_policies now ps (cache_start (rs_info r1)) = Some (can, info')"
    using apply_policies_total [OF assms(2) ps(2), of "cache_start (rs_info r1)"] can_def by blast
  then have "rs_hasCC r2 \<and> rs_canCache r2 = can"
    using r2(1) by (auto simp: cache_control_header(2) [OF assms(4) ps(1)])
  then show "rs_hasCC r" "rs_canCache r = (if \<exists>p\<in>set ps. strcaseeq p ''no-store'' \<or> p = ''private'' then 0 else 1)"
    using resp_steps_keep(2) [OF r2(2) assms(3)] can_def by simp_all
qed

end
