(* ===== verification/ParseResponse_Props.thy ===== *)
theory ParseResponse_Props
  imports ParseResponse_Headers
begin

text \<open>The properties of response parsing.\<close>

text \<open>
  A response: well-formed, with a status line that fits the log message and no \<open>max-age\<close>
  beyond the calendar.
\<close>

definition response_ok :: "string \<Rightarrow> string \<Rightarrow> string \<Rightarrow> string list \<Rightarrow> string \<Rightarrow> bool" where
  "response_ok UID hst st hs body \<longleftrightarrow> good_response st hs body \<and> (\<forall>l\<in>set hs. modest_header l) \<and>
     length (log_response UID st hst) < MAX_LOG_LINE_LEN"

lemma response_parsed_rest:
  assumes "response_ok UID hst st hs body" "clock_ok now" "NUL \<in> set post"
  shows "\<exists>r b. resp_steps now (resp_begin isChunked info canCache) hs = Some r \<and>
    parseResponse now (message_text st hs body @ NUL # post) isChunked info canCache hst UID =
      Some \<lparr>rr_ret = max 0 (body_left r body), rr_buf = message_text st hs body @ LF # b,
        rr_chunked = rs_chunked r, rr_info = rs_info r,
        rr_canCache = (if rs_hasCC r then rs_canCache r else 0), rr_log = [log_response UID st hst]\<rparr> \<and>
    (\<forall>v. post = NUL # NUL # v \<longrightarrow> NUL \<in> set b)"
proof -
  have a: "good_response st hs body" "\<forall>l\<in>set hs. modest_header l"
    "length (log_response UID st hst) < MAX_LOG_LINE_LEN"
    using assms(1) by (simp_all add: response_ok_def)
  obtain r where r: "resp_steps now (resp_begin isChunked info canCache) hs = Some r"
    using resp_steps_total [OF assms(2) a(2)] by blast
  obtain w q where post: "post = w @ NUL # q" "NUL \<notin> set w" using assms(3) by (rule split_list_at)
  have n: "NUL \<notin> set (message_text st hs body)"
    using a(1) good_resp_unlines by (auto simp: good_response_def message_text_def)
  have "restore (message_text st hs body @ LF # post) 0 LF =
      Some (message_text st hs body @ LF # w @ LF # q)"
    using restore_at [of "message_text st hs body @ LF # w" "[]" q LF] n post by simp
  moreover have "NUL \<in> set q" if "post = NUL # NUL # v" for v
    using that post by (cases w) auto
  ultimately show ?thesis using parseResponse_text [OF a(1,3) r, of post] r
    by (intro exI [of _ r] exI [of _ "if body_left r body \<noteq> 0 then w @ LF # q else post"]) auto
qed

lemma response_parsed:
  assumes "response_ok UID hst st hs body" "clock_ok now" "NUL \<in> set post"
  obtains r b where "resp_steps now (resp_begin isChunked info canCache) hs = Some r"
    and "parseResponse now (message_text st hs body @ NUL # post) isChunked info canCache hst UID =
      Some \<lparr>rr_ret = max 0 (body_left r body), rr_buf = message_text st hs body @ LF # b,
        rr_chunked = rs_chunked r, rr_info = rs_info r,
        rr_canCache = (if rs_hasCC r then rs_canCache r else 0), rr_log = [log_response UID st hst]\<rparr>"
  using response_parsed_rest [OF assms, of isChunked info canCache] by blast

definition page_ok :: string where "page_ok = ''HTTP/1.1 200 OK'' @ [CR]"

lemma page_response_ok:
  assumes "\<forall>l\<in>set hs. good_resp_header l \<and> modest_header l" "NUL \<notin> set body"
  shows "response_ok ''7'' ''h'' page_ok hs body"
  using assms
  by (simp add: response_ok_def good_response_def page_ok_def log_response_def MAX_LOG_LINE_LEN_def)

section \<open>The length of the body\<close>


lemma sample_length: "good_resp_header (header ''Content-Length'' (nat_digits 100))"
  "modest_header (header ''Content-Length'' (nat_digits 100))"
  by (rule good_header_plain)
    (simp_all add: plain_nat_digits modest_header_def sets_policy_def names_def header_parts
      strcaseeq_def tolower_def, simp_all add: plain_def)


text \<open>When the first reads end exactly at the blank line, \<open>parseResponse\<close> reports that nothing is
  left of the body, whatever \<open>Content-Length\<close> announced: the body is then never forwarded.\<close>

theorem empty_first_read:
  assumes "response_ok UID hst st hs []" "clock_ok now" "NUL \<in> set post"
  shows "\<exists>res. parseResponse now (message_text st hs [] @ NUL # post) isChunked info canCache hst UID = Some res \<and>
    rr_ret res = 0"
proof -
  obtain r b where "parseResponse now (message_text st hs [] @ NUL # post) isChunked info canCache hst UID =
      Some \<lparr>rr_ret = max 0 (body_left r []), rr_buf = message_text st hs [] @ LF # b,
        rr_chunked = rs_chunked r, rr_info = rs_info r,
        rr_canCache = (if rs_hasCC r then rs_canCache r else 0), rr_log = [log_response UID st hst]\<rparr>"
    using assms by (rule response_parsed)
  then show ?thesis by (simp add: body_left_def)
qed

theorem empty_first_read_witness:
  "\<exists>res. parseResponse 1700000000
      (message_text page_ok [header ''Content-Length'' (nat_digits 100)] [] @ NUL # [NUL])
      (-1) no_info 1 ''h'' ''7'' = Some res \<and> rr_ret res = 0"
  by (rule empty_first_read [OF page_response_ok]) (use sample_length in \<open>simp_all add: clock_ok_def\<close>)

text \<open>The first zero byte of a binary body is overwritten by a newline, in the buffer that is then
  written to the client.\<close>

theorem zero_byte_replaced:
  assumes "response_ok UID hst st hs body" "clock_ok now" "NUL \<in> set post"
  shows "\<exists>res. parseResponse now (message_text st hs body @ NUL # post) isChunked info canCache hst UID = Some res \<and>
    rr_buf res ! length (message_text st hs body) = LF"
proof -
  obtain r b where "parseResponse now (message_text st hs body @ NUL # post) isChunked info canCache hst UID =
      Some \<lparr>rr_ret = max 0 (body_left r body), rr_buf = message_text st hs body @ LF # b,
        rr_chunked = rs_chunked r, rr_info = rs_info r,
        rr_canCache = (if rs_hasCC r then rs_canCache r else 0), rr_log = [log_response UID st hst]\<rparr>"
    using assms by (rule response_parsed)
  then show ?thesis by (simp add: nth_append)
qed

theorem zero_byte_replaced_witness:
  "\<exists>res. parseResponse 1700000000 (message_text page_ok [] ''GIF'' @ NUL # [CHR ''x'', NUL])
      (-1) no_info 1 ''h'' ''7'' = Some res \<and>
    rr_buf res ! length (message_text page_ok [] ''GIF'') = LF"
  by (rule zero_byte_replaced [OF page_response_ok]) (simp_all add: clock_ok_def)

section \<open>The decision to cache\<close>

text \<open>C12: for a last \<open>Cache-Control\<close> header whose policies are separated by a comma and a blank, the decision to
  cache follows these policies: it is refused exactly when \<open>no-store\<close> (in any case) or \<open>private\<close> (in lower
  case) is among them. (Without the blank a policy loses its first letter and is not recognised.)\<close>

theorem caching_decision:
  assumes "response_ok UID hst st (hs1 @ header ''Cache-Control'' (policy_list ps) # hs2) body"
    and "clock_ok now" "NUL \<in> set post" "\<forall>l\<in>set hs2. \<not> sets_policy l"
    and "ps \<noteq> []" "\<forall>p\<in>set ps. policy_word p \<and> modest_policy p"
  shows "\<exists>res. parseResponse now (message_text st (hs1 @ header ''Cache-Control'' (policy_list ps) # hs2) body @ NUL # post)
      isChunked info canCache hst UID = Some res \<and>
    rr_canCache res = (if \<exists>p\<in>set ps. strcaseeq p ''no-store'' \<or> p = ''private'' then 0 else 1)"
proof -
  let ?l = "header ''Cache-Control'' (policy_list ps)"
  obtain r b where r: "resp_steps now (resp_begin isChunked info canCache) (hs1 @ ?l # hs2) = Some r"
    and p: "parseResponse now (message_text st (hs1 @ ?l # hs2) body @ NUL # post) isChunked info canCache hst UID =
      Some \<lparr>rr_ret = max 0 (body_left r body), rr_buf = message_text st (hs1 @ ?l # hs2) body @ LF # b,
        rr_chunked = rs_chunked r, rr_info = rs_info r,
        rr_canCache = (if rs_hasCC r then rs_canCache r else 0), rr_log = [log_response UID st hst]\<rparr>"
    using assms(1-3) by (rule response_parsed)
  show ?thesis using p last_policies_decide [OF r assms(2,4-6)] by simp
qed

lemma sample_policies:
  "policy_word ''public''" "policy_word ''no-store''" "policy_word ''public,no-store'' \<longleftrightarrow> False"
  "modest_policy ''public''" "modest_policy ''no-store''"
  by (simp_all add: policy_word_def plain_def modest_policy_def strncaseeq_def tolower_def)

lemma cache_control_modest:
  assumes "ps \<noteq> []" "\<forall>p\<in>set ps. policy_word p \<and> modest_policy p"
  shows "modest_header (header ''Cache-Control'' (policy_list ps))"
proof -
  have w: "\<forall>p\<in>set ps. policy_word p" using assms(2) by blast
  define ts where "ts = split_on COMMA (header_value (header ''Cache-Control'' (policy_list ps)))"
  have hv: "header_value (header ''Cache-Control'' (policy_list ps)) = SP # policy_list ps @ [CR]"
    by (simp add: header_parts)
  have ts: "map policy_of ts = ps"
    unfolding ts_def hv policy_list_tokens [OF assms(1) w] by (rule policy_words(1) [OF assms(1) w])
  have "policy_of t \<in> set ps" if "t \<in> set ts" for t
    using imageI [OF that, of policy_of] ts by (metis list.set_map)
  with assms(2) show ?thesis unfolding modest_header_def ts_def by blast
qed

theorem caching_decision_witness:
  "\<exists>res. parseResponse 1700000000 (message_text page_ok
      [header ''Cache-Control'' (policy_list [''public'', ''no-store''])] [] @ NUL # [NUL])
      (-1) no_info 1 ''h'' ''7'' = Some res \<and> rr_canCache res = 0"
proof -
  let ?ps = "[''public'', ''no-store'']"
  have w: "\<forall>p\<in>set ?ps. policy_word p \<and> modest_policy p" "\<forall>p\<in>set ?ps. policy_word p"
    using sample_policies by auto
  have ok: "response_ok ''7'' ''h'' page_ok ([] @ header ''Cache-Control'' (policy_list ?ps) # []) []"
    using cache_control_header(1) [OF _ w(2)] cache_control_modest [OF _ w(1)]
    by (intro page_response_ok) simp_all
  show ?thesis
    using caching_decision [OF ok, of 1700000000 "[NUL]" "-1" no_info 1] w by (simp add: clock_ok_def)
qed

text \<open>Without a \<open>Cache-Control\<close> header a response is never cached, whatever else it says.\<close>

theorem no_policy_no_caching:
  assumes "response_ok UID hst st hs body" "clock_ok now" "NUL \<in> set post" "\<forall>l\<in>set hs. \<not> sets_policy l"
  shows "\<exists>res. parseResponse now (message_text st hs body @ NUL # post) isChunked info canCache hst UID = Some res \<and>
    rr_canCache res = 0"
proof -
  obtain r b where r: "resp_steps now (resp_begin isChunked info canCache) hs = Some r"
    and p: "parseResponse now (message_text st hs body @ NUL # post) isChunked info canCache hst UID =
      Some \<lparr>rr_ret = max 0 (body_left r body), rr_buf = message_text st hs body @ LF # b,
        rr_chunked = rs_chunked r, rr_info = rs_info r,
        rr_canCache = (if rs_hasCC r then rs_canCache r else 0), rr_log = [log_response UID st hst]\<rparr>"
    using assms(1-3) by (rule response_parsed)
  show ?thesis using p resp_steps_keep(2) [OF r assms(4)] by (simp add: resp_begin_def)
qed

theorem no_policy_no_caching_witness:
  "\<exists>res. parseResponse 1700000000
      (message_text page_ok [header ''Content-Length'' (nat_digits 100)] ''x'' @ NUL # [NUL])
      (-1) no_info 1 ''h'' ''7'' = Some res \<and> rr_canCache res = 0"
  by (rule no_policy_no_caching [OF page_response_ok])
    (use sample_length in \<open>simp_all add: clock_ok_def sets_policy_def names_def header_parts strcaseeq_def tolower_def\<close>)

lemma known_policies:
  "apply_policy now ''public'' info = Some (Some info)"
  "apply_policy now ''no-cache'' info = Some (Some (info\<lparr>ri_needs := Some 1\<rparr>))"
  "apply_policy now ''must-revalidate'' info = Some (Some (info\<lparr>ri_needs := Some 1\<rparr>))"
  by (simp_all add: apply_policy_def strcaseeq_def strncaseeq_def tolower_def)

text \<open>C40: a policy that follows its comma without a blank loses its first letter: a response marked
  \<open>public,no-store\<close> (in the usual spelling) is stored.\<close>

theorem unspaced_no_store_cached:
  assumes "response_ok UID hst st (hs1 @ header ''Cache-Control'' (p @ '',no-store'') # hs2) body"
    and "clock_ok now" "NUL \<in> set post" "\<forall>l\<in>set hs2. \<not> sets_policy l"
    and "policy_word p" "p = ''public'' \<or> p = ''no-cache'' \<or> p = ''must-revalidate''"
  shows "\<exists>res. parseResponse now (message_text st (hs1 @ header ''Cache-Control'' (p @ '',no-store'') # hs2) body
      @ NUL # post) isChunked info canCache hst UID = Some res \<and> rr_canCache res = 1"
proof -
  let ?l = "header ''Cache-Control'' (p @ '',no-store'')"
  obtain r b where r: "resp_steps now (resp_begin isChunked info canCache) (hs1 @ ?l # hs2) = Some r"
    and p: "parseResponse now (message_text st (hs1 @ ?l # hs2) body @ NUL # post) isChunked info canCache hst UID =
      Some \<lparr>rr_ret = max 0 (body_left r body), rr_buf = message_text st (hs1 @ ?l # hs2) body @ LF # b,
        rr_chunked = rs_chunked r, rr_info = rs_info r,
        rr_canCache = (if rs_hasCC r then rs_canCache r else 0), rr_log = [log_response UID st hst]\<rparr>"
    using assms(1-3) by (rule response_parsed)
  from r obtain r1 r2 where r2: "resp_step now r1 ?l = Some r2" "resp_steps now r2 hs2 = Some r"
    by (auto simp: resp_steps_append elim!: bind_SomeE)
  have nm: "names ?l ''Cache-Control''" "\<not> names ?l ''Content-Length''"
    by (simp_all add: names_def header_parts strcaseeq_def tolower_def)
  have "COMMA \<notin> set (SP # p)" using assms(5) by (simp add: policy_word_def)
  from split_on_hit [OF this, of "''no-store'' @ [CR]"]
  have "split_on COMMA (header_value ?l) = [SP # p, ''no-store'' @ [CR]]"
    by (simp add: header_parts split_on_miss)
  moreover have "policy_of (SP # p) = p" "policy_of (''no-store'' @ [CR]) = ''o-store''"
    using assms(6) by (auto simp: policy_of_def)
  moreover obtain i where "apply_policy now p (cache_start (rs_info r1)) = Some (Some i)"
    using known_policies assms(6) by metis
  moreover have "apply_policy now ''o-store'' i = Some (Some i)"
    by (simp add: apply_policy_def strcaseeq_def strncaseeq_def tolower_def)
  ultimately have "rs_hasCC r2 \<and> rs_canCache r2 = 1"
    using r2(1) nm by (auto simp: resp_step_def Let_def)
  then show ?thesis using p resp_steps_keep(2) [OF r2(2) assms(4)] by simp
qed

text \<open>An \<open>ETag\<close> that comes before the (last) \<open>Cache-Control\<close> header is forgotten: the block of the
  response has no tag, so it can never be revalidated.\<close>

theorem etag_before_policy_lost:
  assumes "response_ok UID hst st (hs1 @ header ''Cache-Control'' (policy_list ps) # hs2) body"
    and "clock_ok now" "NUL \<in> set post" "\<forall>l\<in>set hs2. \<not> sets_policy l \<and> \<not> sets_etag l"
    and "ps \<noteq> []" "\<forall>p\<in>set ps. policy_word p"
  shows "\<exists>res. parseResponse now (message_text st (hs1 @ header ''Cache-Control'' (policy_list ps) # hs2) body @ NUL # post)
      isChunked info canCache hst UID = Some res \<and> ri_etag (rr_info res) = Some None"
proof -
  let ?l = "header ''Cache-Control'' (policy_list ps)"
  obtain r b where r: "resp_steps now (resp_begin isChunked info canCache) (hs1 @ ?l # hs2) = Some r"
    and p: "parseResponse now (message_text st (hs1 @ ?l # hs2) body @ NUL # post) isChunked info canCache hst UID =
      Some \<lparr>rr_ret = max 0 (body_left r body), rr_buf = message_text st (hs1 @ ?l # hs2) body @ LF # b,
        rr_chunked = rs_chunked r, rr_info = rs_info r,
        rr_canCache = (if rs_hasCC r then rs_canCache r else 0), rr_log = [log_response UID st hst]\<rparr>"
    using assms(1-3) by (rule response_parsed)
  from r obtain r1 r2 where r2: "resp_step now r1 ?l = Some r2" "resp_steps now r2 hs2 = Some r"
    by (auto simp: resp_steps_append elim!: bind_SomeE)
  obtain can i where i: "apply_policies now ps (cache_start (rs_info r1)) = Some (can, i)"
    and "r2 = r1\<lparr>rs_hasCC := True, rs_canCache := can, rs_info := i\<rparr>"
    using r2(1) by (auto simp: cache_control_header(2) [OF assms(5,6)] elim!: bind_SomeE)
  then have "ri_etag (rs_info r2) = Some None"
    using apply_policies_etag [OF i] by (simp add: cache_start_def)
  then show ?thesis using p resp_steps_keep(3) [OF r2(2) assms(4)] by simp
qed

text \<open>A response whose headers are not complete after the first reads (no blank line among them)
  makes the parser write through a NULL pointer.\<close>

theorem truncated_headers_fault:
  assumes g: "good_response st hs []" "4 < length st" and fit: "length (log_response UID st hst) < MAX_LOG_LINE_LEN"
  shows "parseResponse now (st @ LF # unlines hs @ NUL # post) isChunked info canCache hst UID = None"
proof -
  let ?b = "st @ LF # unlines hs @ NUL # post"
  let ?s0 = "\<lparr>rl_buf = ?b, rl_rest = Some 0, rl_lineNum = 0, rl_line = None,
         rl_st = \<lparr>rs_length = 0, rs_chunked = isChunked, rs_info = info, rs_hasCC = False,
           rs_canCache = canCache\<rparr>, rl_log = []\<rparr>"
  have n: "NUL \<notin> set st" "LF \<notin> set st" "NUL \<notin> set (unlines hs)" "2 \<le> length st"
    "\<forall>l\<in>set hs. good_resp_header l"
    using g good_resp_unlines by (auto simp: good_response_def)
  have al0: "at_resp_line [] (st @ LF # unlines hs) post ?s0" using n by (simp add: at_resp_line_def)
  note f = response_first_line [OF n(1,2,3,4) al0 _ fit]
  have "rl_line s = None" if "response_lines now UID hst ?s0 = Some s" for s
  proof -
    define s1 where "s1 = ?s0\<lparr>rl_rest := Some (length (st @ [LF])), rl_lineNum := 1, rl_line := Some 0,
        rl_log := [log_response UID st hst]\<rparr>"
    have s1: "response_line now UID hst ?s0 = Some (Inr s1)"
      "at_resp_line (st @ [LF]) (unlines hs @ []) post s1" "0 < rl_lineNum s1"
      using f by (simp_all add: s1_def)
    have "response_lines now UID hst s1 = Some s"
      using that s1(1) by (subst (asm) response_lines.simps) simp
    from response_lines_unterminated [OF s1(2,3) n(5) this] show ?thesis .
  qed
  moreover have "strlen ?b 0 = Some (length (st @ LF # unlines hs))"
    using strlen_at [of "st @ LF # unlines hs" "[]" post] n(1,3) by simp
  ultimately show ?thesis using g(2)
    by (cases "response_lines now UID hst ?s0") (simp_all add: parseResponse_def)
qed

theorem truncated_headers_fault_witness:
  "parseResponse 1700000000 (page_ok @ LF # unlines [header ''Content-Length'' (nat_digits 100)] @ NUL # [NUL])
     (-1) no_info 1 ''h'' ''7'' = None"
  by (rule truncated_headers_fault)
    (use sample_length in \<open>simp_all add: good_response_def page_ok_def log_response_def MAX_LOG_LINE_LEN_def\<close>)

lemma sample_unspaced:
  "good_resp_header (header ''Cache-Control'' ''public,no-store'')"
  "modest_header (header ''Cache-Control'' ''public,no-store'')"
proof -
  have v: "header_value (header ''Cache-Control'' ''public,no-store'') = (SP # ''public'') @ COMMA # ''no-store'' @ [CR]"
    by (simp add: header_parts)
  have t: "split_on COMMA ((SP # ''public'') @ COMMA # ''no-store'' @ [CR]) = [SP # ''public'', ''no-store'' @ [CR]]"
    by (subst split_on_hit) (simp_all add: split_on_miss)
  show "good_resp_header (header ''Cache-Control'' ''public,no-store'')"
    unfolding good_resp_header_def v t by (simp add: header_def good_policy_def)
  show "modest_header (header ''Cache-Control'' ''public,no-store'')"
    unfolding modest_header_def v t by (simp add: modest_policy_def policy_of_def strncaseeq_def tolower_def)
qed

theorem unspaced_no_store_cached_witness:
  "\<exists>res. parseResponse 1700000000 (message_text page_ok [header ''Cache-Control'' ''public,no-store''] []
      @ NUL # [NUL]) (-1) no_info 1 ''h'' ''7'' = Some res \<and> rr_canCache res = 1"
proof -
  have ok: "response_ok ''7'' ''h'' page_ok ([] @ header ''Cache-Control'' (''public'' @ '',no-store'') # []) []"
    using sample_unspaced by (intro page_response_ok) simp_all
  show ?thesis
    using unspaced_no_store_cached [OF ok, of 1700000000 "[NUL]" "-1" no_info 1] sample_policies
    by (simp add: clock_ok_def)
qed

theorem etag_before_policy_lost_witness:
  "\<exists>res. parseResponse 1700000000 (message_text page_ok
      [header ''ETag'' ''v1'', header ''Cache-Control'' (policy_list [''public''])] [] @ NUL # [NUL])
      (-1) no_info 1 ''h'' ''7'' = Some res \<and> ri_etag (rr_info res) = Some None"
proof -
  have w: "\<forall>p\<in>set [''public'']. policy_word p \<and> modest_policy p" "\<forall>p\<in>set [''public'']. policy_word p"
    using sample_policies by auto
  have t: "good_resp_header (header ''ETag'' ''v1'')" "modest_header (header ''ETag'' ''v1'')"
    by (rule good_header_plain)
      (simp_all add: plain_def modest_header_def sets_policy_def names_def header_parts strcaseeq_def tolower_def)
  have ok: "response_ok ''7'' ''h'' page_ok
      ([header ''ETag'' ''v1''] @ header ''Cache-Control'' (policy_list [''public'']) # []) []"
    using t cache_control_header(1) [OF _ w(2)] cache_control_modest [OF _ w(1)]
    by (intro page_response_ok) simp_all
  show ?thesis
    using etag_before_policy_lost [OF ok, of 1700000000 "[NUL]" "-1" no_info 1] w by (simp add: clock_ok_def)
qed

end
