(* ===== verification/Linked.thy ===== *)
theory Linked
  imports Prelude
begin

text \<open>
  Singly linked lists in a heap: the nodes from an address on, along a successor field. The
  stack of the waiting requests and the queue of the log messages are such lists. Address 0
  is NULL.
\<close>

primrec linked :: "('n \<Rightarrow> nat) \<Rightarrow> (nat \<Rightarrow> 'n option) \<Rightarrow> nat \<Rightarrow> nat list \<Rightarrow> bool" where
  "linked nx m p [] = (p = 0)"
| "linked nx m p (a # as) = (p = a \<and> a \<noteq> 0 \<and>
     (case m a of None \<Rightarrow> False | Some n \<Rightarrow> linked nx m (nx n) as))"

lemma linked_unique: "linked nx m p as \<Longrightarrow> linked nx m p bs \<Longrightarrow> as = bs"
proof (induction as arbitrary: p bs)
  case Nil
  then show ?case by (cases bs) auto
next
  case (Cons a as)
  then show ?case by (cases bs) (auto split: option.splits)
qed

lemma linked_append: "linked nx m p (as @ b # bs) \<Longrightarrow> linked nx m b (b # bs)"
proof (induction as arbitrary: p)
  case (Cons a as)
  then show ?case by (cases "m a") auto
qed auto

lemma linked_distinct: "linked nx m p as \<Longrightarrow> distinct as"
proof (induction as arbitrary: p)
  case (Cons a as)
  from Cons.prems obtain n where n: "m a = Some n" "linked nx m (nx n) as"
    by (auto split: option.splits)
  have "a \<notin> set as"
  proof
    assume "a \<in> set as"
    then obtain xs ys where as: "as = xs @ a # ys" by (auto simp: in_set_conv_decomp)
    with n have "linked nx m a (a # ys)" by (blast dest: linked_append)
    with n have "linked nx m (nx n) ys" by simp
    with n as have "ys = xs @ a # ys" by (blast dest: linked_unique)
    then have "length ys = length (xs @ a # ys)" by (rule arg_cong)
    then show False by simp
  qed
  with Cons.IH n(2) show ?case by simp
qed simp

lemma linked_cong:
  "\<forall>a\<in>set as. m' a = m a \<Longrightarrow> linked nx m' p as = linked nx m p as"
  by (induction as arbitrary: p) (auto split: option.splits)

lemma linked_Some: "linked nx m p as \<Longrightarrow> a \<in> set as \<Longrightarrow> a \<noteq> 0 \<and> (\<exists>n. m a = Some n)"
  by (induction as arbitrary: p) (auto split: option.splits)

lemma linked_head: "linked nx m p as \<Longrightarrow> p = 0 \<longleftrightarrow> as = []"
  by (cases as) auto

lemma linked_upd_other:
  "a \<notin> set as \<Longrightarrow> linked nx (m(a := v)) p as = linked nx m p as"
  by (rule linked_cong) auto

text \<open>Cutting off the last node, by clearing the successor of the one before it.\<close>

lemma linked_cut:
  assumes "linked nx m p (as @ [a, b])" "m a = Some n" "nx n' = 0"
  shows "linked nx ((m(b := None))(a \<mapsto> n')) p (as @ [a])"
  using assms
proof (induction as arbitrary: p)
  case Nil
  then show ?case by auto
next
  case (Cons x as)
  have d: "distinct (x # as @ [a, b])" using linked_distinct [OF Cons.prems(1)] by simp
  obtain k where k: "m x = Some k" "linked nx m (nx k) (as @ [a, b])" "p = x" "x \<noteq> 0"
    using Cons.prems(1) by (auto split: option.splits)
  show ?case using Cons.IH [OF k(2) Cons.prems(2,3)] k d by auto
qed

end
