(* ===== verification/Requests.thy ===== *)
theory Requests
  imports Linked
begin

text \<open>
  The stack of accepted connections of \<^verbatim>\<open>threadPool.c\<close> (\<open>stackEmpty\<close>, \<open>pop\<close>, \<open>push\<close>, the part of
  \<open>serviceRequest\<close> that takes a request, and the loop of \<open>freeAll\<close>): nodes of type \<open>STACK\<close> on the
  heap, headed by the global variable \<open>requests\<close>. The mutex is held around every operation
  (see the pool); here they are functions of the store.
\<close>

record STACK =
  st_fd :: int
  st_next :: nat

record store =
  snodes :: "nat \<Rightarrow> STACK option"
  requests :: nat
  sbrk :: nat

definition no_requests :: store where
  "no_requests = \<lparr>snodes = \<lambda>_. None, requests = 0, sbrk = 1\<rparr>"

text \<open>A stack whose top holds descriptor 0 counts as empty.\<close>

definition stackEmpty :: "store \<Rightarrow> bool option" where
  "stackEmpty s = (if requests s = 0 then Some True
     else do { n \<leftarrow> snodes s (requests s); Some (st_fd n = 0) })"

definition pop :: "store \<Rightarrow> (nat \<times> store) option" where
  "pop s = do {
     e \<leftarrow> stackEmpty s;
     if e then Some (0, s)
     else do {
       n \<leftarrow> snodes s (requests s);
       Some (requests s, s\<lparr>requests := st_next n\<rparr>) } }"

definition push :: "int \<Rightarrow> store \<Rightarrow> store" where
  "push fd s = s\<lparr>snodes := (snodes s)(sbrk s \<mapsto> \<lparr>st_fd = fd, st_next = requests s\<rparr>),
     requests := sbrk s, sbrk := sbrk s + 1\<rparr>"

definition free_stack_node :: "nat \<Rightarrow> store \<Rightarrow> store option" where
  "free_stack_node a s = do { _ \<leftarrow> snodes s a; Some (s\<lparr>snodes := (snodes s)(a := None)\<rparr>) }"

text \<open>\<open>tos = pop(); connFd = tos->fd; free(tos)\<close>.\<close>

definition take_request :: "store \<Rightarrow> (int \<times> store) option" where
  "take_request s = do {
     (tos, s) \<leftarrow> pop s;
     n \<leftarrow> snodes s tos;
     s \<leftarrow> free_stack_node tos s;
     Some (st_fd n, s) }"

text \<open>The loop of \<open>freeAll\<close>; the variable \<open>requests\<close> keeps its value.\<close>

partial_function (option) freeAll_stack :: "store \<Rightarrow> nat \<Rightarrow> store option" where
  "freeAll_stack s current =
     (if current = 0 then Some s
      else do {
        n \<leftarrow> snodes s current;
        s' \<leftarrow> free_stack_node current s;
        freeAll_stack s' (st_next n) })"

section \<open>The stack as a list of descriptors\<close>

definition stack_of :: "store \<Rightarrow> nat list \<Rightarrow> bool" where
  "stack_of s as \<longleftrightarrow> linked st_next (snodes s) (requests s) as \<and> 0 < sbrk s \<and>
     (\<forall>a. sbrk s \<le> a \<longrightarrow> snodes s a = None)"

definition fds :: "store \<Rightarrow> nat list \<Rightarrow> int list" where
  "fds s as = map (\<lambda>a. case snodes s a of None \<Rightarrow> 0 | Some n \<Rightarrow> st_fd n) as"

text \<open>The abstraction: the store holds exactly the nodes of the stack, with these descriptors.\<close>

definition waiting :: "store \<Rightarrow> int list \<Rightarrow> bool" where
  "waiting s ds \<longleftrightarrow> (\<exists>as. stack_of s as \<and> fds s as = ds \<and> dom (snodes s) = set as)"

lemma waiting_empty: "waiting no_requests []"
  by (auto simp: waiting_def stack_of_def fds_def no_requests_def)

lemma waiting_nodes: "waiting s [] \<Longrightarrow> snodes s = (\<lambda>_. None) \<and> requests s = 0"
  by (auto simp: waiting_def stack_of_def fds_def dom_eq_empty_conv)

lemma waiting_push:
  assumes "waiting s ds"
  shows "waiting (push d s) (d # ds)"
proof -
  obtain as where as: "linked st_next (snodes s) (requests s) as" "0 < sbrk s"
    "\<forall>a. sbrk s \<le> a \<longrightarrow> snodes s a = None" "fds s as = ds" "dom (snodes s) = set as"
    using assms by (auto simp: waiting_def stack_of_def)
  have new: "sbrk s \<notin> set as" using as(3,5) by (metis domIff order_refl)
  let ?s = "push d s"
  have "linked st_next (snodes ?s) (sbrk s) (sbrk s # as)"
    using as(1,2) new by (simp add: push_def linked_upd_other)
  moreover have "fds ?s (sbrk s # as) = d # ds"
    using as(4) new by (auto simp: fds_def push_def)
  moreover have "dom (snodes ?s) = set (sbrk s # as)" using as(5) by (auto simp: push_def)
  ultimately show ?thesis using as(2,3)
    unfolding waiting_def stack_of_def by (intro exI [of _ "sbrk s # as"]) (auto simp: push_def)
qed

lemma stackEmpty_waiting:
  assumes "waiting s ds"
  shows "stackEmpty s = Some (ds = [] \<or> hd ds = 0)"
proof -
  obtain as where as: "linked st_next (snodes s) (requests s) as" "fds s as = ds"
    using assms by (auto simp: waiting_def stack_of_def)
  then show ?thesis by (cases as) (auto simp: stackEmpty_def fds_def split: option.splits)
qed

lemma take_request_waiting:
  assumes "waiting s (d # ds)" "d \<noteq> 0"
  shows "\<exists>s'. take_request s = Some (d, s') \<and> waiting s' ds"
proof -
  obtain a as where as: "linked st_next (snodes s) (requests s) (a # as)" "0 < sbrk s"
    "\<forall>a. sbrk s \<le> a \<longrightarrow> snodes s a = None" "fds s (a # as) = d # ds" "dom (snodes s) = set (a # as)"
    using assms(1) by (auto simp: waiting_def stack_of_def fds_def Cons_eq_map_conv)
  then obtain n where n: "snodes s a = Some n" "requests s = a" "a \<noteq> 0" "st_fd n = d"
    "linked st_next (snodes s) (st_next n) as" by (auto simp: fds_def split: option.splits)
  have new: "a \<notin> set as" using linked_distinct [OF as(1)] by simp
  let ?s = "s\<lparr>requests := st_next n, snodes := (snodes s)(a := None)\<rparr>"
  have "stackEmpty s = Some False" using stackEmpty_waiting [OF assms(1)] assms(2) by simp
  then have "take_request s = Some (d, ?s)"
    using n by (simp add: take_request_def pop_def free_stack_node_def)
  moreover have "fds ?s as = ds"
    using as(4) new by (auto simp: fds_def intro!: map_cong)
  moreover have "dom (snodes ?s) = set as" using as(5) new by auto
  ultimately show ?thesis using as(2,3) n new
    by (intro exI [of _ ?s]) (auto simp: waiting_def stack_of_def linked_upd_other intro!: exI [of _ as])
qed

lemma freeAll_stack_frees:
  assumes "linked st_next (snodes s) p as"
  shows "\<exists>s'. freeAll_stack s p = Some s' \<and> snodes s' = (\<lambda>a. if a \<in> set as then None else snodes s a)
    \<and> requests s' = requests s"
  using assms
proof (induction as arbitrary: s p)
  case Nil
  then show ?case by (subst freeAll_stack.simps) auto
next
  case (Cons a as)
  then obtain n where n: "snodes s a = Some n" "p = a" "a \<noteq> 0" "linked st_next (snodes s) (st_next n) as"
    by (auto split: option.splits)
  let ?s = "s\<lparr>snodes := (snodes s)(a := None)\<rparr>"
  have "a \<notin> set as" using linked_distinct [OF Cons.prems] by simp
  then have "linked st_next (snodes ?s) (st_next n) as" using n(4) by (simp add: linked_upd_other)
  from Cons.IH [OF this] obtain s' where
    s': "freeAll_stack ?s (st_next n) = Some s'"
      "snodes s' = (\<lambda>b. if b \<in> set as then None else snodes ?s b)" "requests s' = requests s" by auto
  moreover have "freeAll_stack s p = freeAll_stack ?s (st_next n)"
    using n by (subst freeAll_stack.simps) (simp add: free_stack_node_def)
  ultimately show ?case by (auto intro!: exI [of _ s'])
qed

section \<open>The interface of a stack\<close>

text \<open>
  What the workers rely on: the last descriptor pushed is the first one taken, and nothing is
  lost or invented.
\<close>

locale lifo =
  fixes holds :: "'s \<Rightarrow> 'd list \<Rightarrow> bool"
    and put_in :: "'d \<Rightarrow> 's \<Rightarrow> 's"
    and take_out :: "'s \<Rightarrow> ('d \<times> 's) option"
    and fit :: "'d \<Rightarrow> bool"
  assumes put_holds: "holds s ds \<Longrightarrow> holds (put_in d s) (d # ds)"
    and take_holds: "holds s (d # ds) \<Longrightarrow> fit d \<Longrightarrow> \<exists>s'. take_out s = Some (d, s') \<and> holds s' ds"
begin

lemma take_after_put: "holds s ds \<Longrightarrow> fit d \<Longrightarrow> \<exists>s'. take_out (put_in d s) = Some (d, s') \<and> holds s' ds"
  by (intro take_holds put_holds)

lemma put_all: "holds s ds \<Longrightarrow> holds (fold put_in es s) (rev es @ ds)"
proof (induction es arbitrary: s ds)
  case (Cons e es)
  show ?case using Cons.IH [OF put_holds [OF Cons.prems, of e]] by simp
qed simp

lemma take_Some: "holds s (d # ds) \<Longrightarrow> fit d \<Longrightarrow> take_out s = Some (e, s') \<Longrightarrow> e = d \<and> holds s' ds"
  using take_holds [of s d ds] by auto

lemma take_all:
  "holds s (es @ ds) \<Longrightarrow> \<forall>e\<in>set es. fit e \<Longrightarrow> \<exists>s'. take_times take_out (length es) s = Some (es, s') \<and> holds s' ds"
proof (induction es arbitrary: s)
  case (Cons e es)
  then obtain s1 where s1: "take_out s = Some (e, s1)" "holds s1 (es @ ds)"
    using take_holds [of s e "es @ ds"] by auto
  show ?case using Cons.IH [OF s1(2)] Cons.prems(2) s1(1) by auto
qed simp

end

interpretation requests: lifo waiting push take_request "\<lambda>d. d \<noteq> 0"
  by unfold_locales (auto intro: waiting_push take_request_waiting)

section \<open>Properties\<close>

text \<open>C29: connections are served last-in first-out: the descriptors pushed after each other are
  taken in the opposite order, each exactly once, and the stack is afterwards what it was before.\<close>

theorem requests_lifo:
  assumes "waiting s ds" "\<forall>d\<in>set es. d \<noteq> 0"
  shows "\<exists>s'. take_times take_request (length es) (fold push es s) = Some (rev es, s') \<and> waiting s' ds"
  using requests.take_all [OF requests.put_all [OF assms(1), of es]] assms(2) by simp

theorem requests_lifo_witness:
  "\<exists>s'. take_times take_request 3 (fold push [4, 5, 6] no_requests) = Some ([6, 5, 4], s') \<and> waiting s' []"
  using requests_lifo [OF waiting_empty, of "[4, 5, 6]"] by (simp add: eval_nat_numeral)

text \<open>A descriptor 0 on top hides the whole stack: it counts as empty, so that \<open>pop\<close> returns
  NULL and the waiting connections are not served until another one is pushed.\<close>

theorem zero_hides_stack:
  assumes "waiting s ds"
  shows "stackEmpty (push 0 s) = Some True \<and> pop (push 0 s) = Some (0, push 0 s)"
  using stackEmpty_waiting [OF requests.put_holds [OF assms, of 0]] by (simp add: pop_def)

theorem zero_hides_stack_witness:
  "pop (push 0 (push 7 no_requests)) = Some (0, push 0 (push 7 no_requests))"
  using zero_hides_stack [OF waiting_push [OF waiting_empty, of 7]] by simp

text \<open>At the end \<open>freeAll\<close> frees every node of the stack exactly once (no connection that
  still waits is closed), and the variable \<open>requests\<close> keeps pointing to the freed top.\<close>

theorem freeAll_frees:
  assumes "waiting s ds"
  shows "\<exists>s'. freeAll_stack s (requests s) = Some s' \<and> snodes s' = (\<lambda>_. None) \<and> requests s' = requests s"
proof -
  obtain as where as: "linked st_next (snodes s) (requests s) as" "dom (snodes s) = set as"
    using assms by (auto simp: waiting_def stack_of_def)
  then have "(\<lambda>a. if a \<in> set as then None else snodes s a) = (\<lambda>_. None)"
    by (auto simp: fun_eq_iff)
  with freeAll_stack_frees [OF as(1)] show ?thesis by simp
qed

theorem freeAll_frees_witness:
  "\<exists>s'. freeAll_stack (push 8 (push 7 no_requests)) 2 = Some s' \<and> snodes s' = (\<lambda>_. None) \<and> requests s' = 2"
  using freeAll_frees [OF waiting_push [OF waiting_push [OF waiting_empty, of 7], of 8]]
  by (simp add: push_def no_requests_def numeral_2_eq_2)

end
