(* ===== verification/Logging.thy ===== *)
theory Logging
  imports CString Linked
begin

text \<open>
  The queue of log messages of \<^verbatim>\<open>logging.c\<close>. A message is copied into a block of its own, which
  the node points to; its last byte, for the NUL, is never written. \<open>pendingLogs\<close> is the newest
  message and the oldest is at the end of the list.
\<close>

record Queue =
  q_message :: nat
  q_length :: nat
  q_next :: nat

record logs =
  qnodes :: "nat \<Rightarrow> Queue option"
  msgs :: "nat \<Rightarrow> string option"
  pendingLogs :: nat
  lbrk :: nat

definition no_logs :: logs where
  "no_logs = \<lparr>qnodes = \<lambda>_. None, msgs = \<lambda>_. None, pendingLogs = 0, lbrk = 1\<rparr>"

definition LOG_BUFFER :: nat where "LOG_BUFFER = 50"

definition queueEmpty :: "logs \<Rightarrow> bool" where
  "queueEmpty q = (pendingLogs q = 0)"

text \<open>The walk to the last node, with the node before it.\<close>

partial_function (option) last_node :: "logs \<Rightarrow> nat \<Rightarrow> nat \<Rightarrow> (nat \<times> nat) option" where
  "last_node q currentP prevP = do {
     n \<leftarrow> qnodes q currentP;
     if q_next n \<noteq> 0 then last_node q (q_next n) currentP else Some (currentP, prevP) }"

text \<open>
  \<open>strncpy(msg, m, len)\<close> writes \<open>len\<close> bytes, padded with NULs, and then a NUL is written at
  \<open>len\<close>; nothing is compared with \<open>buffersize\<close>. The message block is not freed.
\<close>

definition copy_message :: "cbuf \<Rightarrow> string \<Rightarrow> nat \<Rightarrow> cbuf option" where
  "copy_message buf m len = (if len < length buf
     then Some (take len (takeWhile (\<lambda>c. c \<noteq> NUL) m @ replicate len NUL) @ NUL # drop (len + 1) buf)
     else None)"

definition logpop :: "cbuf \<Rightarrow> nat \<Rightarrow> logs \<Rightarrow> (int \<times> cbuf \<times> logs) option" where
  "logpop msg buffersize q =
     (if queueEmpty q then Some (1, msg, q)
      else do {
        (currentP, prevP) \<leftarrow> last_node q (pendingLogs q) 0;
        n \<leftarrow> qnodes q currentP;
        m \<leftarrow> msgs q (q_message n);
        msg \<leftarrow> copy_message msg m (q_length n);
        let q = q\<lparr>qnodes := (qnodes q)(currentP := None)\<rparr>;
        if prevP \<noteq> 0
        then do {
          p \<leftarrow> qnodes q prevP;
          Some (0, msg, q\<lparr>qnodes := (qnodes q)(prevP \<mapsto> p\<lparr>q_next := 0\<rparr>)\<rparr>) }
        else Some (0, msg, q\<lparr>pendingLogs := 0\<rparr>) })"

definition logpush :: "string \<Rightarrow> logs \<Rightarrow> logs" where
  "logpush msg q =
     (let newQueueP = lbrk q; m = lbrk q + 1;
          n = \<lparr>q_message = m, q_length = length msg, q_next = 0\<rparr>;
          q = q\<lparr>msgs := (msgs q)(m \<mapsto> msg), lbrk := lbrk q + 2\<rparr>
      in if queueEmpty q
         then q\<lparr>qnodes := (qnodes q)(newQueueP \<mapsto> n), pendingLogs := newQueueP\<rparr>
         else q\<lparr>qnodes := (qnodes q)(newQueueP \<mapsto> n\<lparr>q_next := pendingLogs q\<rparr>), pendingLogs := newQueueP\<rparr>)"

text \<open>One round of \<open>writeLog\<close> with a message in the queue: the line that is appended to the file. The
  buffer of 50 bytes is cleared after every round.\<close>

definition write_round :: "logs \<Rightarrow> (string option \<times> logs) option" where
  "write_round q = do {
     (rc, buff, q) \<leftarrow> logpop (replicate LOG_BUFFER NUL) LOG_BUFFER q;
     if rc = 0 then do { line \<leftarrow> cstr buff 0; Some (Some line, q) }
     else Some (None, q) }"

section \<open>The queue as a list of messages\<close>

definition text_of :: "logs \<Rightarrow> nat \<Rightarrow> string \<Rightarrow> bool" where
  "text_of q a m \<longleftrightarrow> (\<exists>n. qnodes q a = Some n \<and> msgs q (q_message n) = Some m \<and> q_length n = length m \<and> NUL \<notin> set m)"

text \<open>The abstraction: the messages from the newest to the oldest.\<close>

definition queued :: "logs \<Rightarrow> string list \<Rightarrow> bool" where
  "queued q ms \<longleftrightarrow> (\<exists>as. linked q_next (qnodes q) (pendingLogs q) as \<and> list_all2 (text_of q) as ms \<and>
     0 < lbrk q \<and> (\<forall>a. lbrk q \<le> a \<longrightarrow> qnodes q a = None \<and> msgs q a = None) \<and> dom (qnodes q) = set as)"

lemma queued_empty: "queued no_logs []"
  by (auto simp: queued_def no_logs_def)

lemma queueEmpty_queued: "queued q ms \<Longrightarrow> queueEmpty q \<longleftrightarrow> ms = []"
  by (auto simp: queued_def queueEmpty_def dest: linked_head)

lemma text_of_cong:
  assumes "text_of q a m" "qnodes q' a = qnodes q a" "\<And>b t. msgs q b = Some t \<Longrightarrow> msgs q' b = Some t"
  shows "text_of q' a m"
  using assms by (auto simp: text_of_def)

lemma queued_push:
  assumes "queued q ms" "NUL \<notin> set m"
  shows "queued (logpush m q) (m # ms)"
proof -
  obtain as where as: "linked q_next (qnodes q) (pendingLogs q) as" "list_all2 (text_of q) as ms"
    "0 < lbrk q" "\<forall>a. lbrk q \<le> a \<longrightarrow> qnodes q a = None \<and> msgs q a = None" "dom (qnodes q) = set as"
    using assms(1) by (auto simp: queued_def)
  let ?q = "logpush m q" and ?n = "\<lparr>q_message = lbrk q + 1, q_length = length m, q_next = pendingLogs q\<rparr>"
  have q: "?q = q\<lparr>msgs := (msgs q)(lbrk q + 1 \<mapsto> m), lbrk := lbrk q + 2,
      qnodes := (qnodes q)(lbrk q \<mapsto> ?n), pendingLogs := lbrk q\<rparr>"
    by (simp add: logpush_def Let_def queueEmpty_def)
  have new: "lbrk q \<notin> set as" using as(4,5) by (metis domIff order_refl)
  have "text_of ?q a t" if "a \<in> set as" "text_of q a t" for a t
    using that new as(4) by (intro text_of_cong [OF that(2)]) (auto simp: q)
  then have "list_all2 (text_of ?q) as ms"
    using as(2) by (auto simp: list_all2_conv_all_nth)
  moreover have "text_of ?q (lbrk q) m" using assms(2) by (simp add: text_of_def q)
  moreover have "linked q_next (qnodes ?q) (lbrk q) (lbrk q # as)"
    using as(1,3) new by (simp add: q linked_upd_other)
  moreover have "dom (qnodes ?q) = set (lbrk q # as)" using as(5) by (auto simp: q)
  ultimately show ?thesis using as(3,4)
    unfolding queued_def by (intro exI [of _ "lbrk q # as"]) (auto simp: q)
qed

lemma last_node_linked:
  assumes "linked q_next (qnodes q) p as" "as \<noteq> []"
  shows "last_node q p pr = Some (last as, if butlast as = [] then pr else last (butlast as))"
  using assms
proof (induction as arbitrary: p pr)
  case (Cons a as)
  then obtain n where n: "qnodes q a = Some n" "p = a" "linked q_next (qnodes q) (q_next n) as"
    by (auto split: option.splits)
  show ?case
  proof (cases as)
    case Nil
    then show ?thesis using n by (subst last_node.simps) simp
  next
    case (Cons b bs)
    then have "q_next n \<noteq> 0" using n(3) by (auto split: option.splits)
    then show ?thesis using n Cons.IH [OF n(3), of a] Cons
      by (subst last_node.simps) auto
  qed
qed simp

lemma copy_message_text:
  assumes "NUL \<notin> set m" "length m < length buf"
  shows "copy_message buf m (length m) = Some (m @ NUL # drop (length m + 1) buf)"
  using assms by (simp add: copy_message_def takeWhile_id_notin)

text \<open>The last node is taken out of the list.\<close>

lemma cut_queued:
  assumes as: "linked q_next (qnodes q) (pendingLogs q) (cs @ [c, b])" "list_all2 (text_of q) (cs @ [c]) ms"
    "0 < lbrk q" "\<forall>a. lbrk q \<le> a \<longrightarrow> qnodes q a = None \<and> msgs q a = None" "dom (qnodes q) = set (cs @ [c, b])"
    and k: "qnodes q c = Some k"
  shows "queued (q\<lparr>qnodes := (qnodes q)(b := None, c \<mapsto> k\<lparr>q_next := 0\<rparr>)\<rparr>) ms"
proof -
  let ?m = "(qnodes q)(b := None, c \<mapsto> k\<lparr>q_next := 0\<rparr>)"
  let ?q = "q\<lparr>qnodes := ?m\<rparr>"
  have d: "distinct (cs @ [c, b])" by (rule linked_distinct [OF as(1)])
  have "text_of ?q a t" if "text_of q a t" "a \<in> set (cs @ [c])" for a t
  proof (cases "a = c")
    case True
    then show ?thesis using that(1) k by (auto simp: text_of_def)
  next
    case False
    moreover have "a \<noteq> b" using d that(2) by auto
    ultimately show ?thesis using that(1) by (auto simp: text_of_def)
  qed
  then have "list_all2 (text_of ?q) (cs @ [c]) ms" by (intro list.rel_mono_strong [OF as(2)]) simp
  moreover have "linked q_next ?m (pendingLogs q) (cs @ [c])"
    using linked_cut [OF as(1) k, of "k\<lparr>q_next := 0\<rparr>"] by simp
  moreover have "dom ?m = set (cs @ [c])" using as(5) d by (auto simp: k)
  moreover have "\<forall>a. lbrk q \<le> a \<longrightarrow> ?m a = None" using as(4) k by auto
  ultimately show ?thesis using as(3,4) unfolding queued_def by (intro exI [of _ "cs @ [c]"]) auto
qed

lemma logpop_queued:
  assumes "queued q (ms @ [m])" "length m < length buf"
  shows "\<exists>q'. logpop buf sz q = Some (0, m @ NUL # drop (length m + 1) buf, q') \<and> queued q' ms \<and> msgs q' = msgs q"
proof -
  obtain as where as: "linked q_next (qnodes q) (pendingLogs q) as" "list_all2 (text_of q) as (ms @ [m])"
    "0 < lbrk q" "\<forall>a. lbrk q \<le> a \<longrightarrow> qnodes q a = None \<and> msgs q a = None" "dom (qnodes q) = set as"
    using assms(1) by (auto simp: queued_def)
  obtain bs b where b: "as = bs @ [b]" "list_all2 (text_of q) bs ms" "text_of q b m"
    using as(2) by (auto simp: list_all2_append2 list_all2_Cons2)
  obtain n where n: "qnodes q b = Some n" "msgs q (q_message n) = Some m" "q_length n = length m" "NUL \<notin> set m"
    using b(3) by (auto simp: text_of_def)
  have ne: "\<not> queueEmpty q" using queueEmpty_queued [OF assms(1)] by simp
  have ln: "last_node q (pendingLogs q) 0 = Some (b, if bs = [] then 0 else last bs)"
    using last_node_linked [OF as(1), of 0] b(1) by simp
  note pop = ne ln n assms(2) logpop_def copy_message_text
  show ?thesis
  proof (cases bs rule: rev_cases)
    case Nil
    let ?q = "q\<lparr>qnodes := (qnodes q)(b := None), pendingLogs := 0\<rparr>"
    have "logpop buf sz q = Some (0, m @ NUL # drop (length m + 1) buf, ?q)" using Nil by (simp add: pop)
    moreover have "queued ?q ms" using as(3,4,5) b Nil by (auto simp: queued_def)
    ultimately show ?thesis by auto
  next
    case (snoc cs c)
    have l: "linked q_next (qnodes q) (pendingLogs q) (cs @ [c, b])" using as(1) b(1) snoc by simp
    have cb: "c \<noteq> b" using linked_distinct [OF l] by auto
    obtain k where k: "qnodes q c = Some k" "c \<noteq> 0" using linked_Some [OF l, of c] by auto
    have "logpop buf sz q = Some (0, m @ NUL # drop (length m + 1) buf,
        q\<lparr>qnodes := (qnodes q)(b := None, c \<mapsto> k\<lparr>q_next := 0\<rparr>)\<rparr>)" using snoc k cb by (simp add: pop)
    then show ?thesis using cut_queued [OF l _ as(3,4) _ k(1)] b as(5) snoc by simp
  qed
qed

section \<open>The interface of a queue\<close>

text \<open>What the logger relies on: the first message pushed is the first one popped.\<close>

locale fifo =
  fixes holds :: "'s \<Rightarrow> 'd list \<Rightarrow> bool"
    and enq :: "'d \<Rightarrow> 's \<Rightarrow> 's"
    and deq :: "'s \<Rightarrow> ('d \<times> 's) option"
    and valid :: "'d \<Rightarrow> bool"
    and fit :: "'d \<Rightarrow> bool"
  assumes enq_holds: "holds s ds \<Longrightarrow> valid d \<Longrightarrow> holds (enq d s) (d # ds)"
    and deq_holds: "holds s (ds @ [d]) \<Longrightarrow> fit d \<Longrightarrow> \<exists>s'. deq s = Some (d, s') \<and> holds s' ds"
begin

lemma enq_all: "holds s ds \<Longrightarrow> \<forall>e\<in>set es. valid e \<Longrightarrow> holds (fold enq es s) (rev es @ ds)"
proof (induction es arbitrary: s ds)
  case (Cons e es)
  have "holds (enq e s) (e # ds)" using enq_holds Cons.prems by simp
  from Cons.IH [OF this] Cons.prems(2) show ?case by simp
qed simp

lemma deq_all:
  "holds s (ds @ rev es) \<Longrightarrow> \<forall>e\<in>set es. fit e \<Longrightarrow>
    \<exists>s'. take_times deq (length es) s = Some (es, s') \<and> holds s' ds"
proof (induction es arbitrary: s)
  case (Cons e es)
  then have "holds s ((ds @ rev es) @ [e])" by simp
  then obtain s1 where s1: "deq s = Some (e, s1)" "holds s1 (ds @ rev es)"
    using deq_holds [of s "ds @ rev es" e] Cons.prems(2) by auto
  show ?case using Cons.IH [OF s1(2)] Cons.prems(2) s1(1) by auto
qed simp

end

definition fits_buffer :: "string \<Rightarrow> bool" where
  "fits_buffer m \<longleftrightarrow> length m < LOG_BUFFER"

text \<open>The next line of the log file.\<close>

definition next_log :: "logs \<Rightarrow> (string \<times> logs) option" where
  "next_log q = do { (l, q) \<leftarrow> write_round q; m \<leftarrow> l; Some (m, q) }"

lemma write_round_queued:
  assumes "queued q (ms @ [m])" "fits_buffer m"
  shows "\<exists>q'. write_round q = Some (Some m, q') \<and> queued q' ms \<and> msgs q' = msgs q"
proof -
  have len: "length m < length (replicate LOG_BUFFER NUL)" using assms(2) by (simp add: fits_buffer_def)
  obtain q' where q': "logpop (replicate LOG_BUFFER NUL) LOG_BUFFER q =
      Some (0, m @ NUL # drop (length m + 1) (replicate LOG_BUFFER NUL), q')" "queued q' ms" "msgs q' = msgs q"
    using logpop_queued [OF assms(1) len, of LOG_BUFFER] by blast
  have "NUL \<notin> set m" using assms(1) by (auto simp: queued_def text_of_def list_all2_append2 list_all2_Cons2)
  from cstr_at [OF this, of "[]"] q' show ?thesis by (auto simp: write_round_def)
qed

interpretation logq: fifo queued logpush next_log "\<lambda>m. NUL \<notin> set m" fits_buffer
proof
  show "queued q ms \<Longrightarrow> NUL \<notin> set m \<Longrightarrow> queued (logpush m q) (m # ms)" for q ms m
    by (rule queued_push)
  show "queued q (ms @ [m]) \<Longrightarrow> fits_buffer m \<Longrightarrow> \<exists>q'. next_log q = Some (m, q') \<and> queued q' ms" for q ms m
    using write_round_queued [of q ms m] by (auto simp: next_log_def)
qed

lemma write_round_empty: "queued q [] \<Longrightarrow> write_round q = Some (None, q)"
  using queueEmpty_queued [of q "[]"] by (simp add: write_round_def logpop_def)

lemma write_round_overflow:
  assumes "queued q (ms @ [m])" "\<not> fits_buffer m"
  shows "write_round q = None"
proof -
  obtain as where as: "linked q_next (qnodes q) (pendingLogs q) as" "list_all2 (text_of q) as (ms @ [m])"
    using assms(1) by (auto simp: queued_def)
  obtain bs b where b: "as = bs @ [b]" "text_of q b m"
    using as(2) by (auto simp: list_all2_append2 list_all2_Cons2)
  obtain n where n: "qnodes q b = Some n" "msgs q (q_message n) = Some m" "q_length n = length m"
    using b(2) by (auto simp: text_of_def)
  have "last_node q (pendingLogs q) 0 = Some (b, if bs = [] then 0 else last bs)"
    using last_node_linked [OF as(1), of 0] b(1) by simp
  then show ?thesis using n assms queueEmpty_queued [OF assms(1)]
    by (simp add: write_round_def logpop_def copy_message_def fits_buffer_def)
qed

section \<open>The logger thread\<close>

text \<open>
  The logger (thread 0) and the threads that log run concurrently, around \<open>qMutex\<close>. The
  program points of \<open>writeLog\<close>: before the first lock, at the test of \<open>queueEmpty\<close>, in
  \<open>pthread_cond_wait\<close>, before \<open>logpop\<close>, at the test of \<open>loggerrunning\<close>, and at the end.
  \<open>L_misuse\<close> is the call of \<open>pthread_cond_wait\<close> or \<open>pthread_mutex_unlock\<close> with a mutex that the
  thread does not hold, whose behaviour is undefined; \<open>L_overflow\<close> is a fault in \<open>logpop\<close>.
\<close>

datatype lpc = L_start | L_test | L_wait | L_pop | L_while | L_end | L_misuse | L_overflow

record logger =
  lg_pc :: lpc
  lg_owner :: "nat option"
  lg_running :: bool
  lg_logs :: logs
  lg_file :: "string list"
  lg_pending :: "nat \<Rightarrow> string option"
  lg_sent :: "string list"

inductive logger_start :: "logger \<Rightarrow> bool" where
  "logger_start \<lparr>lg_pc = L_start, lg_owner = None, lg_running = True, lg_logs = no_logs, lg_file = [],
     lg_pending = \<lambda>_. None, lg_sent = []\<rparr>"

definition stoplogging :: "logger \<Rightarrow> logger" where
  [simp]: "stoplogging s = s\<lparr>lg_running := False\<rparr>"

inductive logger_step :: "logger \<Rightarrow> logger \<Rightarrow> bool" where
  lock_first: "lg_pc s = L_start \<Longrightarrow> lg_owner s = None \<Longrightarrow>
    logger_step s (s\<lparr>lg_pc := L_while, lg_owner := Some 0\<rparr>)"
| loop: "lg_pc s = L_while \<Longrightarrow> lg_running s \<Longrightarrow> logger_step s (s\<lparr>lg_pc := L_test\<rparr>)"
| leave: "lg_pc s = L_while \<Longrightarrow> \<not> lg_running s \<Longrightarrow> logger_step s (s\<lparr>lg_pc := L_end\<rparr>)"
| wait: "lg_pc s = L_test \<Longrightarrow> queueEmpty (lg_logs s) \<Longrightarrow> lg_owner s = Some 0 \<Longrightarrow>
    logger_step s (s\<lparr>lg_pc := L_wait, lg_owner := None\<rparr>)"
| wake: "lg_pc s = L_wait \<Longrightarrow> lg_owner s = None \<Longrightarrow>
    logger_step s (s\<lparr>lg_pc := L_test, lg_owner := Some 0\<rparr>)"
| unlock: "lg_pc s = L_test \<Longrightarrow> \<not> queueEmpty (lg_logs s) \<Longrightarrow> lg_owner s = Some 0 \<Longrightarrow>
    logger_step s (s\<lparr>lg_pc := L_pop, lg_owner := None\<rparr>)"
| misuse: "lg_pc s = L_test \<Longrightarrow> lg_owner s \<noteq> Some 0 \<Longrightarrow> logger_step s (s\<lparr>lg_pc := L_misuse\<rparr>)"
| popped: "lg_pc s = L_pop \<Longrightarrow> lg_owner s = None \<Longrightarrow> write_round (lg_logs s) = Some (l, q) \<Longrightarrow>
    logger_step s (s\<lparr>lg_pc := L_while, lg_logs := q,
      lg_file := lg_file s @ (case l of None \<Rightarrow> [] | Some m \<Rightarrow> [m])\<rparr>)"
| overflow: "lg_pc s = L_pop \<Longrightarrow> lg_owner s = None \<Longrightarrow> write_round (lg_logs s) = None \<Longrightarrow>
    logger_step s (s\<lparr>lg_pc := L_overflow\<rparr>)"
| push_lock: "0 < i \<Longrightarrow> lg_owner s = None \<Longrightarrow> lg_pending s i = None \<Longrightarrow> NUL \<notin> set m \<Longrightarrow>
    logger_step s (s\<lparr>lg_owner := Some i, lg_pending := (lg_pending s)(i \<mapsto> m)\<rparr>)"
| push_unlock: "0 < i \<Longrightarrow> lg_owner s = Some i \<Longrightarrow> lg_pending s i = Some m \<Longrightarrow>
    logger_step s (s\<lparr>lg_owner := None, lg_pending := (lg_pending s)(i := None),
      lg_logs := logpush m (lg_logs s), lg_sent := lg_sent s @ [m]\<rparr>)"
| stopped: "logger_step s (stoplogging s)"

definition logger_inv :: "logger \<Rightarrow> bool" where
  "logger_inv s \<longleftrightarrow>
     (\<exists>ms. queued (lg_logs s) ms \<and> lg_file s @ rev ms = lg_sent s \<and> (lg_pc s = L_pop \<longrightarrow> ms \<noteq> [])) \<and>
     (\<forall>i m. lg_pending s i = Some m \<longrightarrow> NUL \<notin> set m) \<and>
     (lg_pc s \<in> {L_start, L_wait, L_pop} \<longrightarrow> lg_file s = []) \<and>
     (lg_pc s \<in> {L_while, L_test} \<longrightarrow> (lg_owner s = Some 0 \<longleftrightarrow> lg_file s = [])) \<and>
     (lg_pc s \<in> {L_start, L_wait, L_pop} \<longrightarrow> lg_owner s \<noteq> Some 0) \<and>
     length (lg_file s) \<le> 1"

lemma queued_nonempty: "queued q ms \<Longrightarrow> \<not> queueEmpty q \<Longrightarrow> ms \<noteq> []"
  using queueEmpty_queued by blast

lemma logger_inv_step:
  assumes "logger_inv s" "logger_step s t"
  shows "logger_inv t"
  using assms(2,1)
proof cases
  case (popped l q)
  obtain ms where ms: "queued (lg_logs s) ms" "lg_file s @ rev ms = lg_sent s" "ms \<noteq> []" "lg_file s = []"
    using assms(1) popped by (auto simp: logger_inv_def)
  obtain ns n where n: "ms = ns @ [n]" using ms(3) by (cases ms rule: rev_cases) auto
  have fit: "fits_buffer n" using write_round_overflow ms(1) n popped by fastforce
  have "l = Some n" "queued q ns" using write_round_queued [of "lg_logs s" ns n] ms(1) n fit popped by auto
  then show ?thesis using assms(1) popped ms n by (auto simp: logger_inv_def)
next
  case (unlock)
  then show ?thesis using assms(1) by (auto simp: logger_inv_def dest: queued_nonempty)
next
  case (push_unlock i m)
  then obtain ms where ms: "queued (lg_logs s) ms" "lg_file s @ rev ms = lg_sent s" "NUL \<notin> set m"
    using assms(1) by (auto simp: logger_inv_def)
  have "queued (logpush m (lg_logs s)) (m # ms)" by (rule queued_push [OF ms(1,3)])
  then show ?thesis using assms(1) push_unlock ms(2)
    unfolding logger_inv_def by (intro conjI exI [of _ "m # ms"]) (auto split: if_splits)
qed (auto simp: logger_inv_def)

interpretation logger: invariant_system logger_start logger_step logger_inv
proof
  show "logger_start s \<Longrightarrow> logger_inv s" for s
    by (erule logger_start.cases) (auto simp: logger_inv_def queued_empty intro: exI [of _ "[]"])
qed (rule logger_inv_step)

text \<open>An execution in which one message is written.\<close>

lemma logger_trace:
  "\<exists>s. reach logger_start logger_step s \<and> lg_file s = [''hi''] \<and> lg_pc s = L_test"
proof -
  let ?s0 = "\<lparr>lg_pc = L_start, lg_owner = None, lg_running = True, lg_logs = no_logs, lg_file = [],
     lg_pending = \<lambda>_. None, lg_sent = []\<rparr>"
  let ?s1 = "?s0\<lparr>lg_owner := Some 1, lg_pending := [1 \<mapsto> ''hi'']\<rparr>"
  let ?q = "logpush ''hi'' no_logs"
  let ?s2 = "?s0\<lparr>lg_logs := ?q, lg_sent := [''hi'']\<rparr>"
  let ?s3 = "?s2\<lparr>lg_pc := L_while, lg_owner := Some 0\<rparr>"
  let ?s4 = "?s3\<lparr>lg_pc := L_test\<rparr>"
  let ?s5 = "?s4\<lparr>lg_pc := L_pop, lg_owner := None\<rparr>"
  have q: "queued ?q ([] @ [''hi''])" using queued_push [OF queued_empty, of "''hi''"] by simp
  obtain q' where q': "write_round ?q = Some (Some ''hi'', q')"
    using write_round_queued [OF q] by (auto simp: fits_buffer_def LOG_BUFFER_def)
  have ne: "\<not> queueEmpty ?q" using queueEmpty_queued [OF q] by simp
  let ?s6 = "?s5\<lparr>lg_pc := L_while, lg_logs := q', lg_file := [''hi'']\<rparr>"
  have "reach logger_start logger_step ?s0" by (intro reach_start logger_start.intros)
  moreover have "logger_step ?s0 ?s1" using push_lock [of 1 ?s0 "''hi''"] by simp
  moreover have "logger_step ?s1 ?s2" using push_unlock [of 1 ?s1 "''hi''"] by simp
  moreover have "logger_step ?s2 ?s3" using lock_first [of ?s2] by simp
  moreover have "logger_step ?s3 ?s4" using loop [of ?s3] by simp
  moreover have "logger_step ?s4 ?s5" using unlock [of ?s4] ne by simp
  moreover have "logger_step ?s5 ?s6" using popped [of ?s5 "Some ''hi''" q'] q' by simp
  moreover have "logger_step ?s6 (?s6\<lparr>lg_pc := L_test\<rparr>)" using loop [of ?s6] by simp
  ultimately have "reach logger_start logger_step (?s6\<lparr>lg_pc := L_test\<rparr>)"
    by (meson reach_step)
  then show ?thesis by (intro exI [of _ "?s6\<lparr>lg_pc := L_test\<rparr>"]) simp
qed

section \<open>Properties\<close>

text \<open>C24: the log queue is first-in first-out: messages that fit the buffer of the logger are written
  to the file in the order in which they were pushed, each once.\<close>

theorem log_fifo:
  assumes "queued q []" "\<forall>m\<in>set ms. NUL \<notin> set m \<and> length m < LOG_BUFFER"
  shows "\<exists>q'. take_times next_log (length ms) (fold logpush ms q) = Some (ms, q') \<and> queued q' []"
  using logq.deq_all [of "fold logpush ms q" "[]" ms] logq.enq_all [OF assms(1), of ms] assms(2)
  by (simp add: fits_buffer_def)

theorem log_fifo_witness:
  "\<exists>q'. take_times next_log 2 (fold logpush [''a'', ''b''] no_logs) = Some ([''a'', ''b''], q') \<and> queued q' []"
  using log_fifo [OF queued_empty, of "[''a'', ''b'']"] by (simp add: LOG_BUFFER_def eval_nat_numeral)

text \<open>\<open>logpop\<close> does not look at the size of its buffer: a message of 50 bytes or more overflows the
  buffer of the logger.\<close>

theorem long_message_overflows:
  assumes "queued q []" "NUL \<notin> set m" "LOG_BUFFER \<le> length m"
  shows "write_round (logpush m q) = None"
  using write_round_overflow [of "logpush m q" "[]" m] queued_push [OF assms(1,2)] assms(3)
  by (simp add: fits_buffer_def)

theorem long_message_overflows_witness:
  "write_round (logpush (replicate 60 (CHR ''x'')) no_logs) = None"
  by (rule long_message_overflows [OF queued_empty]) (simp_all add: LOG_BUFFER_def)

text \<open>The block of a message is never freed: after a message was written, the queue is as empty as
  before it was pushed, but its text is still allocated.\<close>

theorem log_message_leaks:
  assumes "queued q []" "NUL \<notin> set m" "length m < LOG_BUFFER"
  shows "\<exists>q'. write_round (logpush m q) = Some (Some m, q') \<and> queued q' [] \<and>
    dom (msgs q') = insert (lbrk q + 1) (dom (msgs q)) \<and> lbrk q + 1 \<notin> dom (msgs q)"
proof -
  have "queued (logpush m q) ([] @ [m])" using queued_push [OF assms(1,2)] by simp
  then obtain q' where "write_round (logpush m q) = Some (Some m, q')" "queued q' []"
    "msgs q' = msgs (logpush m q)" using write_round_queued [of "logpush m q" "[]" m] assms(3)
    by (auto simp: fits_buffer_def)
  moreover have "msgs (logpush m q) = (msgs q)(lbrk q + 1 \<mapsto> m)"
    by (simp add: logpush_def Let_def)
  moreover have "msgs q (lbrk q + 1) = None" using assms(1) by (auto simp: queued_def)
  ultimately show ?thesis by auto
qed

theorem log_message_leaks_witness:
  "\<exists>q'. write_round (logpush ''hi'' no_logs) = Some (Some ''hi'', q') \<and> queued q' [] \<and> dom (msgs q') = {2}"
proof -
  have d: "insert (lbrk no_logs + 1) (dom (msgs no_logs)) = {2}" by (simp add: no_logs_def)
  have "NUL \<notin> set ''hi''" "length ''hi'' < LOG_BUFFER" by (simp_all add: LOG_BUFFER_def)
  from log_message_leaks [OF queued_empty this, unfolded d] show ?thesis by blast
qed

text \<open>Whatever the threads do, the lines in the log file are a prefix of the messages in the order
  in which they were pushed: none is lost, duplicated or reordered.\<close>

theorem log_file_prefix:
  assumes "reach logger_start logger_step s"
  shows "\<exists>ms. lg_sent s = lg_file s @ ms"
proof -
  obtain ms where "lg_file s @ rev ms = lg_sent s"
    using logger.inv_reach [OF assms] unfolding logger_inv_def by blast
  then have "lg_sent s = lg_file s @ rev ms" by (rule sym)
  then show ?thesis by (rule exI)
qed

theorem log_file_prefix_witness:
  "\<exists>(s :: logger) ms. lg_file s = [''hi''] \<and> lg_pc s = L_test \<and> lg_sent s = ''hi'' # ms"
proof -
  obtain s where s: "reach logger_start logger_step s" "lg_file s = [''hi'']" "lg_pc s = L_test"
    using logger_trace by blast
  from log_file_prefix [OF s(1)] obtain ms where "lg_sent s = lg_file s @ ms" by blast
  then show ?thesis using s by (intro exI [of _ s] exI [of _ ms]) simp
qed

text \<open>C34: \<open>writeLog\<close> locks the mutex before its loop and unlocks it in every round: at the test of the
  second round it does not hold the mutex, so its only step is a misuse of it, and no execution
  without undefined behaviour writes more than one line.\<close>

theorem logger_second_round:
  assumes "reach logger_start logger_step s"
  shows "length (lg_file s) \<le> 1 \<and>
    (lg_pc s = L_test \<and> lg_file s \<noteq> [] \<longrightarrow> lg_owner s \<noteq> Some 0 \<and>
      (\<forall>t. logger_step s t \<longrightarrow> lg_pc t \<in> {L_test, L_misuse}))"
proof -
  have inv: "logger_inv s" by (rule logger.inv_reach [OF assms])
  have "lg_pc t \<in> {L_test, L_misuse}" if "logger_step s t" "lg_pc s = L_test" "lg_owner s \<noteq> Some 0" for t
    using that by cases auto
  with inv show ?thesis by (auto simp: logger_inv_def)
qed

theorem logger_second_round_witness:
  "\<exists>s. reach logger_start logger_step s \<and> lg_file s = [''hi''] \<and> lg_pc s = L_test \<and> lg_owner s \<noteq> Some 0"
proof -
  obtain s where s: "reach logger_start logger_step s" "lg_file s = [''hi'']" "lg_pc s = L_test"
    using logger_trace by blast
  from logger_second_round [OF s(1)] s show ?thesis by (intro exI [of _ s]) simp
qed

end
