(* ===== verification/Sockets.thy ===== *)
theory Sockets
  imports CString
begin

text \<open>
  Sockets. The peer of a socket is a script: what arrives (\<open>rx\<close>) and how much of each write is
  accepted (\<open>wr\<close>). The end of \<open>rx\<close> is the close of the connection by the peer. An empty chunk is no
  data. Also \<open>writeall\<close> of \<^verbatim>\<open>threadPool.c\<close>, and the block functions of the C library
  (memset, strcat) that the transfer loops use.
\<close>

datatype ev = NotReady | Data string | ReadErr

record sock =
  rx :: "ev list"
  wr :: "nat option list"
  sent :: string

text \<open>\<open>recv(fd, testBuf, 1, MSG_PEEK | MSG_DONTWAIT)\<close>: data is there (1), the connection was closed (0),
  or nothing is there yet (-1). A failing read is announced like data.\<close>

fun recv_peek :: "ev list \<Rightarrow> int \<times> ev list" where
  "recv_peek [] = (0, [])"
| "recv_peek (NotReady # r) = (-1, r)"
| "recv_peek (Data d # r) = (if d = [] then (-1, r) else (1, Data d # r))"
| "recv_peek (ReadErr # r) = (1, ReadErr # r)"

text \<open>A blocking read of at most \<open>n\<close> bytes; \<open>None\<close> is an error.\<close>

fun sread :: "nat \<Rightarrow> ev list \<Rightarrow> string option \<times> ev list" where
  "sread n [] = (Some [], [])"
| "sread n (NotReady # r) = sread n r"
| "sread n (Data d # r) = (if d = [] then sread n r
     else (Some (take n d), if length d \<le> n then r else Data (drop n d) # r))"
| "sread n (ReadErr # r) = (None, r)"

text \<open>A write: the number of bytes accepted, or \<open>None\<close> for an error.\<close>

definition swrite :: "sock \<Rightarrow> string \<Rightarrow> nat option \<times> sock" where
  "swrite c d = (case wr c of
     [] \<Rightarrow> (Some (length d), c\<lparr>sent := sent c @ d\<rparr>)
   | None # w \<Rightarrow> (None, c\<lparr>wr := w\<rparr>)
   | Some m # w \<Rightarrow> (let n = min (m + 1) (length d) in (Some n, c\<lparr>wr := w, sent := sent c @ take n d\<rparr>)))"

section \<open>Blocks\<close>

definition bytes :: "cbuf \<Rightarrow> nat \<Rightarrow> nat \<Rightarrow> string option" where
  "bytes b p n = (if p + n \<le> length b then Some (take n (drop p b)) else None)"

definition store_bytes :: "cbuf \<Rightarrow> nat \<Rightarrow> string \<Rightarrow> cbuf option" where
  "store_bytes b p d = (if p + length d \<le> length b then Some (take p b @ d @ drop (p + length d) b) else None)"

text \<open>\<open>memset(b + p, 0, n)\<close>.\<close>

definition zero :: "cbuf \<Rightarrow> nat \<Rightarrow> nat \<Rightarrow> cbuf option" where
  "zero b p n = store_bytes b p (replicate n NUL)"

definition strcat :: "cbuf \<Rightarrow> cbuf \<Rightarrow> cbuf option" where
  "strcat d s = do { n \<leftarrow> strlen d 0; t \<leftarrow> cstr s 0; store_bytes d n (t @ [NUL]) }"

section \<open>writeall\<close>

function writeall_loop :: "sock \<Rightarrow> cbuf \<Rightarrow> nat \<Rightarrow> nat \<Rightarrow> (int \<times> nat \<times> sock) option" where
  "writeall_loop c buf tot len =
     (if tot < len
      then do {
        d \<leftarrow> bytes buf tot (len - tot);
        (case swrite c d of
           (None, c) \<Rightarrow> Some (-1, len, c)
         | (Some n, c) \<Rightarrow> writeall_loop c buf (tot + n) len) }
      else Some (0, tot, c))"
  by pat_completeness auto
termination
  by (relation "measure (\<lambda>(c, buf, tot, len). len - tot)")
    (auto simp: swrite_def bytes_def Let_def split: list.splits option.splits if_splits)

declare writeall_loop.simps [simp del]

text \<open>The return value, \<open>*len\<close> afterwards, and the socket.\<close>

definition writeall :: "sock \<Rightarrow> cbuf \<Rightarrow> nat \<Rightarrow> (int \<times> nat \<times> sock) option" where
  "writeall c buf len = writeall_loop c buf 0 len"

section \<open>Rules\<close>

lemma bytes_length: "bytes b p n = Some d \<Longrightarrow> length d = n"
  by (auto simp: bytes_def split: if_splits)

lemma store_bytes_length: "store_bytes b p d = Some b' \<Longrightarrow> length b' = length b"
  by (auto simp: store_bytes_def split: if_splits)

lemma zero_length: "zero b p n = Some b' \<Longrightarrow> length b' = length b"
  by (simp add: zero_def store_bytes_length)

lemma strcat_at [io_simps]:
  assumes "NUL \<notin> set s" "NUL \<notin> set t" "length t < length post + 1"
  shows "strcat (s @ NUL # post) (t @ NUL # q) = Some (s @ t @ NUL # drop (length t) post)"
  using assms strlen_at [of s "[]" post] cstr_at [of t "[]" q]
  by (simp add: strcat_def store_bytes_def)

lemma strcat_overflow:
  assumes "NUL \<notin> set s" "NUL \<notin> set t" "length post < length t"
  shows "strcat (s @ NUL # post) (t @ NUL # q) = None"
  using assms strlen_at [of s "[]" post] cstr_at [of t "[]" q]
  by (simp add: strcat_def store_bytes_def)

text \<open>The data a script still delivers, and its size; every read makes it smaller.\<close>

fun arrives :: "ev list \<Rightarrow> string" where
  "arrives [] = []"
| "arrives (Data d # r) = d @ arrives r"
| "arrives (NotReady # r) = arrives r"
| "arrives (ReadErr # r) = []"

fun weight :: "ev \<Rightarrow> nat" where
  "weight (Data d) = Suc (length d)"
| "weight NotReady = 1"
| "weight ReadErr = 1"

definition script_size :: "ev list \<Rightarrow> nat" where
  "script_size r = sum_list (map weight r)"

lemma recv_not_ready:
  "recv_peek r = (t, r') \<Longrightarrow> t < 0 \<Longrightarrow> script_size r' < script_size r \<and> arrives r' = arrives r"
  by (cases r rule: recv_peek.cases) (auto simp: script_size_def split: if_splits)

lemma recv_ready:
  "recv_peek r = (t, r') \<Longrightarrow> 0 < t \<Longrightarrow> r' = r"
  by (cases r rule: recv_peek.cases) (auto split: if_splits)

lemma recv_ready_read:
  assumes "recv_peek r = (t, r')" "0 < t" "sread n r = (d, r'')" "0 < n"
  shows "script_size r'' < script_size r"
  using assms by (cases r rule: recv_peek.cases) (auto simp: script_size_def split: if_splits)

lemma recv_closed: "recv_peek r = (0, r') \<longleftrightarrow> r = [] \<and> r' = []"
  by (cases r rule: recv_peek.cases) auto

lemma sread_data:
  assumes "sread n r = (Some d, r')"
  shows "length d \<le> n" "arrives r = d @ arrives r'"
  using assms by (induction n r rule: sread.induct) (auto split: if_splits)

lemma sread_size:
  assumes "sread n r = (Some d, r')" "d \<noteq> []"
  shows "script_size r' < script_size r"
  using assms by (induction n r rule: sread.induct) (auto simp: script_size_def split: if_splits)

lemma sread_end: "sread n r = (Some [], r') \<Longrightarrow> 0 < n \<Longrightarrow> arrives r = [] \<and> r' = []"
  by (induction n r rule: sread.induct) (auto split: if_splits)

lemma sread_first:
  assumes "ReadErr \<notin> set r" "0 < n"
  shows "\<exists>d r'. sread n r = (Some d, r') \<and> arrives r = d @ arrives r' \<and> ReadErr \<notin> set r'"
  using assms by (induction n r rule: sread.induct) (auto split: if_splits)

lemma sread_fail: "sread n r = (None, r') \<Longrightarrow> arrives r = []"
  by (induction n r rule: sread.induct) (auto split: if_splits)

text \<open>A write: a prefix is accepted, at least one byte of what is not empty.\<close>

lemma swrite_Some:
  assumes "swrite c d = (Some n, c')"
  shows "n \<le> length d" "sent c' = sent c @ take n d" "rx c' = rx c" "d \<noteq> [] \<Longrightarrow> 0 < n"
  using assms by (auto simp: swrite_def Let_def split: list.splits option.splits)

lemma swrite_None: "swrite c d = (None, c') \<Longrightarrow> sent c' = sent c \<and> rx c' = rx c"
  by (auto simp: swrite_def Let_def split: list.splits option.splits)

text \<open>\<open>writeall\<close> writes everything, or fails after a proper prefix.\<close>

definition writes :: "sock \<Rightarrow> string \<Rightarrow> int \<times> nat \<times> sock \<Rightarrow> bool" where
  "writes c d r \<longleftrightarrow> (case r of (rc, n, c') \<Rightarrow> n = length d \<and> rx c' = rx c \<and>
     (rc = 0 \<and> sent c' = sent c @ d \<or> rc = -1 \<and> (\<exists>k<length d. sent c' = sent c @ take k d)))"

text \<open>A write, followed by writes of the rest.\<close>

lemma write_on:
  assumes "swrite c d = (Some n, c1)"
    and "rc = 0 \<and> sent c' = sent c1 @ drop n d \<or> rc = -1 \<and> (\<exists>k<length (drop n d). sent c' = sent c1 @ take k (drop n d))"
  shows "rc = 0 \<and> sent c' = sent c @ d \<or> rc = -1 \<and> (\<exists>k<length d. sent c' = sent c @ take k d)"
proof -
  note sw = swrite_Some [OF assms(1)]
  have "take n d @ take k (drop n d) = take (n + k) d" for k by (rule take_add [symmetric])
  then have "\<exists>j<length d. sent c' = sent c @ take j d" if "k < length (drop n d)" "sent c' = sent c1 @ take k (drop n d)" for k
    using that sw(2) by (intro exI [of _ "n + k"]) simp
  then show ?thesis using assms(2) sw(2) by auto
qed

lemma writeall_loop_spec:
  assumes "len \<le> length buf" "tot \<le> len"
  shows "\<exists>rc c'. writeall_loop c buf tot len = Some (rc, len, c') \<and> rx c' = rx c \<and>
     (rc = 0 \<and> sent c' = sent c @ take (len - tot) (drop tot buf) \<or>
      rc = -1 \<and> (\<exists>k<len - tot. sent c' = sent c @ take k (drop tot buf)))"
  using assms
proof (induction "len - tot" arbitrary: tot c rule: less_induct)
  case less
  show ?case
  proof (cases "tot < len")
    case False
    then show ?thesis using less.prems by (subst writeall_loop.simps) simp
  next
    case True
    let ?d = "take (len - tot) (drop tot buf)"
    have b: "bytes buf tot (len - tot) = Some ?d" using less.prems by (simp add: bytes_def)
    have len: "length ?d = len - tot" using less.prems by simp
    show ?thesis
    proof (cases "swrite c ?d")
      case (Pair a c1)
      show ?thesis
      proof (cases a)
        case None
        then show ?thesis using True b Pair swrite_None [of c ?d c1]
          by (subst writeall_loop.simps) (auto intro!: exI [of _ 0])
      next
        case (Some n)
        note sw = swrite_Some [OF Pair [unfolded Some]]
        have n: "0 < n" "n \<le> len - tot" using sw(1,4) True len by auto
        have pre: "len - (tot + n) < len - tot" "tot + n \<le> len" using n True by auto
        obtain rc c' where ih: "writeall_loop c1 buf (tot + n) len = Some (rc, len, c')" "rx c' = rx c1"
          "rc = 0 \<and> sent c' = sent c1 @ take (len - (tot + n)) (drop (tot + n) buf) \<or>
           rc = -1 \<and> (\<exists>k<len - (tot + n). sent c' = sent c1 @ take k (drop (tot + n) buf))"
          using less.hyps [OF pre(1) less.prems(1) pre(2), of c1] by blast
        have "writeall_loop c buf tot len = Some (rc, len, c')"
          using True b Pair Some ih(1) by (subst writeall_loop.simps) simp
        moreover have d: "drop n ?d = take (len - (tot + n)) (drop (tot + n) buf)" by (simp add: drop_take add.commute)
        have "\<exists>k<length (drop n ?d). sent c' = sent c1 @ take k (drop n ?d)"
          if "k < len - (tot + n)" "sent c' = sent c1 @ take k (drop (tot + n) buf)" for k
          using that less.prems unfolding d by (intro exI [of _ k]) simp
        then have "rc = 0 \<and> sent c' = sent c1 @ drop n ?d \<or> rc = -1 \<and> (\<exists>k<length (drop n ?d). sent c' = sent c1 @ take k (drop n ?d))"
          using ih(3) unfolding d by blast
        from write_on [OF Pair [unfolded Some] this] have "rc = 0 \<and> sent c' = sent c @ ?d \<or>
            rc = -1 \<and> (\<exists>k<len - tot. sent c' = sent c @ take k (drop tot buf))"
          using len by (auto simp: min_def)
        ultimately show ?thesis using ih(2) sw(3) by auto
      qed
    qed
  qed
qed

lemma writeall_spec:
  assumes "len \<le> length buf"
  shows "\<exists>r. writeall c buf len = Some r \<and> writes c (take len buf) r"
proof -
  obtain rc c' where r: "writeall_loop c buf 0 len = Some (rc, len, c')" "rx c' = rx c"
    "rc = 0 \<and> sent c' = sent c @ take len buf \<or> rc = -1 \<and> (\<exists>k<len. sent c' = sent c @ take k buf)"
    using writeall_loop_spec [OF assms, of 0 c] by auto
  have "take k (take len buf) = take k buf" if "k < len" for k using that by (simp add: min_def)
  then have "writes c (take len buf) (rc, len, c')"
    using r(2,3) assms by (auto simp: writes_def)
  then show ?thesis using r(1) by (simp add: writeall_def)
qed

section \<open>Scripts without errors\<close>

text \<open>
  What a loop gets that polls a socket and gives up after a number of polls that found nothing: the
  data, and the rest of the script.
\<close>

fun delivered :: "nat \<Rightarrow> ev list \<Rightarrow> string \<times> ev list" where
  "delivered 0 r = ([], r)"
| "delivered (Suc n) [] = ([], [])"
| "delivered (Suc n) (NotReady # r) = delivered n r"
| "delivered (Suc n) (Data d # r) = (if d = [] then delivered n r
     else (d @ fst (delivered (Suc n) r), snd (delivered (Suc n) r)))"
| "delivered (Suc n) (ReadErr # r) = ([], ReadErr # r)"

lemma delivered_Nil [simp]: "delivered n [] = ([], [])"
  by (cases n) simp_all

lemma delivered_arrives: "ReadErr \<notin> set r \<Longrightarrow> arrives r = fst (delivered n r) @ arrives (snd (delivered n r))"
  by (induction n r rule: delivered.induct) auto

lemma delivered_all:
  "ReadErr \<notin> set r \<Longrightarrow> NotReady \<notin> set r \<Longrightarrow> Data [] \<notin> set r \<Longrightarrow> 0 < n \<Longrightarrow>
    delivered n (r @ replicate k NotReady) = (arrives r, replicate (k - n) NotReady)"
proof (induction r)
  case Nil
  have "delivered n (replicate k NotReady) = ([], replicate (k - n) NotReady)" for n
    by (induction k arbitrary: n) (simp_all, case_tac n, simp_all)
  then show ?case by simp
next
  case (Cons e r)
  then show ?case by (cases e; cases n) auto
qed

text \<open>What a loop of polls and reads finds at its head: the close, a pause, or data.\<close>

lemma script_cases:
  assumes "ReadErr \<notin> set r" "0 < n" "0 < g"
  obtains (closed) "r = []"
    | (quiet) r' where "recv_peek r = (-1, r')" "delivered g r = delivered (g - 1) r'" "arrives r' = arrives r"
        "script_size r' < script_size r" "ReadErr \<notin> set r'"
    | (data) d r' where "recv_peek r = (1, r)" "sread n r = (Some d, r')"
        "delivered g r = (d @ fst (delivered g r'), snd (delivered g r'))" "arrives r = d @ arrives r'"
        "d \<noteq> []" "length d \<le> n" "script_size r' < script_size r" "ReadErr \<notin> set r'"
proof (cases r)
  case Nil
  then show ?thesis by (rule closed)
next
  case (Cons e q)
  obtain k where g: "g = Suc k" using assms(3) by (cases g) auto
  consider "e = NotReady \<or> e = Data []" | d where "e = Data d" "d \<noteq> []"
    using assms(1) Cons by (cases e) auto
  then show ?thesis
  proof cases
    case 1
    then show ?thesis using Cons assms(1) by (intro quiet [of q]) (auto simp: script_size_def g)
  next
    case (2 d)
    let ?r = "if length d \<le> n then q else Data (drop n d) # q"
    have s: "sread n r = (Some (take n d), ?r)" "recv_peek r = (1, r)" using Cons 2 by simp_all
    show ?thesis
      by (rule data [OF s(2,1)])
        (use Cons 2 assms g sread_data [OF s(1)] recv_ready_read [OF s(2) _ s(1) assms(2)] in \<open>auto split: if_splits\<close>)
  qed
qed

end
