(* ===== verification/Copying.thy ===== *)
theory Copying
  imports Sockets
begin

text \<open>
  The two loops of \<^verbatim>\<open>threadPool.c\<close> that copy the rest of a response from the server to the client
  and into the block that will be cached: \<open>transferChunks\<close> and \<open>bufferedForward\<close>. The block that
  \<open>cacheBuff\<close> points to is a buffer with its size; allocations succeed.
\<close>

definition BUFSIZE :: nat where "BUFSIZE = 1024"
definition RESPONSE_HEADER_SIZE :: nat where "RESPONSE_HEADER_SIZE = 8192"

lemma c_int_small: "0 \<le> x \<Longrightarrow> x < 2 ^ 31 \<Longrightarrow> c_int x = Some x"
  by (simp add: int_of_bits_def)

record transfer =
  tr_server :: "ev list"
  tr_client :: sock
  tr_buf :: cbuf
  tr_cache :: cbuf
  tr_cap :: int
  tr_size :: int
  tr_fail :: bool
  tr_written :: int

text \<open>
  \<open>realloc\<close> to twice the capacity and one byte; the bytes from the current size on are cleared
  by the \<open>memset\<close> that follows, which covers all the new ones. Capacity, size and totals are \<open>int\<close>s:
  a capacity of 2^30 cannot be doubled.
\<close>

definition grow_cache :: "int \<Rightarrow> transfer \<Rightarrow> transfer option" where
  "grow_cache writtenNow t =
     (if writtenNow > tr_cap t - tr_size t
      then do {
        newCap \<leftarrow> c_int (2 * tr_cap t + 1);
        let n = nat newCap;
        let block = take n (tr_cache t) @ replicate (n - length (tr_cache t)) NUL;
        let cap = 2 * tr_cap t;
        check (0 \<le> tr_size t \<and> tr_size t \<le> cap + 1);
        block \<leftarrow> zero block (nat (tr_size t)) (nat (cap + 1 - tr_size t));
        Some (t\<lparr>tr_cache := block, tr_cap := cap\<rparr>) }
      else Some t)"

definition append_cache :: "int \<Rightarrow> transfer \<Rightarrow> transfer option" where
  "append_cache writtenNow t =
     (if tr_fail t then Some t
      else do {
        t \<leftarrow> grow_cache writtenNow t;
        c \<leftarrow> strcat (tr_cache t) (tr_buf t);
        size \<leftarrow> c_int (tr_size t + writtenNow);
        Some (t\<lparr>tr_cache := c, tr_size := size\<rparr>) })"

text \<open>
  One chunk: it was read into the start of \<open>buf\<close>; \<open>Inl\<close> is the return of -1. What is compared with
  the room in the cache buffer and added to its size is the return value of \<open>writeall\<close>.
\<close>

definition one_chunk :: "string \<Rightarrow> transfer \<Rightarrow> (transfer + transfer) option" where
  "one_chunk d t = do {
     b \<leftarrow> store_bytes (tr_buf t) 0 d;
     (writtenNow, amountToWrite, cl) \<leftarrow> writeall (tr_client t) b (length d);
     let t = t\<lparr>tr_buf := b, tr_client := cl\<rparr>;
     if writtenNow < 0 then Some (Inl t)
     else do {
       t \<leftarrow> append_cache writtenNow t;
       total \<leftarrow> c_int (tr_written t + int amountToWrite);
       b \<leftarrow> zero (tr_buf t) 0 BUFSIZE;
       Some (Inr (t\<lparr>tr_buf := b, tr_written := total\<rparr>)) } }"

lemma grow_cache_server: "grow_cache n t = Some t' \<Longrightarrow> tr_server t' = tr_server t"
  by (auto simp: grow_cache_def Let_def elim!: bind_SomeE split: if_splits)

lemma append_cache_server: "append_cache n t = Some t' \<Longrightarrow> tr_server t' = tr_server t"
  by (auto simp: append_cache_def elim!: bind_SomeE dest: grow_cache_server split: if_splits)

lemma one_chunk_server: "one_chunk d t = Some (Inr t') \<Longrightarrow> tr_server t' = tr_server t"
  by (auto simp: one_chunk_def Let_def elim!: bind_SomeE dest!: append_cache_server split: if_splits)

function chunks :: "nat \<Rightarrow> transfer \<Rightarrow> (transfer + transfer) option" where
  "chunks grace t =
     (if 0 < grace
      then (case recv_peek (tr_server t) of (testRead, rs) \<Rightarrow>
        if testRead = 0 then Some (Inr (t\<lparr>tr_server := rs\<rparr>))
        else if testRead < 0 then chunks (grace - 1) (t\<lparr>tr_server := rs\<rparr>)
        else (case sread BUFSIZE rs of
             (None, rs) \<Rightarrow> Some (Inl (t\<lparr>tr_server := rs\<rparr>))
           | (Some d, rs) \<Rightarrow> do {
               r \<leftarrow> one_chunk d (t\<lparr>tr_server := rs\<rparr>);
               (case r of Inl t \<Rightarrow> Some (Inl t) | Inr t \<Rightarrow> chunks grace t) }))
      else Some (Inr t))"
  by pat_completeness auto
termination
proof (relation "measure (\<lambda>(g, t). script_size (tr_server t))", goal_cases)
  case 1
  show ?case by simp
next
  case (2 grace t testRead rs)
  then have "recv_peek (tr_server t) = (testRead, rs)" "testRead < 0" by auto
  then show ?case by (simp add: recv_not_ready)
next
  case (3 grace t testRead rs a rs' d r t')
  then have r: "recv_peek (tr_server t) = (testRead, rs)" "0 < testRead" "sread BUFSIZE rs = (Some d, rs')"
    "one_chunk d (t\<lparr>tr_server := rs'\<rparr>) = Some (Inr t')" by auto
  have "rs = tr_server t" by (rule recv_ready [OF r(1,2)])
  then have "script_size rs' < script_size (tr_server t)"
    using recv_ready_read [OF r(1,2)] r(3) by (simp add: BUFSIZE_def)
  then show ?case using one_chunk_server [OF r(4)] by simp
qed

declare chunks.simps [simp del]

record outcome =
  oc_ret :: int
  oc_server :: "ev list"
  oc_client :: sock
  oc_buf :: cbuf
  oc_cache :: cbuf
  oc_canCache :: int

definition start_transfer :: "ev list \<Rightarrow> sock \<Rightarrow> cbuf \<Rightarrow> cbuf \<Rightarrow> int \<Rightarrow> transfer option" where
  "start_transfer server client buf cacheBuff canCache = do {
     n \<leftarrow> strlen cacheBuff 0;
     Some \<lparr>tr_server = server, tr_client = client, tr_buf = buf, tr_cache = cacheBuff,
       tr_cap = int RESPONSE_HEADER_SIZE, tr_size = int n, tr_fail = (canCache = 0), tr_written = 0\<rparr> }"

definition transferChunks :: "ev list \<Rightarrow> sock \<Rightarrow> cbuf \<Rightarrow> cbuf \<Rightarrow> int \<Rightarrow> outcome option" where
  "transferChunks server client buf cacheBuff canCache = do {
     t \<leftarrow> start_transfer server client buf cacheBuff canCache;
     r \<leftarrow> chunks 100 t;
     (case r of
        Inl t \<Rightarrow> Some \<lparr>oc_ret = -1, oc_server = tr_server t, oc_client = tr_client t, oc_buf = tr_buf t,
          oc_cache = tr_cache t, oc_canCache = 0\<rparr>
      | Inr t \<Rightarrow> do {
          b \<leftarrow> zero (tr_buf t) 0 BUFSIZE;
          Some \<lparr>oc_ret = tr_written t, oc_server = tr_server t, oc_client = tr_client t, oc_buf = b,
            oc_cache = tr_cache t, oc_canCache = (if tr_fail t then 0 else 1)\<rparr> }) }"

section \<open>bufferedForward\<close>

text \<open>
  One read: \<open>Inl\<close> is \<open>done = 1\<close>. The number of bytes written is now what \<open>writeall\<close> reports. All that
  was read before was also written, so that \<open>totalRead\<close> is the sum that is checked first.
\<close>

definition one_block :: "string \<Rightarrow> transfer \<Rightarrow> (transfer + transfer) option" where
  "one_block d t = do {
     b \<leftarrow> store_bytes (tr_buf t) 0 d;
     totalRead \<leftarrow> c_int (tr_written t + int (length d));
     (rc, writeNow, cl) \<leftarrow> writeall (tr_client t) b (length d);
     let t = t\<lparr>tr_buf := b, tr_client := cl\<rparr>;
     if rc < 0 then Some (Inl t)
     else do { t \<leftarrow> append_cache (int writeNow) (t\<lparr>tr_written := tr_written t + int writeNow\<rparr>); Some (Inr t) } }"

definition clear_block :: "transfer \<Rightarrow> transfer option" where
  "clear_block t = do { b \<leftarrow> zero (tr_buf t) 0 RESPONSE_HEADER_SIZE; Some (t\<lparr>tr_buf := b\<rparr>) }"

lemma one_block_server: "one_block d t = Some (Inr t') \<Longrightarrow> tr_server t' = tr_server t"
  by (auto simp: one_block_def Let_def elim!: bind_SomeE dest!: append_cache_server split: if_splits)

function blocks :: "int \<Rightarrow> transfer \<Rightarrow> transfer option" where
  "blocks bodySize t =
     (if tr_written t < bodySize
      then (case sread RESPONSE_HEADER_SIZE (tr_server t) of
          (None, rs) \<Rightarrow> clear_block (t\<lparr>tr_server := rs\<rparr>)
        | (Some d, rs) \<Rightarrow>
            if d = [] then clear_block (t\<lparr>tr_server := rs\<rparr>)
            else do {
              r \<leftarrow> one_block d (t\<lparr>tr_server := rs\<rparr>);
              (case r of
                 Inl t \<Rightarrow> clear_block t
               | Inr t \<Rightarrow> do { t' \<leftarrow> clear_block t; blocks bodySize t' }) })
      else Some t)"
  by pat_completeness auto
termination
proof (relation "measure (\<lambda>(n, t). script_size (tr_server t))", goal_cases)
  case 1
  show ?case by simp
next
  case (2 bodySize t a rs d r t1 t2)
  then have r: "sread RESPONSE_HEADER_SIZE (tr_server t) = (Some d, rs)" "d \<noteq> []"
    "one_block d (t\<lparr>tr_server := rs\<rparr>) = Some (Inr t1)" "clear_block t1 = Some t2" by auto
  have "tr_server t2 = rs"
    using one_block_server [OF r(3)] r(4) by (auto simp: clear_block_def elim!: bind_SomeE)
  then show ?case using sread_size [OF r(1,2)] by simp
qed

declare blocks.simps [simp del]

definition bufferedForward :: "ev list \<Rightarrow> sock \<Rightarrow> cbuf \<Rightarrow> cbuf \<Rightarrow> int \<Rightarrow> int \<Rightarrow> outcome option" where
  "bufferedForward server client serverBuff cacheBuff bodySize canCache = do {
     t \<leftarrow> start_transfer server client serverBuff cacheBuff canCache;
     t \<leftarrow> blocks bodySize t;
     Some \<lparr>oc_ret = tr_written t, oc_server = tr_server t, oc_client = tr_client t, oc_buf = tr_buf t,
       oc_cache = tr_cache t, oc_canCache = (if tr_fail t then canCache else 1)\<rparr> }"

section \<open>Rules\<close>

text \<open>The cache block holds a text, and its capacity is one less than its size.\<close>

definition holds_text :: "transfer \<Rightarrow> string \<Rightarrow> bool" where
  "holds_text t w \<longleftrightarrow> NUL \<notin> set w \<and> (\<exists>post. tr_cache t = w @ NUL # post) \<and>
     length (tr_cache t) = nat (tr_cap t + 1) \<and> tr_size t = int (length w) \<and> 0 \<le> tr_cap t"

lemma grow_cache_room:
  assumes "holds_text t w" "int n \<le> tr_cap t" "int (length w + n) \<le> 2 ^ 30"
  shows "\<exists>c cap. grow_cache (int n) t = Some (t\<lparr>tr_cache := c, tr_cap := cap\<rparr>) \<and>
    holds_text (t\<lparr>tr_cache := c, tr_cap := cap\<rparr>) w \<and> int (length w + n) \<le> cap \<and> tr_cap t \<le> cap"
proof (cases "int n > tr_cap t - tr_size t")
  case False
  then show ?thesis using assms
    by (intro exI [of _ "tr_cache t"] exI [of _ "tr_cap t"]) (auto simp: grow_cache_def holds_text_def)
next
  case True
  obtain post where w: "tr_cache t = w @ NUL # post" "NUL \<notin> set w" "length w + length post = nat (tr_cap t)"
    "tr_size t = int (length w)" "0 \<le> tr_cap t"
    using assms(1) by (auto simp: holds_text_def)
  define k where "k = nat (2 * tr_cap t + 1)"
  define B where "B = take k (tr_cache t) @ replicate (k - length (tr_cache t)) NUL"
  have lw: "length w \<le> nat (tr_cap t)" using w(3) by simp
  then have len: "length w < k" "length (tr_cache t) \<le> k" using w by (auto simp: k_def)
  then have B: "length B = k" "take (length w) B = w" using w(1) by (auto simp: B_def)
  have kk: "nat (2 * tr_cap t + 1 - tr_size t) = k - length w" using w(4,5) lw by (simp add: k_def)
  have z: "zero B (nat (tr_size t)) (nat (2 * tr_cap t + 1 - tr_size t)) = Some (w @ replicate (k - length w) NUL)"
    unfolding kk using B len w(4) by (simp add: zero_def store_bytes_def)
  have sz: "0 \<le> tr_size t \<and> tr_size t \<le> 2 * tr_cap t + 1" using w(4,5) lw by simp
  let ?t = "t\<lparr>tr_cache := w @ replicate (k - length w) NUL, tr_cap := 2 * tr_cap t\<rparr>"
  have "2 * tr_cap t + 1 < 2 ^ 31" using True assms(3) w(4) by simp
  then have "c_int (2 * tr_cap t + 1) = Some (2 * tr_cap t + 1)" using w(5) by (simp add: int_of_bits_def)
  then have "grow_cache (int n) t = Some ?t"
    using True z sz by (simp add: grow_cache_def Let_def k_def [symmetric] B_def [symmetric])
  moreover have "replicate (k - length w) NUL = NUL # replicate (k - length w - 1) NUL"
    using len by (cases "k - length w") auto
  then have "holds_text ?t w" using w(2,4,5) len by (auto simp: holds_text_def k_def)
  ultimately show ?thesis using w(5) assms(2) lw by (intro exI conjI) auto
qed

lemma append_cache_text:
  assumes h: "holds_text t w" and n: "int (length d) \<le> tr_cap t" "int (length w + length d) \<le> 2 ^ 30" and f: "\<not> tr_fail t"
    and b: "tr_buf t = d @ NUL # q" "NUL \<notin> set d"
  shows "\<exists>c cap. append_cache (int (length d)) t =
      Some (t\<lparr>tr_cache := c, tr_cap := cap, tr_size := tr_size t + int (length d)\<rparr>) \<and>
    holds_text (t\<lparr>tr_cache := c, tr_cap := cap, tr_size := tr_size t + int (length d)\<rparr>) (w @ d) \<and> tr_cap t \<le> cap"
proof -
  obtain c1 cap where g: "grow_cache (int (length d)) t = Some (t\<lparr>tr_cache := c1, tr_cap := cap\<rparr>)"
    "holds_text (t\<lparr>tr_cache := c1, tr_cap := cap\<rparr>) w" "int (length w + length d) \<le> cap" "tr_cap t \<le> cap"
    using grow_cache_room [OF h n] by auto
  then obtain post where c1: "c1 = w @ NUL # post" "NUL \<notin> set w" "length c1 = nat (cap + 1)"
    "tr_size t = int (length w)" by (auto simp: holds_text_def)
  have "length d < length post + 1" using g(3) c1 by simp
  moreover have "c_int (tr_size t + int (length d)) = Some (tr_size t + int (length d))"
    using n(2) c1(4) by (simp add: int_of_bits_def)
  moreover note strcat_at [OF c1(2) b(2), of post q]
  ultimately have "append_cache (int (length d)) t = Some (t\<lparr>tr_cache := w @ d @ NUL # drop (length d) post,
      tr_cap := cap, tr_size := tr_size t + int (length d)\<rparr>)"
    using f by (simp add: append_cache_def g(1) b(1) c1(1))
  moreover have "holds_text (t\<lparr>tr_cache := w @ d @ NUL # drop (length d) post, tr_cap := cap,
      tr_size := tr_size t + int (length d)\<rparr>) (w @ d)"
    using c1 b(2) g(3) by (auto simp: holds_text_def)
  ultimately show ?thesis using g(4) by blast
qed

end
