(* ===== verification/Copying_Props.thy ===== *)
theory Copying_Props
  imports Copying
begin

text \<open>What the transfer loops forward and what they leave in the block that will be cached.\<close>

section \<open>Writing to a client that accepts everything\<close>

lemma writeall_accepts:
  assumes "wr c = []" "len \<le> length buf"
  shows "writeall c buf len = Some (0, len, c\<lparr>sent := sent c @ take len buf\<rparr>)"
proof (cases "len = 0")
  case True
  then show ?thesis by (simp add: writeall_def writeall_loop.simps)
next
  case False
  have b: "bytes buf 0 len = Some (take len buf)" using assms by (simp add: bytes_def)
  have "writeall_loop c' buf len len = Some (0, len, c')" for c' by (subst writeall_loop.simps) simp
  then show ?thesis unfolding writeall_def using False assms b
    by (subst writeall_loop.simps) (simp add: swrite_def min_def)
qed

section \<open>bufferedForward\<close>

definition block_buf :: cbuf where
  "block_buf = replicate (RESPONSE_HEADER_SIZE + 1) NUL"

lemma store_block:
  assumes "length d \<le> RESPONSE_HEADER_SIZE"
  shows "store_bytes block_buf 0 d = Some (d @ NUL # replicate (RESPONSE_HEADER_SIZE - length d) NUL)"
proof -
  have "drop (length d) block_buf = NUL # replicate (RESPONSE_HEADER_SIZE - length d) NUL"
    using assms Suc_diff_le [OF assms] by (simp add: block_buf_def del: replicate_Suc)
      (simp only: replicate_Suc)
  then show ?thesis using assms by (simp add: store_bytes_def block_buf_def)
qed

lemma clear_block_buf:
  assumes "tr_buf t = d @ NUL # replicate (RESPONSE_HEADER_SIZE - length d) NUL" "length d \<le> RESPONSE_HEADER_SIZE"
  shows "clear_block t = Some (t\<lparr>tr_buf := block_buf\<rparr>)"
proof -
  have "drop RESPONSE_HEADER_SIZE (tr_buf t) = [NUL]"
  proof (cases "length d = RESPONSE_HEADER_SIZE")
    case False
    then obtain k where k: "RESPONSE_HEADER_SIZE - length d = Suc k" "RESPONSE_HEADER_SIZE = length d + Suc k"
      using assms(2) by (metis add_Suc_right le_add_diff_inverse le_neq_implies_less less_imp_Suc_add diff_add_inverse)
    then show ?thesis using assms(1) by (simp add: replicate_append_same [symmetric] del: replicate_Suc)
  qed (use assms(1) in simp)
  then show ?thesis using assms
    by (simp add: clear_block_def zero_def store_bytes_def block_buf_def replicate_append_same)
qed

text \<open>The state at the head of the loop: the buffer is clear, the cache block holds \<open>w\<close>.\<close>

definition block_inv :: "transfer \<Rightarrow> string \<Rightarrow> bool" where
  "block_inv t w \<longleftrightarrow> holds_text t w \<and> \<not> tr_fail t \<and> int RESPONSE_HEADER_SIZE \<le> tr_cap t \<and>
     tr_buf t = block_buf \<and> NUL \<notin> set (arrives (tr_server t))"

lemma one_block_spec:
  assumes inv: "block_inv t w" and d: "d \<noteq> []" "length d \<le> RESPONSE_HEADER_SIZE" "NUL \<notin> set d"
    and room: "0 \<le> tr_written t" "tr_written t \<le> int (length w)" "int (length w + length d) \<le> 2 ^ 30"
  shows "(\<exists>t1. one_block d t = Some (Inr t1) \<and> clear_block t1 \<noteq> None \<and>
        (\<forall>t2. clear_block t1 = Some t2 \<longrightarrow> block_inv t2 (w @ d) \<and> tr_server t2 = tr_server t \<and>
          sent (tr_client t2) = sent (tr_client t) @ d \<and> tr_written t2 = tr_written t + int (length d) \<and>
          (wr (tr_client t) = [] \<longrightarrow> wr (tr_client t2) = []))) \<or>
      (\<exists>t1 t2 k. one_block d t = Some (Inl t1) \<and> clear_block t1 = Some t2 \<and> k < length d \<and> block_inv t2 w \<and>
        tr_server t2 = tr_server t \<and> sent (tr_client t2) = sent (tr_client t) @ take k d \<and>
        tr_written t2 = tr_written t \<and> wr (tr_client t) \<noteq> [])"
proof -
  let ?b = "d @ NUL # replicate (RESPONSE_HEADER_SIZE - length d) NUL"
  have st: "store_bytes (tr_buf t) 0 d = Some ?b"
    using inv store_block [OF d(2)] by (simp add: block_inv_def)
  have total: "c_int (tr_written t + int (length d)) = Some (tr_written t + int (length d))"
    using room by (simp add: int_of_bits_def)
  obtain rc n cl where wa: "writeall (tr_client t) ?b (length d) = Some (rc, n, cl)"
    "writes (tr_client t) d (rc, n, cl)"
    using writeall_spec [of "length d" ?b "tr_client t"] by auto
  have acc: "wr (tr_client t) = [] \<Longrightarrow> rc = 0 \<and> wr cl = []"
    using writeall_accepts [of "tr_client t" "length d" ?b] wa(1) by auto
  show ?thesis
  proof (cases "rc = 0")
    case True
    let ?t = "t\<lparr>tr_buf := ?b, tr_client := cl, tr_written := tr_written t + int n\<rparr>"
    have n: "n = length d" "sent cl = sent (tr_client t) @ d" using wa(2) True by (auto simp: writes_def)
    have "holds_text ?t w" "int (length d) \<le> tr_cap ?t" "int (length w + length d) \<le> 2 ^ 30" "\<not> tr_fail ?t"
      using inv d(2) room(3) by (auto simp: block_inv_def holds_text_def)
    from append_cache_text [OF this, of "replicate (RESPONSE_HEADER_SIZE - length d) NUL"] d(3)
    obtain c cap where ap: "append_cache (int (length d)) ?t =
        Some (?t\<lparr>tr_cache := c, tr_cap := cap, tr_size := tr_size t + int (length d)\<rparr>)"
      "holds_text (?t\<lparr>tr_cache := c, tr_cap := cap, tr_size := tr_size t + int (length d)\<rparr>) (w @ d)"
      "tr_cap t \<le> cap" by auto
    let ?t1 = "?t\<lparr>tr_cache := c, tr_cap := cap, tr_size := tr_size t + int (length d)\<rparr>"
    have o: "one_block d t = Some (Inr ?t1)"
      using ap(1) True n(1) by (simp add: one_block_def st wa(1) total)
    have cb: "clear_block ?t1 = Some (?t1\<lparr>tr_buf := block_buf\<rparr>)"
      by (rule clear_block_buf) (use d(2) in simp_all)
    have "block_inv (?t1\<lparr>tr_buf := block_buf\<rparr>) (w @ d)"
      using inv ap(2,3) by (simp add: block_inv_def holds_text_def)
    then show ?thesis using o cb n acc by auto
  next
    case False
    let ?t = "t\<lparr>tr_buf := ?b, tr_client := cl\<rparr>"
    obtain k where k: "rc = -1" "k < length d" "sent cl = sent (tr_client t) @ take k d"
      using wa(2) False by (auto simp: writes_def)
    have o: "one_block d t = Some (Inl ?t)" using k(1) by (simp add: one_block_def st wa(1) total)
    have cb: "clear_block ?t = Some (?t\<lparr>tr_buf := block_buf\<rparr>)"
      by (rule clear_block_buf) (use d(2) in simp_all)
    have "block_inv (?t\<lparr>tr_buf := block_buf\<rparr>) w"
      using inv by (simp add: block_inv_def holds_text_def)
    then show ?thesis using o cb k acc False by auto
  qed
qed

lemma clear_block_inv:
  assumes "block_inv t w"
  shows "clear_block t = Some t"
proof -
  have "clear_block t = Some (t\<lparr>tr_buf := block_buf\<rparr>)"
    using assms by (intro clear_block_buf [of t "[]"]) (simp_all add: block_inv_def block_buf_def)
  then show ?thesis using assms by (simp add: block_inv_def)
qed

definition blocks_done :: "int \<Rightarrow> transfer \<Rightarrow> string \<Rightarrow> transfer \<Rightarrow> string \<Rightarrow> string \<Rightarrow> bool" where
  "blocks_done bodySize t w t' D E \<longleftrightarrow> holds_text t' (w @ D) \<and> \<not> tr_fail t' \<and>
     (\<exists>r. arrives (tr_server t) = D @ E @ r) \<and>
     sent (tr_client t') = sent (tr_client t) @ D @ E \<and> tr_written t' = tr_written t + int (length D) \<and>
     (wr (tr_client t) = [] \<longrightarrow> E = [] \<and> (bodySize \<le> tr_written t' \<or> D = arrives (tr_server t)))"

text \<open>The read that ends the loop.\<close>

lemma blocks_end:
  assumes inv: "block_inv t w" and go: "tr_written t < bodySize"
    and sr: "sread RESPONSE_HEADER_SIZE (tr_server t) = (a, rs)" and a: "a = None \<or> a = Some []"
  shows "blocks bodySize t = Some (t\<lparr>tr_server := rs\<rparr>)" "blocks_done bodySize t w (t\<lparr>tr_server := rs\<rparr>) [] []"
proof -
  let ?t = "t\<lparr>tr_server := rs\<rparr>"
  have "clear_block ?t = Some (?t\<lparr>tr_buf := block_buf\<rparr>)"
    using inv by (intro clear_block_buf [of ?t "[]"]) (simp_all add: block_inv_def block_buf_def)
  then have "clear_block ?t = Some ?t" using inv by (simp add: block_inv_def)
  then show "blocks bodySize t = Some ?t" using go a sr by (subst blocks.simps) auto
  have "arrives rs = [] \<and> arrives (tr_server t) = [] \<or> a = None"
    using a sread_end [of RESPONSE_HEADER_SIZE "tr_server t" rs] sr by (auto simp: RESPONSE_HEADER_SIZE_def)
  then have "arrives (tr_server t) = []"
    using a sread_fail [of RESPONSE_HEADER_SIZE "tr_server t" rs] sr by auto
  then show "blocks_done bodySize t w ?t [] []"
    using inv by (simp add: blocks_done_def block_inv_def holds_text_def)
qed

text \<open>After a block that was forwarded, and after one that the client did not take.\<close>

lemma blocks_go:
  assumes "blocks_done bodySize t2 (w @ d) t' D E" "tr_server t2 = rs" "arrives (tr_server t) = d @ arrives rs"
    and "sent (tr_client t2) = sent (tr_client t) @ d" "tr_written t2 = tr_written t + int (length d)"
    and "wr (tr_client t) = [] \<longrightarrow> wr (tr_client t2) = []"
  shows "blocks_done bodySize t w t' (d @ D) E"
  using assms by (auto simp: blocks_done_def)

lemma blocks_broken:
  assumes "tr_server t2 = rs" "sent (tr_client t2) = sent (tr_client t) @ take k d" "k < length d" "block_inv t2 w"
    and "arrives (tr_server t) = d @ arrives rs" "tr_written t2 = tr_written t" "wr (tr_client t) \<noteq> []"
  shows "blocks_done bodySize t w t2 [] (take k d)"
proof -
  have "d @ arrives rs = take k d @ (drop k d @ arrives rs)" by simp
  then have "\<exists>r. d @ arrives rs = take k d @ r" by blast
  then show ?thesis using assms by (simp add: blocks_done_def block_inv_def)
qed

text \<open>What is still to come fits the \<open>int\<close>s, with a last block that may go beyond the end of the body.\<close>

definition within_int :: "int \<Rightarrow> transfer \<Rightarrow> string \<Rightarrow> bool" where
  "within_int bodySize t w \<longleftrightarrow> 0 \<le> tr_written t \<and> tr_written t \<le> int (length w) \<and>
     int (length w) + (bodySize - tr_written t) + int RESPONSE_HEADER_SIZE \<le> 2 ^ 30"

lemma within_int_step:
  assumes "within_int bodySize t w" "tr_written t < bodySize" "length d \<le> RESPONSE_HEADER_SIZE"
  shows "0 \<le> tr_written t" "tr_written t \<le> int (length w)" "int (length w + length d) \<le> 2 ^ 30"
    "tr_written t2 = tr_written t + int (length d) \<Longrightarrow> within_int bodySize t2 (w @ d)"
  using assms by (auto simp: within_int_def)

lemma blocks_spec:
  "block_inv t w \<Longrightarrow> within_int bodySize t w \<Longrightarrow>
    \<exists>t' D E. blocks bodySize t = Some t' \<and> blocks_done bodySize t w t' D E"
proof (induction "script_size (tr_server t)" arbitrary: t w rule: less_induct)
  case less
  note inv = less.prems(1)
  show ?case
  proof (cases "tr_written t < bodySize")
    case False
    then have "blocks bodySize t = Some t" by (subst blocks.simps) simp
    moreover have "blocks_done bodySize t w t [] []"
      using inv False by (simp add: blocks_done_def block_inv_def)
    ultimately show ?thesis by blast
  next
    case True
    obtain a rs where sr: "sread RESPONSE_HEADER_SIZE (tr_server t) = (a, rs)" by fastforce
    let ?t = "t\<lparr>tr_server := rs\<rparr>"
    show ?thesis
    proof (cases "a = None \<or> a = Some []")
      case True': True
      show ?thesis using blocks_end [OF inv True sr True'] by blast
    next
      case False
      then obtain d where a: "a = Some d" "d \<noteq> []" by auto
      note sd = sread_data [OF sr [unfolded a(1)]]
      have nd: "NUL \<notin> set d" and inv': "block_inv ?t w"
        using inv sd(2) by (auto simp: block_inv_def holds_text_def)
      have unf: "blocks bodySize t = do { r \<leftarrow> one_block d ?t;
          (case r of Inl t \<Rightarrow> clear_block t | Inr t \<Rightarrow> do { t' \<leftarrow> clear_block t; blocks bodySize t' }) }"
        using True sr a by (subst blocks.simps) simp
      have "within_int bodySize ?t w" "tr_written ?t < bodySize" using less.prems(2) True by (simp_all add: within_int_def)
      note room = within_int_step [OF this sd(1)]
      from one_block_spec [OF inv' a(2) sd(1) nd room(1-3)] show ?thesis
      proof (elim disjE exE conjE)
        fix t1 assume o: "one_block d ?t = Some (Inr t1)" and ne: "clear_block t1 \<noteq> None"
          and all: "\<forall>t2. clear_block t1 = Some t2 \<longrightarrow> block_inv t2 (w @ d) \<and> tr_server t2 = tr_server ?t \<and>
          sent (tr_client t2) = sent (tr_client ?t) @ d \<and> tr_written t2 = tr_written ?t + int (length d) \<and>
          (wr (tr_client ?t) = [] \<longrightarrow> wr (tr_client t2) = [])"
        obtain t2 where c: "clear_block t1 = Some t2" using ne by auto
        have "script_size (tr_server t2) < script_size (tr_server t)"
          using all c sread_size [OF sr [unfolded a(1)] a(2)] by simp
        from less.hyps [OF this] obtain t' D E where "blocks bodySize t2 = Some t'"
          "blocks_done bodySize t2 (w @ d) t' D E" using all c room(4) [of t2] by blast
        with unf o c show ?thesis using all blocks_go [of bodySize t2 w d t' D E rs t] sd(2) by auto
      next
        fix t1 t2 k assume *: "one_block d ?t = Some (Inl t1)" "clear_block t1 = Some t2" "k < length d"
          "block_inv t2 w" "tr_server t2 = tr_server ?t" "sent (tr_client t2) = sent (tr_client ?t) @ take k d"
          "tr_written t2 = tr_written ?t" "wr (tr_client ?t) \<noteq> []"
        then show ?thesis using unf blocks_broken [of t2 rs t k d w bodySize] sd(2) by auto
      qed
    qed
  qed
qed

section \<open>transferChunks\<close>

text \<open>The state at the head of the loop: the first \<open>BUFSIZE\<close> bytes of the buffer are clear and the
  byte after them is a NUL; the capacity is never exceeded by the size, which does not change.\<close>

definition chunk_inv :: "transfer \<Rightarrow> string \<Rightarrow> string \<Rightarrow> bool" where
  "chunk_inv t w post \<longleftrightarrow> NUL \<notin> set w \<and> tr_cache t = w @ NUL # post \<and> \<not> tr_fail t \<and> tr_size t \<le> tr_cap t \<and>
     (\<exists>q. tr_buf t = replicate BUFSIZE NUL @ NUL # q) \<and> wr (tr_client t) = [] \<and>
     NUL \<notin> set (arrives (tr_server t)) \<and> ReadErr \<notin> set (tr_server t) \<and>
     0 \<le> tr_written t \<and> tr_written t \<le> int (length w) \<and> 0 \<le> tr_size t \<and> tr_cap t < 2 ^ 31 \<and>
     int (length w + length post) < 2 ^ 31"

lemma replicate_split: "n \<le> m \<Longrightarrow> replicate m x = replicate n x @ replicate (m - n) x"
  by (simp add: replicate_add [symmetric])

lemma one_chunk_spec:
  assumes inv: "chunk_inv t w post" and d: "length d \<le> BUFSIZE" "NUL \<notin> set d"
  shows "length d \<le> length post \<Longrightarrow> \<exists>t'. one_chunk d t = Some (Inr t') \<and>
      chunk_inv t' (w @ d) (drop (length d) post) \<and> tr_server t' = tr_server t \<and>
      tr_client t' = (tr_client t)\<lparr>sent := sent (tr_client t) @ d\<rparr> \<and> tr_written t' = tr_written t + int (length d)"
    and "length post < length d \<Longrightarrow> one_chunk d t = None"
proof -
  obtain q where q: "tr_buf t = replicate BUFSIZE NUL @ NUL # q" using inv by (auto simp: chunk_inv_def)
  let ?b = "d @ replicate (BUFSIZE - length d) NUL @ NUL # q"
  have st: "store_bytes (tr_buf t) 0 d = Some ?b"
    using d(1) by (simp add: store_bytes_def q)
  have e: "\<exists>r. ?b = d @ NUL # r"
    by (cases "BUFSIZE - length d") auto
  then obtain r where r: "?b = d @ NUL # r" by blast
  let ?cl = "(tr_client t)\<lparr>sent := sent (tr_client t) @ d\<rparr>"
  have wa: "writeall (tr_client t) ?b (length d) = Some (0, length d, ?cl)"
    using writeall_accepts [of "tr_client t" "length d" ?b] inv by (simp add: chunk_inv_def)
  let ?t = "t\<lparr>tr_buf := ?b, tr_client := ?cl\<rparr>"
  have sz: "c_int (tr_size t) = Some (tr_size t)" using inv by (simp add: int_of_bits_def chunk_inv_def)
  have g: "grow_cache 0 ?t = Some ?t" using inv by (simp add: grow_cache_def chunk_inv_def)
  have f: "\<not> tr_fail ?t" "tr_cache ?t = w @ NUL # post" "NUL \<notin> set w"
    using inv by (simp_all add: chunk_inv_def)
  { assume fits: "length d \<le> length post"
    have "strcat (tr_cache ?t) (tr_buf ?t) = Some (w @ d @ NUL # drop (length d) post)"
      using strcat_at [OF f(3) d(2), of post r] f(2) r fits by simp
    then have a: "append_cache 0 ?t = Some (?t\<lparr>tr_cache := w @ d @ NUL # drop (length d) post\<rparr>)"
      using f(1) g sz by (simp add: append_cache_def)
    have "tr_written t + int (length d) < 2 ^ 31" using inv fits by (simp add: chunk_inv_def)
    then have tot: "c_int (tr_written t + int (length d)) = Some (tr_written t + int (length d))"
      using inv by (simp add: int_of_bits_def chunk_inv_def)
    have z: "zero ?b 0 BUFSIZE = Some (replicate BUFSIZE NUL @ NUL # q)"
      using d(1) by (simp add: zero_def store_bytes_def)
    show "\<exists>t'. one_chunk d t = Some (Inr t') \<and>
      chunk_inv t' (w @ d) (drop (length d) post) \<and> tr_server t' = tr_server t \<and>
      tr_client t' = (tr_client t)\<lparr>sent := sent (tr_client t) @ d\<rparr> \<and> tr_written t' = tr_written t + int (length d)"
      using inv d(2) fits by (simp add: one_chunk_def st wa a z tot chunk_inv_def) }
  { assume "length post < length d"
    then have "strcat (tr_cache ?t) (tr_buf ?t) = None"
      using strcat_overflow [OF f(3) d(2), of post r] f(2) r by simp
    then have "append_cache 0 ?t = None" using f(1) g by (simp add: append_cache_def)
    then show "one_chunk d t = None" by (simp add: one_chunk_def st wa) }
qed

lemma chunk_inv_server:
  "chunk_inv t w post \<Longrightarrow> NUL \<notin> set (arrives r) \<Longrightarrow> ReadErr \<notin> set r \<Longrightarrow> chunk_inv (t\<lparr>tr_server := r\<rparr>) w post"
  by (simp add: chunk_inv_def)

lemma BUFSIZE_pos: "0 < BUFSIZE"
  by (simp add: BUFSIZE_def)

definition chunks_done :: "nat \<Rightarrow> transfer \<Rightarrow> string \<Rightarrow> string \<Rightarrow> string \<Rightarrow> ev list \<Rightarrow> bool" where
  "chunks_done grace t w post D q \<longleftrightarrow>
     (if length D \<le> length post
      then \<exists>t'. chunks grace t = Some (Inr t') \<and> chunk_inv t' (w @ D) (drop (length D) post) \<and>
        sent (tr_client t') = sent (tr_client t) @ D \<and> tr_server t' = q \<and>
        tr_written t' = tr_written t + int (length D)
      else chunks grace t = None)"

lemma chunks_data:
  assumes unf: "chunks grace t = do { r \<leftarrow> one_chunk d (t\<lparr>tr_server := rs\<rparr>);
      (case r of Inl t \<Rightarrow> Some (Inl t) | Inr t \<Rightarrow> chunks grace t) }"
    and inv: "chunk_inv (t\<lparr>tr_server := rs\<rparr>) w post" "length d \<le> BUFSIZE" "NUL \<notin> set d"
    and rest: "\<And>t'. chunk_inv t' (w @ d) (drop (length d) post) \<Longrightarrow> tr_server t' = rs \<Longrightarrow>
      chunks_done grace t' (w @ d) (drop (length d) post) D q"
  shows "chunks_done grace t w post (d @ D) q"
proof (cases "length d \<le> length post")
  case False
  then show ?thesis using unf one_chunk_spec(2) [OF inv] by (simp add: chunks_done_def)
next
  case True
  obtain t' where t': "one_chunk d (t\<lparr>tr_server := rs\<rparr>) = Some (Inr t')" "chunk_inv t' (w @ d) (drop (length d) post)"
    "tr_server t' = rs" "tr_client t' = (tr_client t)\<lparr>sent := sent (tr_client t) @ d\<rparr>"
    "tr_written t' = tr_written t + int (length d)"
    using one_chunk_spec(1) [OF inv True] by auto
  show ?thesis using unf t' rest [OF t'(2,3)] True
    by (auto simp: chunks_done_def add.commute [of "length d"] split: if_splits)
qed

lemma chunks_spec:
  assumes "chunk_inv t w post" "delivered grace (tr_server t) = (D, q)"
  shows "chunks_done grace t w post D q"
  using assms
proof (induction "script_size (tr_server t)" arbitrary: t w post grace D rule: less_induct)
  case less
  note inv = less.prems(1)
  have ne: "NUL \<notin> set (arrives (tr_server t))" "ReadErr \<notin> set (tr_server t)"
    using inv by (simp_all add: chunk_inv_def)
  show ?case
  proof (cases "0 < grace")
    case False
    then have "chunks grace t = Some (Inr t)" by (subst chunks.simps) simp
    then show ?thesis using inv less.prems(2) False by (simp add: chunks_done_def)
  next
    case g: True
    from ne(2) BUFSIZE_pos g show ?thesis
    proof (cases rule: script_cases)
      case closed
      then have "chunks grace t = Some (Inr t)" using g by (subst chunks.simps) simp
      then show ?thesis using closed inv less.prems(2) by (simp add: chunks_done_def)
    next
      case (quiet r)
      have "chunks grace t = chunks (grace - 1) (t\<lparr>tr_server := r\<rparr>)"
        using quiet(1) g by (subst chunks.simps) simp
      moreover have "chunks_done (grace - 1) (t\<lparr>tr_server := r\<rparr>) w post D q"
        by (rule less.hyps) (use quiet less.prems chunk_inv_server [OF inv] ne in simp_all)
      ultimately show ?thesis by (auto simp: chunks_done_def split: if_splits)
    next
      case (data d r)
      define D' where "D' = fst (delivered grace r)"
      have D: "D = d @ D'" "delivered grace r = (D', q)" using data(3) less.prems(2) by (simp_all add: D'_def)
      have nd: "NUL \<notin> set d" "NUL \<notin> set (arrives r)" using ne(1) data(4) by auto
      let ?t = "t\<lparr>tr_server := r\<rparr>"
      have inv': "chunk_inv ?t w post" by (rule chunk_inv_server [OF inv nd(2) data(8)])
      have unf: "chunks grace t = do { r \<leftarrow> one_chunk d ?t;
         (case r of Inl t \<Rightarrow> Some (Inl t) | Inr t \<Rightarrow> chunks grace t) }"
        using data(1,2) g by (subst chunks.simps) simp
      have "chunks_done grace t' (w @ d) (drop (length d) post) D' q" if "chunk_inv t' (w @ d) (drop (length d) post)"
        "tr_server t' = r" for t'
        by (rule less.hyps) (use that data D in simp_all)
      then show ?thesis unfolding D(1) by (rule chunks_data [OF unf inv' data(6) nd(1)]) simp_all
    qed
  qed
qed

section \<open>Properties\<close>

text \<open>C23: \<open>writeall\<close> never reads outside of its buffer and always returns: with 0 when every byte was
  written in order, or with -1 after a proper prefix; in both cases \<open>*len\<close> is the whole length.\<close>

theorem writeall_complete:
  assumes "len \<le> length buf"
  shows "\<exists>rc c'. writeall c buf len = Some (rc, len, c') \<and> rx c' = rx c \<and>
    (rc = 0 \<and> sent c' = sent c @ take len buf \<or>
     rc = -1 \<and> (\<exists>k<len. sent c' = sent c @ take k buf))"
  using writeall_loop_spec [OF assms, of 0 c] by (simp add: writeall_def)

definition quiet_client :: sock where
  "quiet_client = \<lparr>rx = [], wr = [], sent = []\<rparr>"

theorem writeall_complete_witness:
  "\<exists>rc c'. writeall \<lparr>rx = [], wr = [Some 0, None], sent = []\<rparr> ''abc'' 3 = Some (rc, 3, c') \<and>
     (rc = 0 \<and> sent c' = ''abc'' \<or> rc = -1 \<and> (\<exists>k<3. sent c' = take k ''abc''))"
  using writeall_complete [of 3 "''abc''" "\<lparr>rx = [], wr = [Some 0, None], sent = []\<rparr>"] by auto

text \<open>The block that \<open>forwardRequest\<close> allocates for the cache, holding \<open>w\<close>.\<close>

definition cache_block :: "string \<Rightarrow> cbuf" where
  "cache_block w = w @ replicate (RESPONSE_HEADER_SIZE + 1 - length w) NUL"

definition fits_block :: "string \<Rightarrow> bool" where
  "fits_block w \<longleftrightarrow> NUL \<notin> set w \<and> length w \<le> RESPONSE_HEADER_SIZE"

lemma cache_block_cons:
  assumes "fits_block w"
  shows "cache_block w = w @ NUL # replicate (RESPONSE_HEADER_SIZE - length w) NUL"
  using assms Suc_diff_le [of "length w" RESPONSE_HEADER_SIZE] by (simp add: cache_block_def fits_block_def)

lemma strlen_cache_block: "fits_block w \<Longrightarrow> strlen (cache_block w) 0 = Some (length w)"
  using strlen_at [of w "[]" "replicate (RESPONSE_HEADER_SIZE - length w) NUL"] cache_block_cons [of w]
  by (simp add: fits_block_def)

lemma start_block:
  assumes "fits_block w" "NUL \<notin> set (arrives server)" "canCache \<noteq> 0"
  shows "\<exists>t. start_transfer server client block_buf (cache_block w) canCache = Some t \<and> block_inv t w \<and>
    tr_server t = server \<and> tr_client t = client \<and> tr_written t = 0"
  using assms cache_block_cons [OF assms(1)] strlen_cache_block [OF assms(1)]
  by (auto simp: start_transfer_def block_inv_def holds_text_def fits_block_def)


lemma fits_status: "fits_block ''HTTP''"
  by (simp add: fits_block_def RESPONSE_HEADER_SIZE_def)


text \<open>A response of which the server sent only a part is cached all the same, although it is meant
  to be cached only at the end of a complete transfer.\<close>

theorem truncated_body_cached:
  assumes "fits_block w" "NUL \<notin> set (arrives server)" "canCache \<noteq> 0" "wr client = []"
    and "int (length (arrives server)) < bodySize" "int (length w) + bodySize + int RESPONSE_HEADER_SIZE \<le> 2 ^ 30"
  shows "\<exists>oc. bufferedForward server client block_buf (cache_block w) bodySize canCache = Some oc \<and>
    oc_ret oc < bodySize \<and> oc_canCache oc = 1 \<and> cstr (oc_cache oc) 0 = Some (w @ arrives server)"
proof -
  obtain t where t: "start_transfer server client block_buf (cache_block w) canCache = Some t" "block_inv t w"
    "tr_server t = server" "tr_client t = client" "tr_written t = 0"
    using start_block [OF assms(1-3), of client] by blast
  obtain t' D E where b: "blocks bodySize t = Some t'" "blocks_done bodySize t w t' D E"
    using blocks_spec [OF t(2), of bodySize] t(5) assms(6) by (auto simp: within_int_def)
  obtain post where "tr_cache t' = (w @ D) @ NUL # post" "NUL \<notin> set (w @ D)"
    using b(2) unfolding blocks_done_def holds_text_def by blast
  then have c: "cstr (tr_cache t') 0 = Some (w @ D)" using cstr_at [of "w @ D" "[]" post] by simp
  obtain r where r: "arrives server = D @ E @ r" using b(2) t(3) unfolding blocks_done_def by blast
  have "length D \<le> length (arrives server)" by (simp add: r)
  then have "D = arrives server" using b(2) t assms(4,5) by (auto simp: blocks_done_def)
  then show ?thesis using t b c assms(5) by (simp add: bufferedForward_def blocks_done_def)
qed

theorem truncated_body_cached_witness:
  "\<exists>oc. bufferedForward [Data ''half''] quiet_client block_buf (cache_block ''HTTP'') 8 1 = Some oc \<and>
    oc_ret oc < 8 \<and> oc_canCache oc = 1 \<and> cstr (oc_cache oc) 0 = Some ''HTTPhalf''"
  using truncated_body_cached [OF fits_status, of "[Data ''half'']" 1 quiet_client 8]
  by (simp add: quiet_client_def RESPONSE_HEADER_SIZE_def)

lemma transferChunks_spec:
  assumes "fits_block w" "NUL \<notin> set (arrives server)" "ReadErr \<notin> set server"
    and "delivered 100 server = (D, rest)" "wr client = []" "canCache \<noteq> 0"
  shows "case transferChunks server client (replicate BUFSIZE NUL @ NUL # q) (cache_block w) canCache of
     None \<Rightarrow> RESPONSE_HEADER_SIZE < length w + length D
   | Some oc \<Rightarrow> length w + length D \<le> RESPONSE_HEADER_SIZE \<and>
       oc_ret oc = int (length D) \<and> oc_canCache oc = 1 \<and> oc_server oc = rest \<and>
       sent (oc_client oc) = sent client @ D \<and> cstr (oc_cache oc) 0 = Some (w @ D)"
proof -
  let ?post = "replicate (RESPONSE_HEADER_SIZE - length w) NUL"
  let ?buf = "replicate BUFSIZE NUL @ NUL # q"
  obtain t where t: "start_transfer server client ?buf (cache_block w) canCache = Some t" "chunk_inv t w ?post"
    "tr_server t = server" "tr_client t = client" "tr_written t = 0"
    using assms strlen_cache_block [OF assms(1)] cache_block_cons [OF assms(1)]
    by (auto simp: start_transfer_def chunk_inv_def fits_block_def RESPONSE_HEADER_SIZE_def)
  have "chunks_done 100 t w ?post D rest" by (rule chunks_spec [OF t(2)]) (simp add: t(3) assms(4))
  note cd = this [unfolded chunks_done_def]
  show ?thesis
  proof (cases "length D \<le> RESPONSE_HEADER_SIZE - length w")
    case True
    then obtain t' where t': "chunks 100 t = Some (Inr t')"
      "chunk_inv t' (w @ D) (drop (length D) ?post)" "tr_server t' = rest"
      "sent (tr_client t') = sent client @ D" "tr_written t' = int (length D)"
      using cd t(4,5) by auto
    obtain q' where b: "tr_buf t' = replicate BUFSIZE NUL @ NUL # q'" and f: "\<not> tr_fail t'"
      and c: "tr_cache t' = (w @ D) @ NUL # drop (length D) ?post" and n: "NUL \<notin> set (w @ D)"
      using t'(2) by (auto simp: chunk_inv_def)
    have "zero (tr_buf t') 0 BUFSIZE = Some (tr_buf t')" by (simp add: b zero_def store_bytes_def)
    moreover have "cstr (tr_cache t') 0 = Some (w @ D)" using cstr_at [OF n, of "[]"] c by simp
    moreover have "length w + length D \<le> RESPONSE_HEADER_SIZE"
      using True assms(1) unfolding fits_block_def by linarith
    ultimately show ?thesis using t(1) t' f by (simp add: transferChunks_def)
  next
    case False
    then have "chunks 100 t = None" using cd by simp
    then show ?thesis using t(1) False assms(1) by (simp add: transferChunks_def fits_block_def)
  qed
qed

text \<open>C22: let the byte after the 1024 of the chunk buffer be zero (it belongs to the buffer of the request,
  which was not longer then), the text be without zero bytes, and the client accept everything.
  Then \<open>transferChunks\<close> forwards and caches what the server sends before its hundredth pause, and
  says that it may be cached even when the server has more to send. But the cache buffer never grows,
  because the return value of \<open>writeall\<close> (0) is taken for the number of bytes written: with a text of
  up to 8192 bytes in all nothing faults; with more, the block on the heap overflows.\<close>

theorem chunked_capacity:
  assumes "fits_block w" "NUL \<notin> set (arrives server)" "ReadErr \<notin> set server"
    and "delivered 100 server = (D, rest)" "wr client = []" "canCache \<noteq> 0"
  shows "case transferChunks server client (replicate BUFSIZE NUL @ NUL # q) (cache_block w) canCache of
     None \<Rightarrow> RESPONSE_HEADER_SIZE < length w + length D
   | Some oc \<Rightarrow> length w + length D \<le> RESPONSE_HEADER_SIZE \<and>
       oc_ret oc = int (length D) \<and> oc_canCache oc = 1 \<and> oc_server oc = rest \<and>
       sent (oc_client oc) = sent client @ D \<and> cstr (oc_cache oc) 0 = Some (w @ D)"
  by (rule transferChunks_spec [OF assms])

theorem chunked_capacity_witness:
  "transferChunks [Data (replicate 9000 (CHR ''x''))] quiet_client (replicate BUFSIZE NUL @ NUL # [])
     (cache_block ''HTTP'') 1 = None"
proof -
  define x where "x = replicate 9000 (CHR ''x'')"
  have r: "NUL \<notin> set x" "length x = 9000" "x \<noteq> []" by (simp_all add: x_def)
  have d: "delivered 100 [Data x] = (x, [])" using r(3) by (simp add: eval_nat_numeral)
  have "NUL \<notin> set (arrives [Data x])" "ReadErr \<notin> set [Data x]" using r(1) by simp_all
  from chunked_capacity [OF fits_status this d, of quiet_client 1 "[]"] r(2)
  show ?thesis unfolding x_def [symmetric]
    by (auto simp: quiet_client_def RESPONSE_HEADER_SIZE_def split: option.splits)
qed

text \<open>A chunk of exactly 1024 bytes leaves no NUL behind it in the buffer, which is the one the
  client's request was read into: what the request has after its first 1024 bytes is appended to the
  chunk in the cache (and not in what the client gets).\<close>

theorem stale_request_cached:
  assumes "fits_block w" "length d = BUFSIZE" "NUL \<notin> set d" "NUL \<notin> set stale" "wr client = []" "canCache \<noteq> 0"
    and "length w + length d + length stale \<le> RESPONSE_HEADER_SIZE"
  shows "\<exists>oc. transferChunks [Data d] client (replicate BUFSIZE NUL @ stale @ NUL # q) (cache_block w) canCache = Some oc \<and>
    sent (oc_client oc) = sent client @ d \<and> oc_canCache oc = 1 \<and> cstr (oc_cache oc) 0 = Some (w @ d @ stale)"
proof -
  let ?buf = "replicate BUFSIZE NUL @ stale @ NUL # q"
  let ?post = "replicate (RESPONSE_HEADER_SIZE - length w) NUL"
  let ?cl = "client\<lparr>sent := sent client @ d\<rparr>"
  define t where "t = \<lparr>tr_server = [Data d], tr_client = client, tr_buf = ?buf, tr_cache = cache_block w,
      tr_cap = int RESPONSE_HEADER_SIZE, tr_size = int (length w), tr_fail = False, tr_written = 0\<rparr>"
  have st: "start_transfer [Data d] client ?buf (cache_block w) canCache = Some t"
    using assms(6) strlen_cache_block [OF assms(1)] by (simp add: start_transfer_def t_def)
  have nw: "NUL \<notin> set w" "d \<noteq> []" using assms(1,2) by (auto simp: fits_block_def BUFSIZE_def)
  have sb: "store_bytes ?buf 0 d = Some (d @ stale @ NUL # q)" using assms(2) by (simp add: store_bytes_def)
  have wa: "writeall client (d @ stale @ NUL # q) (length d) = Some (0, length d, ?cl)"
    using writeall_accepts [OF assms(5), of "length d" "d @ stale @ NUL # q"] by simp
  have sc: "strcat (cache_block w) (d @ stale @ NUL # q) =
      Some (w @ (d @ stale) @ NUL # drop (length (d @ stale)) ?post)"
    using strcat_at [OF nw(1), of "d @ stale" ?post q] assms(3,4,7) cache_block_cons [OF assms(1)] by simp
  let ?t = "t\<lparr>tr_server := [], tr_client := ?cl, tr_buf := ?buf, tr_written := int (length d),
      tr_cache := w @ (d @ stale) @ NUL # drop (length (d @ stale)) ?post\<rparr>"
  have z: "zero (d @ stale @ NUL # q) 0 BUFSIZE = Some ?buf" "zero ?buf 0 BUFSIZE = Some ?buf"
    using assms(2) by (simp_all add: zero_def store_bytes_def)
  have ci: "c_int (int (length w)) = Some (int (length w))" "c_int (int (length d)) = Some (int (length d))"
    using assms(1,2) by (auto intro!: c_int_small simp: fits_block_def RESPONSE_HEADER_SIZE_def BUFSIZE_def)
  have oc: "one_chunk d (t\<lparr>tr_server := []\<rparr>) = Some (Inr ?t)"
    using assms(1) by (simp add: one_chunk_def t_def sb wa append_cache_def grow_cache_def sc z ci fits_block_def)
  have fin: "chunks 100 ?t = Some (Inr ?t)" by (subst chunks.simps) (simp add: t_def)
  have "chunks 100 t = Some (Inr ?t)"
    using oc fin nw(2) assms(2) by (subst chunks.simps) (simp add: t_def)
  moreover have "cstr (w @ (d @ stale) @ NUL # drop (length (d @ stale)) ?post) 0 = Some (w @ d @ stale)"
    using cstr_at [of "w @ d @ stale" "[]" "drop (length (d @ stale)) ?post"] nw(1) assms(3,4) by simp
  ultimately show ?thesis using st z(2) by (simp add: transferChunks_def) (simp add: t_def)
qed

theorem stale_request_cached_witness:
  "\<exists>oc. transferChunks [Data (replicate BUFSIZE (CHR ''x''))] quiet_client
      (replicate BUFSIZE NUL @ ''secret'' @ NUL # []) (cache_block ''HTTP'') 1 = Some oc \<and>
    sent (oc_client oc) = replicate BUFSIZE (CHR ''x'') \<and> oc_canCache oc = 1 \<and>
    cstr (oc_cache oc) 0 = Some (''HTTP'' @ replicate BUFSIZE (CHR ''x'') @ ''secret'')"
proof -
  have l: "length (replicate BUFSIZE (CHR ''x'')) = BUFSIZE" "NUL \<notin> set (replicate BUFSIZE (CHR ''x''))"
    by simp_all
  show ?thesis
    using stale_request_cached [OF fits_status l, of "''secret''" quiet_client 1 "[]"]
    by (simp add: quiet_client_def BUFSIZE_def RESPONSE_HEADER_SIZE_def)
qed

text \<open>A body with a zero byte is forwarded completely but cached only up to that byte, and marked
  as cacheable: the next client is served a truncated body.\<close>

theorem binary_body_truncated:
  assumes "fits_block w" "NUL \<notin> set a" "length a + length b < RESPONSE_HEADER_SIZE" "wr client = []" "canCache \<noteq> 0"
    and "d = a @ NUL # b" "length w + length d \<le> RESPONSE_HEADER_SIZE"
  shows "\<exists>oc. bufferedForward [Data d] client block_buf (cache_block w) (int (length d)) canCache = Some oc \<and>
    sent (oc_client oc) = sent client @ d \<and> oc_canCache oc = 1 \<and> cstr (oc_cache oc) 0 = Some (w @ a)"
proof -
  let ?post = "replicate (RESPONSE_HEADER_SIZE - length w) NUL"
  let ?cl = "client\<lparr>sent := sent client @ d\<rparr>"
  define t where "t = \<lparr>tr_server = [Data d], tr_client = client, tr_buf = block_buf, tr_cache = cache_block w,
      tr_cap = int RESPONSE_HEADER_SIZE, tr_size = int (length w), tr_fail = False, tr_written = 0\<rparr>"
  have st: "start_transfer [Data d] client block_buf (cache_block w) canCache = Some t"
    using assms(5) strlen_cache_block [OF assms(1)] by (simp add: start_transfer_def t_def)
  have d: "d \<noteq> []" "length d \<le> RESPONSE_HEADER_SIZE" using assms(3,6) by auto
  let ?b = "d @ NUL # replicate (RESPONSE_HEADER_SIZE - length d) NUL"
  have sb: "store_bytes block_buf 0 d = Some ?b" by (rule store_block [OF d(2)])
  have wa: "writeall client ?b (length d) = Some (0, length d, ?cl)"
    using writeall_accepts [OF assms(4), of "length d" ?b] by simp
  have nw: "NUL \<notin> set w" using assms(1) by (simp add: fits_block_def)
  have be: "?b = a @ NUL # b @ NUL # replicate (RESPONSE_HEADER_SIZE - length d) NUL" by (simp add: assms(6))
  have sc: "strcat (cache_block w) ?b = Some (w @ a @ NUL # drop (length a) ?post)"
    unfolding be cache_block_cons [OF assms(1)] using assms(6,7) by (intro strcat_at [OF nw assms(2)]) simp
  let ?t = "t\<lparr>tr_server := [], tr_client := ?cl, tr_buf := ?b, tr_written := int (length d),
      tr_cache := w @ a @ NUL # drop (length a) ?post, tr_size := int (length w) + int (length d)\<rparr>"
  have g: "\<not> int (length d) > int RESPONSE_HEADER_SIZE - int (length w)" using assms(7) by simp
  have ci: "c_int (int (length d)) = Some (int (length d))" "c_int (int (length w) + int (length d)) = Some (int (length w) + int (length d))"
    using assms(7) by (auto intro!: c_int_small simp: RESPONSE_HEADER_SIZE_def)
  have ob: "one_block d (t\<lparr>tr_server := []\<rparr>) = Some (Inr ?t)"
    using g by (simp add: one_block_def t_def sb wa append_cache_def grow_cache_def sc ci)
  have cb: "clear_block ?t = Some (?t\<lparr>tr_buf := block_buf\<rparr>)"
    by (rule clear_block_buf [OF _ d(2)]) simp
  have "blocks (int (length d)) (?t\<lparr>tr_buf := block_buf\<rparr>) = Some (?t\<lparr>tr_buf := block_buf\<rparr>)"
    by (subst blocks.simps) simp
  then have "blocks (int (length d)) t = Some (?t\<lparr>tr_buf := block_buf\<rparr>)"
    using ob cb d by (subst blocks.simps) (simp add: t_def)
  moreover have "cstr (w @ a @ NUL # drop (length a) ?post) 0 = Some (w @ a)"
    using cstr_at [of "w @ a" "[]" "drop (length a) ?post"] nw assms(2) by simp
  ultimately show ?thesis using st by (simp add: bufferedForward_def) (simp add: t_def)
qed

theorem binary_body_truncated_witness:
  "\<exists>oc. bufferedForward [Data (''GIF'' @ NUL # ''89a'')] quiet_client block_buf (cache_block ''HTTP'') 7 1 = Some oc \<and>
    sent (oc_client oc) = ''GIF'' @ NUL # ''89a'' \<and> oc_canCache oc = 1 \<and> cstr (oc_cache oc) 0 = Some ''HTTPGIF''"
  using binary_body_truncated [OF fits_status, of "''GIF''" "''89a''" quiet_client 1, OF _ _ _ _ refl]
  by (simp add: quiet_client_def RESPONSE_HEADER_SIZE_def)

end
