(* ===== verification/Cacheable.thy ===== *)
theory Cacheable
  imports Cache_Props ParseRequest
begin

text \<open>
  The decision of \<open>cacheable\<close> in \<^verbatim>\<open>threadPool.c\<close>: is the response to a request in the cache, and may it
  be used? The result comes with the pointer to the cached data (0 where the code leaves it unset)
  and the messages that were logged.
\<close>

definition log_expired :: "string \<Rightarrow> string \<Rightarrow> string" where
  "log_expired UID expireTime = UID @ '': in cache but expired at '' @ expireTime"

definition cacheable :: "int \<Rightarrow> int \<Rightarrow> heap \<Rightarrow> ReqInfo \<Rightarrow> string \<Rightarrow> (cacheResult \<times> nat \<times> string list) option" where
  "cacheable zone now h reqInf UID = do {
     result \<leftarrow> get h (URI reqInf);
     if result = 0 then Some (MISS, 0, [])
     else do {
       n \<leftarrow> nodes h result;
       currentTime \<leftarrow> getCurrentTime now;
       i \<leftarrow> infos h (ninfo n);
       expiry \<leftarrow> opt_ptr (tms h) (expiryTime i);
       (case expiry of
          Some e \<Rightarrow> if 0 \<le> timeAgtB zone currentTime e
            then do {
              expireTime \<leftarrow> getTimeFromStruct e;
              msg \<leftarrow> sprintf MAX_LOG_LINE_LEN (log_expired UID expireTime);
              Some (EXPIRED, 0, [msg]) }
            else if needsRevalidation i \<noteq> 0 then Some (REVALIDATE, nval n, [])
            else do { _ \<leftarrow> strs h (nval n); Some (HIT, nval n, []) }
        | None \<Rightarrow> if needsRevalidation i \<noteq> 0 then Some (REVALIDATE, nval n, [])
            else do { _ \<leftarrow> strs h (nval n); Some (HIT, nval n, []) }) } }"

section \<open>The decision on the entries of the cache\<close>

text \<open>The reference: what the decision is for an entry at a time.\<close>

definition expired_at :: "int \<Rightarrow> entry \<Rightarrow> bool" where
  "expired_at now e \<longleftrightarrow> (case e_expiry e of None \<Rightarrow> False | Some t \<Rightarrow> mktime 0 t \<le> now)"

definition decision :: "int \<Rightarrow> entry option \<Rightarrow> cacheResult" where
  "decision now e = (case e of
     None \<Rightarrow> MISS
   | Some e \<Rightarrow> if expired_at now e then EXPIRED else if e_needs e \<noteq> 0 then REVALIDATE else HIT)"

lemma mktime_zone: "mktime zone t = mktime 0 t - zone"
  by (simp add: mktime_def)

lemma timeAgtB_now:
  assumes "getCurrentTime now = Some c"
  shows "0 \<le> timeAgtB zone c e \<longleftrightarrow> mktime 0 e \<le> now"
  using gmtime_SomeD(1) [of now c zone] assms mktime_zone [of zone e]
  by (auto simp: getCurrentTime_def timeAgtB_def Let_def)

text \<open>The expiry times that \<open>parseResponse\<close> stores are printable.\<close>

definition printable_expiry :: "entry option \<Rightarrow> bool" where
  "printable_expiry e \<longleftrightarrow> (\<forall>e' t. e = Some e' \<longrightarrow> e_expiry e' = Some t \<longrightarrow> (\<exists>x. gmtime x = Some t))"

lemma expiry_string:
  assumes "gmtime x = Some t"
  shows "getTimeFromStruct t = Some (asctime t)" "length (asctime t) \<le> 32"
  using asctime_length [OF assms] by (simp_all add: getTimeFromStruct_def sprintf_def)

lemma cacheable_decides:
  assumes ok: "cache_ok h" "cache_key (URI r)" and now: "getCurrentTime now = Some c"
    and pr: "printable_expiry (cache_view h (URI r))" and uid: "length UID \<le> 30"
  shows "\<exists>p lg. cacheable zone now h r UID = Some (decision now (cache_view h (URI r)), p, lg) \<and>
    (\<forall>e. cache_view h (URI r) = Some e \<longrightarrow> decision now (Some e) \<in> {HIT, REVALIDATE} \<longrightarrow>
      strs h p = Some (e_val e) \<and> lg = [])"
proof -
  obtain bs where "rep h bs" using ok(1) by (auto simp: cache_ok_def)
  from this ok(2) show ?thesis
  proof (cases rule: rep_cases)
    case (miss)
    then show ?thesis by (simp add: cacheable_def decision_def)
  next
    case (hit a e)
    obtain n i ex where n: "nodes h a = Some n" "infos h (ninfo n) = Some i"
      "opt_ptr (tms h) (expiryTime i) = Some ex" "strs h (nval n) = Some (e_val e)"
      "e_expiry e = ex" "e_needs e = needsRevalidation i"
      using hit(3) by (auto simp: entry_of_def contents_def elim!: bind_SomeE)
    have print: "\<exists>m. getTimeFromStruct t = Some m \<and> length (log_expired UID m) < MAX_LOG_LINE_LEN" if ex: "ex = Some t" for t
    proof -
      obtain x where "gmtime x = Some t" using pr ex hit(6) n(5) by (auto simp: printable_expiry_def)
      from expiry_string [OF this] uid show ?thesis
        by (auto simp: log_expired_def MAX_LOG_LINE_LEN_def)
    qed
    show ?thesis
    proof (cases "expired_at now e")
      case True
      then obtain t where t: "ex = Some t" "mktime 0 t \<le> now" using n(5) by (auto simp: expired_at_def split: option.splits)
      obtain m where "getTimeFromStruct t = Some m" "length (log_expired UID m) < MAX_LOG_LINE_LEN"
        using print [OF t(1)] by blast
      then show ?thesis using hit n t now True
        by (simp add: cacheable_def decision_def timeAgtB_now [OF now] sprintf_def)
    next
      case False
      then have "\<forall>t. ex = Some t \<longrightarrow> \<not> 0 \<le> timeAgtB zone c t"
        using n(5) by (auto simp: expired_at_def timeAgtB_now [OF now])
      then show ?thesis using hit n now False
        by (cases ex) (auto simp: cacheable_def decision_def)
    qed
  qed
qed

lemma cacheable_miss:
  assumes "cache_ok h" "cache_key (URI r)" "cache_view h (URI r) = None"
  shows "cacheable zone now h r UID = Some (MISS, 0, [])"
proof -
  obtain bs where "rep h bs" using assms(1) by (auto simp: cache_ok_def)
  from this assms(2) show ?thesis using assms(3) by (cases rule: rep_cases) (simp_all add: cacheable_def)
qed

section \<open>Properties\<close>

text \<open>C6: \<open>cacheable\<close> decides as the reference does on the entry of the URI: a miss where there is none,
  expired from the second of the expiry time on, to be revalidated if the entry says so, else a hit;
  for the last two the data it points to is the response that is stored.\<close>

theorem cacheable_decision:
  assumes "cache_ok h" "cache_key (URI r)" "clock \<le> 2 ^ 55" "- (2 ^ 55) \<le> clock"
    and "printable_expiry (cache_view h (URI r))" "length UID \<le> 30"
  shows "\<exists>p lg. cacheable zone clock h r UID = Some (decision clock (cache_view h (URI r)), p, lg) \<and>
    (\<forall>e. cache_view h (URI r) = Some e \<longrightarrow> decision clock (Some e) \<in> {HIT, REVALIDATE} \<longrightarrow>
      strs h p = Some (e_val e) \<and> lg = [])"
proof -
  obtain c where "getCurrentTime clock = Some c"
    using gmtime_defined [OF assms(4,3)] by (auto simp: getCurrentTime_def)
  from cacheable_decides [OF assms(1,2) this assms(5,6)] show ?thesis .
qed

definition sample_req :: ReqInfo where
  "sample_req = \<lparr>reqType = 0, isHttps = 0, host = ''h'', URI = ''/'', reqLine = ''GET / HTTP/1.1''\<rparr>"

definition tagged_page :: "int \<Rightarrow> entry" where
  "tagged_page n = \<lparr>e_val = ''HTTP/1.1 200 OK'', e_host = ''h'', e_needs = n, e_expiry = None, e_etag = Some ''v1''\<rparr>"

theorem cacheable_decision_witness:
  "(\<exists>p lg. cacheable 0 1700000000 empty_cache sample_req ''7'' = Some (MISS, p, lg)) \<and>
   (\<exists>h p. store_entry empty_cache ''/'' (tagged_page 0) = Some h \<and>
     cacheable 0 1700000000 h sample_req ''7'' = Some (HIT, p, []) \<and> strs h p = Some ''HTTP/1.1 200 OK'') \<and>
   (\<exists>h p. store_entry empty_cache ''/'' (tagged_page 1) = Some h \<and>
     cacheable 0 1700000000 h sample_req ''7'' = Some (REVALIDATE, p, []) \<and> strs h p = Some ''HTTP/1.1 200 OK'')"
proof -
  have u: "URI sample_req = ''/''" by (simp add: sample_req_def)
  have "\<exists>p lg. cacheable 0 1700000000 empty_cache sample_req ''7'' = Some (MISS, p, lg)"
    using cacheable_decision [OF cache_ok_empty, of sample_req 1700000000 "''7''" 0] cache_key_root
    by (simp add: u view_empty printable_expiry_def decision_def)
  moreover have page: "\<exists>h p. store_entry empty_cache ''/'' (tagged_page n) = Some h \<and>
     cacheable 0 1700000000 h sample_req ''7'' = Some (if n = 0 then HIT else REVALIDATE, p, []) \<and>
     strs h p = Some ''HTTP/1.1 200 OK''" for n
  proof -
    obtain h where h: "store_entry empty_cache ''/'' (tagged_page n) = Some h" "cache_ok h"
      "get_entry h ''/'' = Some (Some (tagged_page n))"
      using store_then_get_lookup [OF cache_ok_empty cache_key_root, of "tagged_page n"]
      by (auto simp: view_empty merge_entry_def)
    have v: "cache_view h ''/'' = Some (tagged_page n)" using get_entry_view [OF h(2) cache_key_root] h(3) by simp
    have "decision 1700000000 (Some (tagged_page n)) = (if n = 0 then HIT else REVALIDATE)"
      "printable_expiry (Some (tagged_page n))" "e_val (tagged_page n) = ''HTTP/1.1 200 OK''"
      by (simp_all add: decision_def expired_at_def tagged_page_def printable_expiry_def)
    then show ?thesis using cacheable_decision [OF h(2), of sample_req 1700000000 "''7''" 0] cache_key_root h(1)
      by (auto simp: u v)
  qed
  ultimately show ?thesis using page [of 0] page [of 1] by simp
qed




end
