(* ===== verification/Forward.thy ===== *)
theory Forward
  imports Cacheable ParseResponse Copying
begin

text \<open>
  \<open>connectToServer\<close> and \<open>forwardRequest\<close> of \<^verbatim>\<open>threadPool.c\<close>: a request is forwarded to its server, and
  the response to the client and into the cache.

  The network is a parameter: what \<open>socket\<close>, \<open>getaddrinfo\<close> and \<open>connect\<close> make of a host and a
  service. \<open>getaddrinfo\<close> leaves \<open>servinfo\<close> as it is when it fails, so the \<open>freeaddrinfo\<close> of the
  uninitialised variable that follows is a fault.
\<close>

datatype conn = SocketError | LookupError | ConnectError | Connected sock

type_synonym net = "string \<Rightarrow> string \<Rightarrow> conn"

text \<open>
  The state that one request works on: the cache, the messages that were handed to \<open>logpush\<close>, the
  connection of the client, how often it was closed, and the number of forwarding sockets that were
  opened and not closed. The socket of the server is kept when it was used last.
\<close>

record world =
  w_cache :: heap
  w_logs :: "string list"
  w_client :: sock
  w_closed :: nat
  w_open :: nat
  w_server :: "sock option"

definition say :: "string \<Rightarrow> world \<Rightarrow> world option" where
  "say msg w = do { m \<leftarrow> sprintf MAX_LOG_LINE_LEN msg; Some (w\<lparr>w_logs := w_logs w @ [m]\<rparr>) }"

text \<open>\<open>exitRequest\<close> closes the connection of the client and frees the request.\<close>

definition exitRequest :: "world \<Rightarrow> world" where
  "exitRequest w = w\<lparr>w_closed := w_closed w + 1\<rparr>"

definition connectToServer :: "net \<Rightarrow> ReqInfo \<Rightarrow> world \<Rightarrow> (sock option \<times> world) option" where
  "connectToServer net reqInf w =
     (let port = (if isHttps reqInf \<noteq> 0 then ''https'' else ''http'') in
      case net (host reqInf) port of
        SocketError \<Rightarrow> Some (None, w)
      | LookupError \<Rightarrow> None
      | ConnectError \<Rightarrow> Some (None, w\<lparr>w_open := w_open w + 1\<rparr>)
      | Connected s \<Rightarrow> Some (Some s, w\<lparr>w_open := w_open w + 1\<rparr>))"

section \<open>The tunnel of a CONNECT request\<close>

definition okResponse :: string where
  "okResponse = ''HTTP/1.1 200 Connection established'' @ [CR, LF] @ ''Connection: Keep-Alive'' @ [CR, LF]
     @ ''Proxy-Connection: Keep-Alive'' @ [CR, LF, CR, LF]"

record tunnel =
  tn_client :: sock
  tn_server :: sock
  tn_request :: string
  tn_canWrite :: bool

text \<open>
  How the tunnel ends: an error of a socket, or the close of one of them (which is logged). The bytes
  in \<open>request\<close> are those of the last read from the client. A write is tried once.
\<close>

datatype tunnel_end = Tunnel_error | Tunnel_closed

definition relay_to_server :: "tunnel \<Rightarrow> (tunnel_end \<times> tunnel) + tunnel" where
  "relay_to_server t = (if tn_canWrite t
     then (case swrite (tn_server t) (tn_request t) of
        (None, s) \<Rightarrow> Inl (Tunnel_error, t\<lparr>tn_server := s\<rparr>)
      | (Some _, s) \<Rightarrow> Inr (t\<lparr>tn_server := s\<rparr>))
     else Inr t)"

definition relay_to_client :: "tunnel \<Rightarrow> (tunnel_end \<times> tunnel) + tunnel" where
  "relay_to_client t = (case recv_peek (rx (tn_server t)) of (testRead, r) \<Rightarrow>
     let t = t\<lparr>tn_server := (tn_server t)\<lparr>rx := r\<rparr>\<rparr> in
     if testRead = 0 then Inl (Tunnel_closed, t)
     else if testRead < 0 then Inr t
     else (case sread BUFSIZE r of
        (None, r) \<Rightarrow> Inl (Tunnel_error, t\<lparr>tn_server := (tn_server t)\<lparr>rx := r\<rparr>\<rparr>)
      | (Some d, r) \<Rightarrow>
          let t = t\<lparr>tn_server := (tn_server t)\<lparr>rx := r\<rparr>\<rparr> in
          (case swrite (tn_client t) d of
             (None, c) \<Rightarrow> Inl (Tunnel_error, t\<lparr>tn_client := c\<rparr>)
           | (Some _, c) \<Rightarrow> Inr (t\<lparr>tn_client := c\<rparr>))))"

definition read_from_client :: "tunnel \<Rightarrow> (tunnel_end \<times> tunnel) + tunnel" where
  "read_from_client t = (case recv_peek (rx (tn_client t)) of (testRead, r) \<Rightarrow>
     let t = t\<lparr>tn_client := (tn_client t)\<lparr>rx := r\<rparr>\<rparr> in
     if testRead = 0 then Inl (Tunnel_closed, t)
     else if testRead < 0 then Inr (t\<lparr>tn_canWrite := False\<rparr>)
     else (case sread BUFSIZE r of
        (None, r) \<Rightarrow> Inl (Tunnel_error, t\<lparr>tn_client := (tn_client t)\<lparr>rx := r\<rparr>\<rparr>)
      | (Some d, r) \<Rightarrow> Inr (t\<lparr>tn_client := (tn_client t)\<lparr>rx := r\<rparr>, tn_request := d, tn_canWrite := True\<rparr>)))"

definition tunnel_round :: "tunnel \<Rightarrow> (tunnel_end \<times> tunnel) + tunnel" where
  "tunnel_round t = (case relay_to_server t of
       Inl e \<Rightarrow> Inl e
     | Inr t \<Rightarrow> (case relay_to_client t of
         Inl e \<Rightarrow> Inl e
       | Inr t \<Rightarrow> read_from_client t))"

definition tunnel_size :: "tunnel \<Rightarrow> nat" where
  "tunnel_size t = script_size (rx (tn_server t)) + script_size (rx (tn_client t))"

lemma relay_to_server_rx:
  "relay_to_server t = Inr t' \<Longrightarrow> rx (tn_server t') = rx (tn_server t) \<and> tn_client t' = tn_client t"
  by (auto simp: relay_to_server_def swrite_Some(3) split: if_splits prod.splits option.splits)

lemma relay_to_client_rx:
  assumes "relay_to_client t = Inr t'"
  shows "script_size (rx (tn_server t')) < script_size (rx (tn_server t))" "rx (tn_client t') = rx (tn_client t)"
proof -
  obtain k r where k: "recv_peek (rx (tn_server t)) = (k, r)" by fastforce
  have "script_size (rx (tn_server t')) < script_size (rx (tn_server t)) \<and> rx (tn_client t') = rx (tn_client t)"
  proof (cases "k < 0")
    case True
    then show ?thesis using assms k recv_not_ready [OF k True] by (auto simp: relay_to_client_def Let_def)
  next
    case False
    then have p: "0 < k" using assms k by (cases "k = 0") (auto simp: relay_to_client_def Let_def)
    have r: "r = rx (tn_server t)" by (rule recv_ready [OF k p])
    obtain a r' where s: "sread BUFSIZE r = (a, r')" by fastforce
    have "script_size r' < script_size (rx (tn_server t))"
      using recv_ready_read [OF k p s [unfolded r]] by (simp add: BUFSIZE_def)
    then show ?thesis using assms k p s
      by (auto simp: relay_to_client_def Let_def swrite_Some(3) split: option.splits prod.splits)
  qed
  then show "script_size (rx (tn_server t')) < script_size (rx (tn_server t))"
    "rx (tn_client t') = rx (tn_client t)" by simp_all
qed

lemma read_from_client_rx:
  "read_from_client t = Inr t' \<Longrightarrow> tn_server t' = tn_server t"
  by (auto simp: read_from_client_def Let_def split: if_splits prod.splits option.splits)

lemma tunnel_round_size:
  assumes "tunnel_round t = Inr t'"
  shows "script_size (rx (tn_server t')) < script_size (rx (tn_server t))"
  using assms
  by (auto simp: tunnel_round_def split: sum.splits
      dest!: relay_to_server_rx read_from_client_rx dest: relay_to_client_rx(1))

function tunnel_loop :: "tunnel \<Rightarrow> tunnel_end \<times> tunnel" where
  "tunnel_loop t = (case tunnel_round t of Inl e \<Rightarrow> e | Inr t' \<Rightarrow> tunnel_loop t')"
  by pat_completeness auto
termination
  by (relation "measure (\<lambda>t. script_size (rx (tn_server t)))") (auto dest: tunnel_round_size)

declare tunnel_loop.simps [simp del]

definition tunnel_to :: "string \<Rightarrow> sock \<Rightarrow> world \<Rightarrow> world option" where
  "tunnel_to UID srv w = (
     let c = snd (swrite (w_client w) okResponse) in
     (case sread BUFSIZE (rx c) of
        (None, r) \<Rightarrow> Some (exitRequest (w\<lparr>w_client := c\<lparr>rx := r\<rparr>, w_server := Some srv\<rparr>))
      | (Some d, r) \<Rightarrow>
          let (e, t) = tunnel_loop \<lparr>tn_client = c\<lparr>rx := r\<rparr>, tn_server = srv, tn_request = d, tn_canWrite = True\<rparr>;
              w = w\<lparr>w_client := tn_client t, w_server := Some (tn_server t)\<rparr>
          in (case e of
                Tunnel_error \<Rightarrow> Some (exitRequest w)
              | Tunnel_closed \<Rightarrow> do { w \<leftarrow> say (UID @ '': Tunnel closed.'') w; Some (exitRequest w) })))"

section \<open>Other requests\<close>

text \<open>
  The loop that reads the first part of a response, also that of \<open>getRevalidation\<close>: it ends when the
  server closes, when \<open>grace\<close> polls found nothing, or when a further read might not fit.
\<close>

record reading =
  rd_server :: "ev list"
  rd_buf :: cbuf
  rd_total :: nat

function read_first :: "nat \<Rightarrow> reading \<Rightarrow> (reading + reading) option" where
  "read_first grace s =
     (if 0 < grace \<and> rd_total s < RESPONSE_HEADER_SIZE - BUFSIZE
      then (case recv_peek (rd_server s) of (testRead, r) \<Rightarrow>
        if testRead = 0 then Some (Inr (s\<lparr>rd_server := r\<rparr>))
        else if testRead < 0 then read_first (grace - 1) (s\<lparr>rd_server := r\<rparr>)
        else (case sread BUFSIZE r of
            (None, r) \<Rightarrow> Some (Inl (s\<lparr>rd_server := r\<rparr>))
          | (Some d, r) \<Rightarrow> do {
              b \<leftarrow> store_bytes (rd_buf s) (rd_total s) d;
              read_first grace \<lparr>rd_server = r, rd_buf = b, rd_total = rd_total s + length d\<rparr> }))
      else Some (Inr s))"
  by pat_completeness auto
termination
proof (relation "measure (\<lambda>(g, s). script_size (rd_server s))", goal_cases)
  case 1
  show ?case by simp
next
  case (2 grace s k r)
  then have "recv_peek (rd_server s) = (k, r)" "k < 0" by auto
  then show ?case by (simp add: recv_not_ready)
next
  case (3 grace s k r a r' d b)
  then have p: "recv_peek (rd_server s) = (k, r)" "0 < k" "sread BUFSIZE r = (Some d, r')" by auto
  have "r = rd_server s" by (rule recv_ready [OF p(1,2)])
  then show ?case using recv_ready_read [OF p(1,2)] p(3) by (simp add: BUFSIZE_def)
qed

declare read_first.simps [simp del]

definition BAD_REQUEST_RESPONSE :: string where "BAD_REQUEST_RESPONSE = ''HTTP/1.1 400 Bad Request'' @ [CR, LF]"
definition NOT_FOUND :: string where "NOT_FOUND = ''HTTP/1.1 404 Not Found'' @ [CR, LF]"

text \<open>\<open>strncpy\<close> of \<open>n\<close> bytes: up to a NUL, padded.\<close>

definition strncpy :: "cbuf \<Rightarrow> cbuf \<Rightarrow> nat \<Rightarrow> cbuf option" where
  "strncpy d s n = do {
     let t = takeWhile (\<lambda>c. c \<noteq> NUL) (take n s);
     check (length t = n \<or> length t < length s);
     store_bytes d 0 (t @ replicate (n - length t) NUL) }"

text \<open>The entry that is put into the cache, once all of its fields are set.\<close>

definition entry_from :: "string \<Rightarrow> string \<Rightarrow> resp_info \<Rightarrow> entry option" where
  "entry_from v h info = do {
     needs \<leftarrow> ri_needs info; ex \<leftarrow> ri_expiry info; et \<leftarrow> ri_etag info;
     Some \<lparr>e_val = v, e_host = h, e_needs = needs, e_expiry = ex, e_etag = et\<rparr> }"

text \<open>The end of \<open>forwardRequest\<close>: the response is put into the cache, or dropped. What is logged
  then is when the response expires, or that it has to be revalidated.\<close>

definition log_cached :: "string \<Rightarrow> entry \<Rightarrow> world \<Rightarrow> world option" where
  "log_cached UID e w = (case e_expiry e of
       Some t \<Rightarrow> do {
         expiryStr \<leftarrow> getTimeFromStruct t;
         say (UID @ '': cached, expires at '' @ expiryStr @ ''.'') w }
     | None \<Rightarrow> if e_needs e \<noteq> 0 then say (UID @ '': cached, but requires re-validation'') w else Some w)"

definition store_response :: "string \<Rightarrow> ReqInfo \<Rightarrow> cbuf \<Rightarrow> resp_info \<Rightarrow> int \<Rightarrow> world \<Rightarrow> world option" where
  "store_response UID reqInf cacheBuff info canCache w =
     (if canCache = 0 then Some w
      else do {
        v \<leftarrow> cstr cacheBuff 0;
        e \<leftarrow> entry_from v (host reqInf) info;
        w \<leftarrow> log_cached UID e w;
        h \<leftarrow> store_entry (w_cache w) (URI reqInf) e;
        Some (w\<lparr>w_cache := h\<rparr>) })"

text \<open>
  What is done with the rest of the body: the bytes left of a \<open>Content-Length\<close> are forwarded, a chunked
  body is forwarded to its end, and otherwise nothing is.
\<close>

definition forward_rest :: "string \<Rightarrow> sock \<Rightarrow> cbuf \<Rightarrow> cbuf \<Rightarrow> cbuf \<Rightarrow> resp_result \<Rightarrow> world
    \<Rightarrow> (cbuf \<times> int \<times> world) option" where
  "forward_rest UID srv request respBuf cacheBuff res w = (
     let allows = rr_canCache res in
     if 0 < rr_ret res \<and> rr_chunked res = 0
     then do {
       request \<leftarrow> zero request 0 BUFSIZE;
       respBuf \<leftarrow> zero respBuf 0 RESPONSE_HEADER_SIZE;
       oc \<leftarrow> bufferedForward (rx srv) (w_client w) respBuf cacheBuff (rr_ret res) allows;
       let w = w\<lparr>w_client := oc_client oc, w_server := Some (srv\<lparr>rx := oc_server oc\<rparr>)\<rparr>;
       w \<leftarrow> (if oc_canCache oc \<noteq> 0 then Some w
         else if allows \<noteq> 0 then say (UID @ '': not cacheable because response is too big.'') w
         else say (UID @ '': not cacheable because server forbids it.'') w);
       Some (oc_cache oc, oc_canCache oc, w) }
     else if rr_chunked res = 1
     then do {
       request \<leftarrow> zero request 0 BUFSIZE;
       oc \<leftarrow> transferChunks (rx srv) (w_client w) request cacheBuff allows;
       Some (oc_cache oc, oc_canCache oc, w\<lparr>w_client := oc_client oc, w_server := Some (srv\<lparr>rx := oc_server oc\<rparr>)\<rparr>) }
     else Some (cacheBuff, allows, w))"

text \<open>
  The response, after its first part was read into \<open>respBuf\<close>, up to the point where it is put into
  the cache: the text, what was found in its headers, and whether it may be cached. \<open>None\<close> means that
  the request has been ended before.
\<close>

type_synonym fetched = "cbuf \<times> resp_info \<times> int"

definition forward_body :: "int \<Rightarrow> string \<Rightarrow> ReqInfo \<Rightarrow> cbuf \<Rightarrow> sock \<Rightarrow> cbuf \<Rightarrow> nat \<Rightarrow> world
    \<Rightarrow> (fetched option \<times> world) option" where
  "forward_body now UID reqInf request srv respBuf totalRead w = do {
     w \<leftarrow> say (UID @ '': received response from '' @ host reqInf @ ''.'') w;
     res \<leftarrow> parseResponse now respBuf (-1) no_info 1 (host reqInf) UID;
     let w = w\<lparr>w_logs := w_logs w @ rr_log res\<rparr>;
     if rr_ret res < 0
     then do {
       (rc, n, c) \<leftarrow> writeall (w_client w) (BAD_REQUEST_RESPONSE @ [NUL, NUL]) (length NOT_FOUND);
       Some (None, exitRequest (w\<lparr>w_client := c\<rparr>)) }
     else do {
       let cacheBuff = replicate (RESPONSE_HEADER_SIZE + 1) NUL;
       (rc, writtenToClient, c) \<leftarrow> writeall (w_client w) (rr_buf res) totalRead;
       let w = w\<lparr>w_client := c\<rparr>;
       if rc < 0 then Some (None, exitRequest w)
       else do {
         cacheBuff \<leftarrow> (if rr_canCache res \<noteq> 0 then strncpy cacheBuff (rr_buf res) writtenToClient else Some cacheBuff);
         (_, _, respBuf) \<leftarrow> strsep (rr_buf res) (Some 0) CR;
         firstLine \<leftarrow> cstr respBuf 0;
         w \<leftarrow> say (UID @ '': responding '' @ firstLine) w;
         (cacheBuff, canCache, w) \<leftarrow> forward_rest UID srv request respBuf cacheBuff res w;
         Some (Some (cacheBuff, rr_info res, canCache), w) } } }"

text \<open>The whole function up to this point; \<open>junk\<close> is the last byte of \<open>responseHeaderBuf\<close>, which is never
  initialised.\<close>

definition forward_fetch :: "net \<Rightarrow> int \<Rightarrow> char \<Rightarrow> ReqInfo \<Rightarrow> cbuf \<Rightarrow> string \<Rightarrow> world
    \<Rightarrow> (fetched option \<times> world) option" where
  "forward_fetch net now junk reqInf request UID w = do {
     w \<leftarrow> say (UID @ '': Requesting '' @ reqLine reqInf @ '' from '' @ host reqInf) w;
     (forwardSock, w) \<leftarrow> connectToServer net reqInf w;
     (case forwardSock of
        None \<Rightarrow> Some (None, exitRequest w)
      | Some srv \<Rightarrow>
          if reqType reqInf = 1 then do { w \<leftarrow> tunnel_to UID srv w; Some (None, w) }
          else do {
            n \<leftarrow> strlen request 0;
            (rc, written, srv) \<leftarrow> writeall srv request n;
            let w = w\<lparr>w_server := Some srv\<rparr>;
            if rc < 0 then Some (None, exitRequest w)
            else do {
              r \<leftarrow> read_first 10000 \<lparr>rd_server = rx srv,
                rd_buf = replicate RESPONSE_HEADER_SIZE NUL @ [junk], rd_total = 0\<rparr>;
              (case r of
                 Inl s \<Rightarrow> Some (None, exitRequest (w\<lparr>w_server := Some (srv\<lparr>rx := rd_server s\<rparr>)\<rparr>))
               | Inr s \<Rightarrow> (let srv = srv\<lparr>rx := rd_server s\<rparr> in
                   forward_body now UID reqInf request srv (rd_buf s) (rd_total s) (w\<lparr>w_server := Some srv\<rparr>))) } }) }"

text \<open>The end, and the whole. Only the end works on the cache.\<close>

fun forward_end :: "string \<Rightarrow> ReqInfo \<Rightarrow> fetched option \<Rightarrow> world \<Rightarrow> world option" where
  "forward_end UID reqInf None w = Some w"
| "forward_end UID reqInf (Some (cacheBuff, info, canCache)) w = do {
     w \<leftarrow> store_response UID reqInf cacheBuff info canCache w;
     Some (exitRequest w) }"

definition forwardRequest :: "net \<Rightarrow> int \<Rightarrow> char \<Rightarrow> ReqInfo \<Rightarrow> cbuf \<Rightarrow> string \<Rightarrow> world \<Rightarrow> world option" where
  "forwardRequest net now junk reqInf request UID w = do {
     (r, w) \<leftarrow> forward_fetch net now junk reqInf request UID w;
     forward_end UID reqInf r w }"

text \<open>The part of \<open>forwardRequest\<close> that follows the first read from the server.\<close>

definition forward_response :: "int \<Rightarrow> string \<Rightarrow> ReqInfo \<Rightarrow> cbuf \<Rightarrow> sock \<Rightarrow> cbuf \<Rightarrow> nat \<Rightarrow> world \<Rightarrow> world option" where
  "forward_response now UID reqInf request srv respBuf totalRead w = do {
     (r, w) \<leftarrow> forward_body now UID reqInf request srv respBuf totalRead w;
     forward_end UID reqInf r w }"

lemma forward_response_eq:
  "forward_response now UID reqInf request srv respBuf totalRead w = do {
     w \<leftarrow> say (UID @ '': received response from '' @ host reqInf @ ''.'') w;
     res \<leftarrow> parseResponse now respBuf (-1) no_info 1 (host reqInf) UID;
     let w = w\<lparr>w_logs := w_logs w @ rr_log res\<rparr>;
     if rr_ret res < 0
     then do {
       (rc, n, c) \<leftarrow> writeall (w_client w) (BAD_REQUEST_RESPONSE @ [NUL, NUL]) (length NOT_FOUND);
       Some (exitRequest (w\<lparr>w_client := c\<rparr>)) }
     else do {
       let cacheBuff = replicate (RESPONSE_HEADER_SIZE + 1) NUL;
       (rc, writtenToClient, c) \<leftarrow> writeall (w_client w) (rr_buf res) totalRead;
       let w = w\<lparr>w_client := c\<rparr>;
       if rc < 0 then Some (exitRequest w)
       else do {
         cacheBuff \<leftarrow> (if rr_canCache res \<noteq> 0 then strncpy cacheBuff (rr_buf res) writtenToClient else Some cacheBuff);
         (_, _, respBuf) \<leftarrow> strsep (rr_buf res) (Some 0) CR;
         firstLine \<leftarrow> cstr respBuf 0;
         w \<leftarrow> say (UID @ '': responding '' @ firstLine) w;
         (cacheBuff, canCache, w) \<leftarrow> forward_rest UID srv request respBuf cacheBuff res w;
         w \<leftarrow> store_response UID reqInf cacheBuff (rr_info res) canCache w;
         Some (exitRequest w) } } }"
  by (auto simp: forward_response_def forward_body_def Let_def split: Option.bind_splits if_splits)

lemma forwardRequest_eq:
  "forwardRequest net now junk reqInf request UID w = do {
     w \<leftarrow> say (UID @ '': Requesting '' @ reqLine reqInf @ '' from '' @ host reqInf) w;
     (forwardSock, w) \<leftarrow> connectToServer net reqInf w;
     (case forwardSock of
        None \<Rightarrow> Some (exitRequest w)
      | Some srv \<Rightarrow>
          if reqType reqInf = 1 then tunnel_to UID srv w
          else do {
            n \<leftarrow> strlen request 0;
            (rc, written, srv) \<leftarrow> writeall srv request n;
            let w = w\<lparr>w_server := Some srv\<rparr>;
            if rc < 0 then Some (exitRequest w)
            else do {
              r \<leftarrow> read_first 10000 \<lparr>rd_server = rx srv,
                rd_buf = replicate RESPONSE_HEADER_SIZE NUL @ [junk], rd_total = 0\<rparr>;
              (case r of
                 Inl s \<Rightarrow> Some (exitRequest (w\<lparr>w_server := Some (srv\<lparr>rx := rd_server s\<rparr>)\<rparr>))
               | Inr s \<Rightarrow> (let srv = srv\<lparr>rx := rd_server s\<rparr> in
                   forward_response now UID reqInf request srv (rd_buf s) (rd_total s) (w\<lparr>w_server := Some srv\<rparr>))) } }) }"
  by (auto simp: forwardRequest_def forward_fetch_def forward_response_def Let_def
      split: Option.bind_splits if_splits option.splits sum.splits)

end
