(* ===== verification/Revalidate.thy ===== *)
theory Revalidate
  imports Forward
begin

text \<open>
  \<open>getRevalidation\<close> of \<^verbatim>\<open>threadPool.c\<close>: the server is asked whether a cached response is still
  valid. If it answers with another response, this one is forwarded and replaces the cached one: the
  node keeps its key, host and \<open>CacheInfo\<close>, which gets the new tag.
\<close>

definition REVALIDATION_INFO_MISSING :: int where "REVALIDATION_INFO_MISSING = -2"

definition revalidation_request :: "string \<Rightarrow> string \<Rightarrow> string \<Rightarrow> string" where
  "revalidation_request uri tag hst = ''GET '' @ uri @ '' HTTP/1.1'' @ [CR, LF] @ ''If-None-Match: '' @ tag
     @ [CR, LF] @ ''Host: '' @ hst @ [CR, LF, CR, LF]"

definition notModified :: string where "notModified = ''HTTP/1.1 304 Not Modified''"

definition eTagNeedle :: string where "eTagNeedle = [CR, LF] @ ''eTag: ''"

section \<open>The tag of the new response\<close>

text \<open>\<open>strcasestr\<close>: where the needle occurs first.\<close>

fun find_sub :: "string \<Rightarrow> string \<Rightarrow> nat option" where
  "find_sub [] nd = (if nd = [] then Some 0 else None)"
| "find_sub (c # s) nd = (if strncaseeq (c # s) nd (length nd) then Some 0
     else map_option Suc (find_sub s nd))"

text \<open>
  The tag is cut out of the buffer at the next carriage return, which is written back. Without one
  the byte is written after the text all the same, and no tag is returned (\<open>newETag\<close> is NULL then).
\<close>

definition new_etag :: "cbuf \<Rightarrow> (string option \<times> cbuf) option" where
  "new_etag b = do {
     s \<leftarrow> cstr b 0;
     (case find_sub s eTagNeedle of
        None \<Rightarrow> Some (None, b)
      | Some i \<Rightarrow> do {
          let p = i + length eTagNeedle;
          (temp, newETag, b) \<leftarrow> strsep b (Some p) CR;
          foundTag \<leftarrow> cstr b p;
          b \<leftarrow> restore b p CR;
          _ \<leftarrow> strlen b p;
          Some (if newETag = None then None else Some foundTag, b) }) }"

section \<open>Replacing the cached response\<close>

text \<open>The tag is replaced first, without \<open>cacheLock\<close>, then the value with \<open>put\<close>; each time the node is read anew.\<close>

definition set_tag :: "heap \<Rightarrow> nat \<Rightarrow> string option \<Rightarrow> heap option" where
  "set_tag h a newTag = (case newTag of
       None \<Rightarrow> Some h
     | Some t \<Rightarrow> do {
         n \<leftarrow> nodes h a;
         i \<leftarrow> infos h (ninfo n);
         h \<leftarrow> free_str h (eTag i);
         let (p, h) = malloc_str h t;
         Some (h\<lparr>infos := (infos h)(ninfo n \<mapsto> i\<lparr>eTag := p\<rparr>)\<rparr>) })"

definition put_back :: "heap \<Rightarrow> nat \<Rightarrow> string \<Rightarrow> heap option" where
  "put_back h a v = do {
     n \<leftarrow> nodes h a;
     let (val, h) = malloc_str h v;
     put h (nkey n) val (nhost n) (ninfo n) }"

definition replace_cached :: "heap \<Rightarrow> nat \<Rightarrow> string option \<Rightarrow> string \<Rightarrow> heap option" where
  "replace_cached h a newTag v = do { h \<leftarrow> set_tag h a newTag; put_back h a v }"

section \<open>The function\<close>

text \<open>What is done before the answer of the server is looked at: the node, the socket, and the first part of
  the answer in the array of 8192 bytes; or the return value.\<close>

definition ask_server :: "net \<Rightarrow> ReqInfo \<Rightarrow> string \<Rightarrow> world \<Rightarrow> ((int + nat \<times> sock \<times> cbuf \<times> nat) \<times> world) option" where
  "ask_server net reqInf uri w = do {
     resultNode \<leftarrow> get (w_cache w) uri;
     if resultNode = 0 then Some (Inl REVALIDATION_INFO_MISSING, w)
     else do {
       n \<leftarrow> nodes (w_cache w) resultNode;
       i \<leftarrow> infos (w_cache w) (ninfo n);
       if eTag i = 0 then Some (Inl REVALIDATION_INFO_MISSING, w)
       else do {
         tag \<leftarrow> strs (w_cache w) (eTag i);
         if nhost n = 0 then Some (Inl REVALIDATION_INFO_MISSING, w)
         else do {
           hst \<leftarrow> strs (w_cache w) (nhost n);
           req \<leftarrow> sprintf RESPONSE_HEADER_SIZE (revalidation_request uri tag hst);
           (serverSock, w) \<leftarrow> connectToServer net reqInf w;
           (case serverSock of
              None \<Rightarrow> Some (Inl (-1), w)
            | Some srv \<Rightarrow> do {
                (rc, written, srv) \<leftarrow> writeall srv (req @ [NUL]) (length req);
                let w = w\<lparr>w_server := Some srv\<rparr>;
                if rc \<noteq> 0 then Some (Inl (-1), w)
                else do {
                  r \<leftarrow> read_first 100 \<lparr>rd_server = rx srv, rd_buf = replicate RESPONSE_HEADER_SIZE NUL, rd_total = 0\<rparr>;
                  (case r of
                     Inl s \<Rightarrow> Some (Inl (-1), w\<lparr>w_server := Some (srv\<lparr>rx := rd_server s\<rparr>)\<rparr>)
                   | Inr s \<Rightarrow> (let srv = srv\<lparr>rx := rd_server s\<rparr> in
                       Some (Inr (resultNode, srv, rd_buf s, rd_total s), w\<lparr>w_server := Some srv\<rparr>))) } }) } } } }"

text \<open>The answer: it is confirmed that the cached response is valid, or another response is forwarded, of which
  the tag and the text remain to be put into the cache.\<close>

definition relay_answer :: "sock \<Rightarrow> cbuf \<Rightarrow> nat \<Rightarrow> world \<Rightarrow> ((int + string option \<times> string) \<times> world) option" where
  "relay_answer srv hdrs totalRead w = do {
     s \<leftarrow> cstr hdrs 0;
     if strncaseeq s notModified 25 then Some (Inl 0, w)
     else do {
       (rc, initialWritten, c) \<leftarrow> writeall (w_client w) hdrs totalRead;
       let w = w\<lparr>w_client := c\<rparr>;
       if rc \<noteq> 0 then Some (Inl (-1), w)
       else do {
         cacheBuff \<leftarrow> store_bytes (replicate (RESPONSE_HEADER_SIZE + 1) NUL) 0 (s @ [NUL]);
         hdrs \<leftarrow> zero hdrs 0 RESPONSE_HEADER_SIZE;
         (newETag, cacheBuff) \<leftarrow> new_etag cacheBuff;
         oc \<leftarrow> transferChunks (rx srv) (w_client w) hdrs cacheBuff 1;
         let w = w\<lparr>w_client := oc_client oc, w_server := Some (srv\<lparr>rx := oc_server oc\<rparr>)\<rparr>;
         if oc_ret oc < 0 then Some (Inl (-1), w)
         else if oc_canCache oc \<noteq> 0
         then do {
           v \<leftarrow> cstr (oc_cache oc) 0;
           Some (Inr (newETag, v), w) }
         else Some (Inl 1, w) } } }"

definition revalidation_answer :: "nat \<Rightarrow> sock \<Rightarrow> cbuf \<Rightarrow> nat \<Rightarrow> world \<Rightarrow> (int \<times> world) option" where
  "revalidation_answer node srv hdrs totalRead w = do {
     (r, w) \<leftarrow> relay_answer srv hdrs totalRead w;
     (case r of
        Inl k \<Rightarrow> Some (k, w)
      | Inr (newETag, v) \<Rightarrow> do {
          h \<leftarrow> replace_cached (w_cache w) node newETag v;
          Some (1, w\<lparr>w_cache := h\<rparr>) }) }"

definition getRevalidation :: "net \<Rightarrow> ReqInfo \<Rightarrow> string \<Rightarrow> world \<Rightarrow> (int \<times> world) option" where
  "getRevalidation net reqInf uri w = do {
     (r, w) \<leftarrow> ask_server net reqInf uri w;
     (case r of
        Inl k \<Rightarrow> Some (k, w)
      | Inr (node, srv, hdrs, totalRead) \<Rightarrow> revalidation_answer node srv hdrs totalRead w) }"

text \<open>The functions in one piece.\<close>

lemma revalidation_answer_eq:
  "revalidation_answer node srv hdrs totalRead w = do {
     s \<leftarrow> cstr hdrs 0;
     if strncaseeq s notModified 25 then Some (0, w)
     else do {
       (rc, initialWritten, c) \<leftarrow> writeall (w_client w) hdrs totalRead;
       let w = w\<lparr>w_client := c\<rparr>;
       if rc \<noteq> 0 then Some (-1, w)
       else do {
         cacheBuff \<leftarrow> store_bytes (replicate (RESPONSE_HEADER_SIZE + 1) NUL) 0 (s @ [NUL]);
         hdrs \<leftarrow> zero hdrs 0 RESPONSE_HEADER_SIZE;
         (newETag, cacheBuff) \<leftarrow> new_etag cacheBuff;
         oc \<leftarrow> transferChunks (rx srv) (w_client w) hdrs cacheBuff 1;
         let w = w\<lparr>w_client := oc_client oc, w_server := Some (srv\<lparr>rx := oc_server oc\<rparr>)\<rparr>;
         if oc_ret oc < 0 then Some (-1, w)
         else if oc_canCache oc \<noteq> 0
         then do {
           v \<leftarrow> cstr (oc_cache oc) 0;
           h \<leftarrow> replace_cached (w_cache w) node newETag v;
           Some (1, w\<lparr>w_cache := h\<rparr>) }
         else Some (1, w) } } }"
  by (auto simp: revalidation_answer_def relay_answer_def Let_def split: Option.bind_splits if_splits)

lemma getRevalidation_eq:
  "getRevalidation net reqInf uri w = do {
     resultNode \<leftarrow> get (w_cache w) uri;
     if resultNode = 0 then Some (REVALIDATION_INFO_MISSING, w)
     else do {
       n \<leftarrow> nodes (w_cache w) resultNode;
       i \<leftarrow> infos (w_cache w) (ninfo n);
       if eTag i = 0 then Some (REVALIDATION_INFO_MISSING, w)
       else do {
         tag \<leftarrow> strs (w_cache w) (eTag i);
         if nhost n = 0 then Some (REVALIDATION_INFO_MISSING, w)
         else do {
           hst \<leftarrow> strs (w_cache w) (nhost n);
           req \<leftarrow> sprintf RESPONSE_HEADER_SIZE (revalidation_request uri tag hst);
           (serverSock, w) \<leftarrow> connectToServer net reqInf w;
           (case serverSock of
              None \<Rightarrow> Some (-1, w)
            | Some srv \<Rightarrow> do {
                (rc, written, srv) \<leftarrow> writeall srv (req @ [NUL]) (length req);
                let w = w\<lparr>w_server := Some srv\<rparr>;
                if rc \<noteq> 0 then Some (-1, w)
                else do {
                  r \<leftarrow> read_first 100 \<lparr>rd_server = rx srv, rd_buf = replicate RESPONSE_HEADER_SIZE NUL, rd_total = 0\<rparr>;
                  (case r of
                     Inl s \<Rightarrow> Some (-1, w\<lparr>w_server := Some (srv\<lparr>rx := rd_server s\<rparr>)\<rparr>)
                   | Inr s \<Rightarrow> (let srv = srv\<lparr>rx := rd_server s\<rparr> in
                       revalidation_answer resultNode srv (rd_buf s) (rd_total s) (w\<lparr>w_server := Some srv\<rparr>))) } }) } } } }"
  by (auto simp: getRevalidation_def ask_server_def sprintf_def Let_def split: Option.bind_splits if_splits option.splits sum.splits)

end
