(* ===== verification/Worker.thy ===== *)
theory Worker
  imports Revalidate
begin

text \<open>
  What a worker does with one connection: the body of the loop of \<open>serviceRequest\<close> in
  \<^verbatim>\<open>threadPool.c\<close>, after the connection was taken from the stack. The array \<open>ipstr\<close>, which the code
  clears over its end, is taken to have the 50 bytes that are cleared.
\<close>

section \<open>Reading the request\<close>

record intake =
  in_client :: "ev list"
  in_buf :: cbuf
  in_total :: nat
  in_size :: nat

text \<open>
  The buffer is doubled when the next read might not fit; everything after what was read is cleared.
  \<open>totalRead\<close> and \<open>reqBuffSize\<close> are \<open>int\<close>s: a buffer of 2^30 bytes cannot be doubled.
\<close>

definition grow_request :: "intake \<Rightarrow> intake option" where
  "grow_request s = do {
     afterNext \<leftarrow> c_int (int (in_total s) + int BUFSIZE);
     if int (in_size s) < afterNext
     then do {
       newSize \<leftarrow> c_int (2 * int (in_size s) + 1);
       let n = nat newSize;
       let block = take n (in_buf s) @ replicate (n - length (in_buf s)) NUL;
       block \<leftarrow> zero block (in_total s) (2 * in_size s + 1 - in_total s);
       Some (s\<lparr>in_buf := block, in_size := 2 * in_size s\<rparr>) }
     else Some s }"

lemma grow_request_client: "grow_request s = Some s' \<Longrightarrow> in_client s' = in_client s"
  by (auto simp: grow_request_def Let_def elim!: bind_SomeE split: if_splits)

function read_request :: "nat \<Rightarrow> intake \<Rightarrow> (intake + intake) option" where
  "read_request grace s =
     (if 0 < grace
      then (case recv_peek (in_client s) of (testRead, r) \<Rightarrow>
        if testRead = 0 then Some (Inr (s\<lparr>in_client := r\<rparr>))
        else if testRead < 0 then read_request (grace - 1) (s\<lparr>in_client := r\<rparr>)
        else (case sread BUFSIZE r of
            (None, r) \<Rightarrow> Some (Inl (s\<lparr>in_client := r\<rparr>))
          | (Some d, r) \<Rightarrow> do {
              b \<leftarrow> store_bytes (in_buf s) (in_total s) d;
              s \<leftarrow> grow_request (s\<lparr>in_client := r, in_buf := b, in_total := in_total s + length d\<rparr>);
              read_request grace s }))
      else Some (Inr s))"
  by pat_completeness auto
termination
proof (relation "measure (\<lambda>(g, s). script_size (in_client s))", goal_cases)
  case 1
  show ?case by simp
next
  case (2 grace s k r)
  then have "recv_peek (in_client s) = (k, r)" "k < 0" by auto
  then show ?case by (simp add: recv_not_ready)
next
  case (3 grace s k r a r' d b s')
  then have p: "recv_peek (in_client s) = (k, r)" "0 < k" "sread BUFSIZE r = (Some d, r')"
    "in_client s' = r'" by (auto dest: grow_request_client)
  have "r = in_client s" by (rule recv_ready [OF p(1,2)])
  then show ?case using recv_ready_read [OF p(1,2)] p(3,4) by (simp add: BUFSIZE_def)
qed

declare read_request.simps [simp del]

definition start_intake :: "ev list \<Rightarrow> intake" where
  "start_intake r = \<lparr>in_client = r, in_buf = replicate (RESPONSE_HEADER_SIZE + 1) NUL, in_total = 0,
     in_size = RESPONSE_HEADER_SIZE\<rparr>"

section \<open>Serving a request\<close>

text \<open>The world outside: the network, the time zone, the clock, the address of the client, and a byte
  of memory that is not initialised.\<close>

record env =
  e_net :: net
  e_zone :: int
  e_now :: int
  e_ipstr :: string
  e_junk :: char

text \<open>The cached response, as a C string.\<close>

definition send_cached :: "nat \<Rightarrow> world \<Rightarrow> world option" where
  "send_cached cachedData w = do {
     v \<leftarrow> strs (w_cache w) cachedData;
     (rc, n, c) \<leftarrow> writeall (w_client w) (v @ [NUL]) (length v);
     Some (w\<lparr>w_client := c\<rparr>) }"

text \<open>What is done once \<open>cacheable\<close> has decided.\<close>

definition serve_decided :: "env \<Rightarrow> string \<Rightarrow> ReqInfo \<Rightarrow> cbuf \<Rightarrow> cacheResult \<Rightarrow> nat \<Rightarrow> world \<Rightarrow> world option" where
  "serve_decided e UID parsedReq request cacheRes cachedData w = (case cacheRes of
       HIT \<Rightarrow> do {
         w \<leftarrow> say (UID @ '': in cache, valid'') w;
         w \<leftarrow> send_cached cachedData w;
         Some (exitRequest w) }
     | REVALIDATE \<Rightarrow> do {
         w \<leftarrow> say (UID @ '': in cache, requires validation'') w;
         (revalidationResult, w) \<leftarrow> getRevalidation (e_net e) parsedReq (URI parsedReq) w;
         if revalidationResult = 0 then do { w \<leftarrow> send_cached cachedData w; Some (exitRequest w) }
         else if revalidationResult > 0 then Some (exitRequest w)
         else if revalidationResult = REVALIDATION_INFO_MISSING
         then forwardRequest (e_net e) (e_now e) (e_junk e) parsedReq request UID w
         else Some (exitRequest w) }
     | MISS \<Rightarrow> do {
         w \<leftarrow> say (UID @ '': not in cache'') w;
         forwardRequest (e_net e) (e_now e) (e_junk e) parsedReq request UID w }
     | EXPIRED \<Rightarrow> forwardRequest (e_net e) (e_now e) (e_junk e) parsedReq request UID w)"

definition serve_parsed :: "env \<Rightarrow> string \<Rightarrow> ReqInfo \<Rightarrow> cbuf \<Rightarrow> world \<Rightarrow> world option" where
  "serve_parsed e UID parsedReq request w = do {
     (cacheRes, cachedData, lg) \<leftarrow> cacheable (e_zone e) (e_now e) (w_cache w) parsedReq UID;
     serve_decided e UID parsedReq request cacheRes cachedData (w\<lparr>w_logs := w_logs w @ lg\<rparr>) }"

text \<open>The request is read and parsed, or the connection closed.\<close>

definition receive :: "env \<Rightarrow> int \<Rightarrow> int \<Rightarrow> world \<Rightarrow> (world + string \<times> ReqInfo \<times> cbuf \<times> world) option" where
  "receive e threadId requestsServiced w = do {
     UID \<leftarrow> sprintf 30 (show_int threadId @ show_int requestsServiced);
     r \<leftarrow> read_request 10 (start_intake (rx (w_client w)));
     (case r of
        Inl s \<Rightarrow> Some (Inl (w\<lparr>w_client := (w_client w)\<lparr>rx := in_client s\<rparr>, w_closed := w_closed w + 1\<rparr>))
      | Inr s \<Rightarrow> do {
          let w = w\<lparr>w_client := (w_client w)\<lparr>rx := in_client s\<rparr>\<rparr>;
          time \<leftarrow> getCurrentTimeStr (e_zone e) (e_now e);
          (parsedReq, request, lg) \<leftarrow> parseRequest (in_buf s) UID (e_ipstr e) time;
          let w = w\<lparr>w_logs := w_logs w @ lg\<rparr>;
          (case parsedReq of
             None \<Rightarrow> Some (Inl (exitRequest (w\<lparr>w_client := snd (swrite (w_client w) BAD_REQUEST_RESPONSE)\<rparr>)))
           | Some req \<Rightarrow> Some (Inr (UID, req, request, w))) }) }"

definition serve_request :: "env \<Rightarrow> int \<Rightarrow> int \<Rightarrow> world \<Rightarrow> world option" where
  "serve_request e threadId requestsServiced w = do {
     r \<leftarrow> receive e threadId requestsServiced w;
     (case r of
        Inl w \<Rightarrow> Some w
      | Inr (UID, req, request, w) \<Rightarrow> serve_parsed e UID req request w) }"

end
