(* ===== verification/Reading.thy ===== *)
theory Reading
  imports Worker Copying_Props
begin

text \<open>What the two loops that read a request and the first part of a response leave in their buffers.\<close>

section \<open>The first part of a response\<close>

lemma store_bytes_at:
  assumes "length d \<le> length z"
  shows "store_bytes (got @ z) (length got) d = Some ((got @ d) @ drop (length d) z)"
  using assms by (simp add: store_bytes_def)

lemma read_first_spec:
  assumes "ReadErr \<notin> set (rd_server s)" "delivered grace (rd_server s) = (D, q)"
    and "rd_buf s = got @ z" "rd_total s = length got"
    and "length got + length D < RESPONSE_HEADER_SIZE - BUFSIZE"
    and "RESPONSE_HEADER_SIZE \<le> length (got @ z)"
  shows "read_first grace s = Some (Inr \<lparr>rd_server = q,
    rd_buf = got @ D @ drop (length D) z, rd_total = length got + length D\<rparr>)"
  using assms
proof (induction "script_size (rd_server s)" arbitrary: s grace got z D rule: less_induct)
  case less
  note p = less.prems
  show ?case
  proof (cases "0 < grace")
    case False
    then show ?thesis using p by (subst read_first.simps) simp
  next
    case g: True
    have t: "rd_total s < RESPONSE_HEADER_SIZE - BUFSIZE" using p by simp
    from p(1) BUFSIZE_pos g show ?thesis
    proof (cases rule: script_cases)
      case closed
      then show ?thesis using g t p(2-4) by (subst read_first.simps) simp
    next
      case (quiet r)
      have "read_first grace s = read_first (grace - 1) (s\<lparr>rd_server := r\<rparr>)"
        using quiet(1) g t by (subst read_first.simps) simp
      then show ?thesis
        using less.hyps [of "s\<lparr>rd_server := r\<rparr>" "grace - 1" D got z] quiet p by simp
    next
      case (data d r)
      define D' where "D' = fst (delivered grace r)"
      have D: "D = d @ D'" "delivered grace r = (D', q)" using data(3) p(2) by (simp_all add: D'_def)
      have fit: "length d \<le> length z" using p(5,6) D(1) by simp
      let ?s = "\<lparr>rd_server = r, rd_buf = (got @ d) @ drop (length d) z, rd_total = length got + length d\<rparr>"
      have "read_first grace s = read_first grace ?s"
        using data(1,2) g t p(3,4) store_bytes_at [OF fit, of got] by (subst read_first.simps) simp
      also have "\<dots> = Some (Inr \<lparr>rd_server = q,
          rd_buf = (got @ d) @ D' @ drop (length D') (drop (length d) z),
          rd_total = length (got @ d) + length D'\<rparr>)"
        using less.hyps [of ?s grace D' "got @ d" "drop (length d) z"] data D p fit by simp
      finally show ?thesis using D(1) by (simp add: add.commute [of "length d"] add.left_commute)
    qed
  qed
qed

section \<open>A request\<close>

definition intake_inv :: "intake \<Rightarrow> string \<Rightarrow> bool" where
  "intake_inv s got \<longleftrightarrow> in_total s = length got \<and> length got + BUFSIZE \<le> in_size s \<and> BUFSIZE \<le> in_size s \<and>
     in_buf s = got @ replicate (in_size s + 1 - length got) NUL"

lemma grow_request_inv:
  assumes "in_total s = length got" "length got \<le> in_size s" "BUFSIZE \<le> in_size s"
    "in_buf s = got @ replicate (in_size s + 1 - length got) NUL" "length got + BUFSIZE \<le> 2 ^ 30"
  shows "\<exists>s'. grow_request s = Some s' \<and> intake_inv s' got \<and> in_client s' = in_client s"
proof (cases "in_size s < in_total s + BUFSIZE")
  case False
  then show ?thesis using assms by (simp add: grow_request_def intake_inv_def c_int_small)
next
  case True
  have "c_int (int (in_total s) + int BUFSIZE) = Some (int (in_total s + BUFSIZE))"
    "c_int (2 * int (in_size s) + 1) = Some (2 * int (in_size s) + 1)"
    "nat (2 * int (in_size s) + 1) = 2 * in_size s + 1" "int (in_size s) < int (in_total s + BUFSIZE)"
    using True assms(1,5) by (simp_all add: c_int_small nat_add_distrib nat_mult_distrib)
  note ints = this
  let ?n = "2 * in_size s + 1"
  define B where "B = take ?n (in_buf s) @ replicate (?n - length (in_buf s)) NUL"
  have B: "B = got @ replicate (?n - length got) NUL"
    using assms(2,4) by (simp add: B_def replicate_add [symmetric])
  have "zero B (in_total s) (?n - in_total s) = Some B"
    unfolding B using assms(1,2) by (simp add: zero_def store_bytes_def)
  then have "grow_request s = Some (s\<lparr>in_buf := B, in_size := 2 * in_size s\<rparr>)"
    unfolding grow_request_def ints(1,2) bind.bind_lunit Let_def ints(3) using ints(4) by (simp add: B_def)
  then show ?thesis using assms B by (simp add: intake_inv_def)
qed

lemma read_request_spec:
  assumes "ReadErr \<notin> set (in_client s)" "delivered grace (in_client s) = (D, q)" "intake_inv s got"
    and "length got + length D + BUFSIZE \<le> 2 ^ 30"
  shows "\<exists>s'. read_request grace s = Some (Inr s') \<and> intake_inv s' (got @ D) \<and> in_client s' = q"
  using assms
proof (induction "script_size (in_client s)" arbitrary: s grace got D rule: less_induct)
  case less
  note p = less.prems
  show ?case
  proof (cases "0 < grace")
    case False
    then show ?thesis using p by (subst read_request.simps) simp
  next
    case g: True
    from p(1) BUFSIZE_pos g show ?thesis
    proof (cases rule: script_cases)
      case closed
      then have "read_request grace s = Some (Inr s)" using g by (subst read_request.simps) simp
      then show ?thesis using closed p(2,3) by simp
    next
      case (quiet r)
      have "read_request grace s = read_request (grace - 1) (s\<lparr>in_client := r\<rparr>)"
        using quiet(1) g by (subst read_request.simps) simp
      moreover have "intake_inv (s\<lparr>in_client := r\<rparr>) got" using p(3) by (simp add: intake_inv_def)
      ultimately show ?thesis
        using less.hyps [of "s\<lparr>in_client := r\<rparr>" "grace - 1" D got] quiet p by simp
    next
      case (data d r)
      define D' where "D' = fst (delivered grace r)"
      have D: "D = d @ D'" "delivered grace r = (D', q)" using data(3) p(2) by (simp_all add: D'_def)
      have i: "in_total s = length got" "length got + BUFSIZE \<le> in_size s" "BUFSIZE \<le> in_size s"
        "in_buf s = got @ replicate (in_size s + 1 - length got) NUL"
        using p(3) by (simp_all add: intake_inv_def)
      have fit: "length d \<le> in_size s + 1 - length got" using i(2) data(6) by simp
      let ?s = "s\<lparr>in_client := r, in_buf := (got @ d) @ replicate (in_size s + 1 - length (got @ d)) NUL,
          in_total := length got + length d\<rparr>"
      have st: "store_bytes (in_buf s) (in_total s) d =
          Some ((got @ d) @ replicate (in_size s + 1 - length (got @ d)) NUL)"
        using store_bytes_at [of d "replicate (in_size s + 1 - length got) NUL" got] fit i by simp
      obtain s' where s': "grow_request ?s = Some s'" "intake_inv s' (got @ d)" "in_client s' = r"
        using grow_request_inv [of ?s "got @ d"] i data(6) p(4) D(1) by auto
      have "read_request grace s = read_request grace s'"
        using data(1,2) g st s'(1) i(1) by (subst read_request.simps) simp
      then show ?thesis using less.hyps [of s' grace D' "got @ d"] s' data D p(4) by simp
    qed
  qed
qed

lemma start_intake_inv: "intake_inv (start_intake r) []"
  by (simp add: intake_inv_def start_intake_def RESPONSE_HEADER_SIZE_def BUFSIZE_def)

lemma request_read:
  assumes "ReadErr \<notin> set r" "length (fst (delivered 10 r)) + BUFSIZE \<le> 2 ^ 30"
  obtains s k where "read_request 10 (start_intake r) = Some (Inr s)" "in_client s = snd (delivered 10 r)"
    "in_total s = length (fst (delivered 10 r))"
    "in_buf s = fst (delivered 10 r) @ replicate k NUL" "BUFSIZE < k"
proof -
  have i: "in_client (start_intake r) = r" by (simp add: start_intake_def)
  obtain s where s: "read_request 10 (start_intake r) = Some (Inr s)" "intake_inv s (fst (delivered 10 r))"
    "in_client s = snd (delivered 10 r)"
    using read_request_spec [of "start_intake r" 10 "fst (delivered 10 r)" "snd (delivered 10 r)" "[]"]
      assms start_intake_inv i by auto
  have "BUFSIZE < in_size s + 1 - length (fst (delivered 10 r))"
    using s(2) unfolding intake_inv_def by linarith
  with that s show ?thesis by (auto simp: intake_inv_def)
qed

text \<open>C21: the bytes that arrive before the tenth empty poll of the client, up to 2^30 - 1024 of them (the
  \<open>int\<close>s overflow from there on) and however they are cut into pieces, are read without a fault into
  a buffer that is large enough: it holds exactly these bytes, followed by zero bytes only, more than the
  next read could bring. What the client sends later is not read.\<close>

theorem request_read_exact:
  assumes "ReadErr \<notin> set r" "length (fst (delivered 10 r)) + BUFSIZE \<le> 2 ^ 30"
  shows "\<exists>s k. read_request 10 (start_intake r) = Some (Inr s) \<and> in_client s = snd (delivered 10 r) \<and>
    in_total s = length (fst (delivered 10 r)) \<and>
    in_buf s = fst (delivered 10 r) @ replicate k NUL \<and> BUFSIZE < k"
  using request_read [OF assms] by metis

theorem request_read_exact_witness:
  "\<exists>s k. read_request 10 (start_intake [Data ''GET'', NotReady, Data '' /'']) = Some (Inr s) \<and>
    in_total s = 5 \<and> in_buf s = ''GET /'' @ replicate k NUL \<and> BUFSIZE < k"
proof -
  have d: "delivered 10 [Data ''GET'', NotReady, Data '' /''] = (''GET /'', [])"
    and l: "length ''GET /'' = 5" by (simp_all add: eval_nat_numeral)
  have "ReadErr \<notin> set [Data ''GET'', NotReady, Data '' /'']" by simp
  moreover have "5 + BUFSIZE \<le> 2 ^ 30" by (simp add: BUFSIZE_def)
  ultimately show ?thesis using request_read_exact [of "[Data ''GET'', NotReady, Data '' /'']", unfolded d fst_conv snd_conv l]
    by blast
qed

end
