(* ===== verification/Forward_Spec.thy ===== *)
theory Forward_Spec
  imports Reading ParseRequest_Props ParseResponse_Props
begin

text \<open>
  What \<open>forwardRequest\<close> does with a response that arrives completely in the first reads: the lemmas
  from which the properties of the proxy follow.
\<close>

section \<open>The CacheInfo of a response\<close>

text \<open>Once a \<open>Cache-Control\<close> header was read every field is set, and an expiry is printable.\<close>

definition info_set :: "resp_info \<Rightarrow> bool" where
  "info_set i \<longleftrightarrow> ri_needs i \<noteq> None \<and> ri_expiry i \<noteq> None \<and> ri_etag i \<noteq> None"

definition info_printable :: "resp_info \<Rightarrow> bool" where
  "info_printable i \<longleftrightarrow> (\<forall>t. ri_expiry i = Some (Some t) \<longrightarrow> (\<exists>x. gmtime x = Some t))"

lemma apply_policies_info:
  assumes "apply_policies now ps info = Some (can, info')" "info_set info" "info_printable info"
  shows "info_set info' \<and> info_printable info'"
  using assms
proof (induction ps arbitrary: info)
  case (Cons p ps)
  have e: "info_set i \<and> info_printable i" if "apply_policy now p info = Some (Some i)" for i
    using that Cons.prems(2,3)
    by (auto simp: apply_policy_def info_set_def info_printable_def elim!: bind_SomeE split: if_splits
        simp: getTimeFromExpiry_def)
  show ?case using Cons.prems by (auto elim!: bind_SomeE split: option.splits dest!: e dest: Cons.IH)
qed simp

definition resp_info_ok :: "resp_state \<Rightarrow> bool" where
  "resp_info_ok r \<longleftrightarrow> (rs_hasCC r \<longrightarrow> info_set (rs_info r)) \<and> info_printable (rs_info r)"

lemma resp_step_info:
  assumes "resp_step now r l = Some r'" "resp_info_ok r"
  shows "resp_info_ok r'"
proof (cases "names l ''Cache-Control'' \<and> \<not> names l ''Content-Length''")
  case True
  then obtain can i where p: "policies now (split_on COMMA (header_value l)) (cache_start (rs_info r)) = Some (can, i)"
    and r': "r' = r\<lparr>rs_hasCC := True, rs_canCache := can, rs_info := i\<rparr>"
    using assms(1) by (auto simp: resp_step_def Let_def elim!: bind_SomeE)
  have "info_set (cache_start (rs_info r))" "info_printable (cache_start (rs_info r))"
    by (simp_all add: info_set_def info_printable_def cache_start_def)
  then show ?thesis using apply_policies_info p r'
    by (auto simp: policies_words resp_info_ok_def)
next
  case False
  then show ?thesis using assms
    by (auto simp: resp_step_def Let_def resp_info_ok_def info_set_def info_printable_def split: if_splits)
qed

lemma resp_steps_info: "resp_steps now r hs = Some r' \<Longrightarrow> resp_info_ok r \<Longrightarrow> resp_info_ok r'"
  by (induction hs arbitrary: r) (auto elim!: bind_SomeE dest: resp_step_info)

lemma resp_begin_info: "resp_info_ok (resp_begin c no_info k)"
  by (simp add: resp_info_ok_def resp_begin_def info_printable_def no_info_def)

section \<open>The end of forwardRequest\<close>

lemma say_Some: "length m < MAX_LOG_LINE_LEN \<Longrightarrow> say m w = Some (w\<lparr>w_logs := w_logs w @ [m]\<rparr>)"
  by (simp add: say_def sprintf_def)

lemma store_response_ok:
  assumes c: "cstr cb 0 = Some v" and i: "info_set info" "info_printable info"
    and ok: "cache_ok (w_cache w)" "cache_key (URI r)" and uid: "length UID \<le> 30" and k: "k \<noteq> 0"
  shows "\<exists>e w'. entry_from v (host r) info = Some e \<and> store_response UID r cb info k w = Some w' \<and>
    store_entry (w_cache w) (URI r) e = Some (w_cache w') \<and> cache_ok (w_cache w') \<and>
    w_client w' = w_client w \<and> w_open w' = w_open w \<and> w_server w' = w_server w"
proof -
  obtain nd ex et where f: "ri_needs info = Some nd" "ri_expiry info = Some ex" "ri_etag info = Some et"
    using i(1) by (auto simp: info_set_def)
  let ?e = "\<lparr>e_val = v, e_host = host r, e_needs = nd, e_expiry = ex, e_etag = et\<rparr>"
  have e: "entry_from v (host r) info = Some ?e" using f by (simp add: entry_from_def)
  obtain h' where h': "store_entry (w_cache w) (URI r) ?e = Some h'" "cache_ok h'"
    using store_then_get_lookup [OF ok, of ?e] by auto
  have "\<exists>w1. log_cached UID ?e w = Some w1 \<and> w_cache w1 = w_cache w \<and> w_client w1 = w_client w \<and>
      w_open w1 = w_open w \<and> w_server w1 = w_server w"
  proof (cases ex)
    case None
    then show ?thesis using uid by (simp add: log_cached_def say_Some MAX_LOG_LINE_LEN_def)
  next
    case (Some t)
    then obtain x where "gmtime x = Some t" using i(2) f(2) by (auto simp: info_printable_def)
    from expiry_string [OF this] show ?thesis using uid Some by (simp add: log_cached_def say_Some MAX_LOG_LINE_LEN_def)
  qed
  then obtain w1 where w1: "log_cached UID ?e w = Some w1" "w_cache w1 = w_cache w" "w_client w1 = w_client w"
    "w_open w1 = w_open w" "w_server w1 = w_server w" by blast
  have "store_response UID r cb info k w = Some (w1\<lparr>w_cache := h'\<rparr>)"
    using c e k w1(1) h'(1) by (simp add: store_response_def w1(2))
  then show ?thesis using e h' w1 by simp
qed

lemma first_token:
  assumes "CR \<notin> set s" "NUL \<notin> set s" "NUL \<in> set r"
  shows "strsep (s @ CR # r) (Some 0) CR = Some (Some 0, Some (length s + 1), s @ NUL # r)"
    "cstr (s @ NUL # r) 0 = Some s"
proof -
  obtain w q where "r = w @ NUL # q" "NUL \<notin> set w" using assms(3) by (rule split_list_at)
  then show "strsep (s @ CR # r) (Some 0) CR = Some (Some 0, Some (length s + 1), s @ NUL # r)"
    using strsep_hit [OF assms(2,1) _ \<open>NUL \<notin> set w\<close>, of "[]" q] by simp
  show "cstr (s @ NUL # r) 0 = Some s" using cstr_at [OF assms(2), of "[]" r] by simp
qed

lemma strncpy_text:
  assumes "NUL \<notin> set s" "length s \<le> RESPONSE_HEADER_SIZE"
  shows "strncpy (replicate (RESPONSE_HEADER_SIZE + 1) NUL) (s @ q) (length s) =
    Some (s @ replicate (RESPONSE_HEADER_SIZE + 1 - length s) NUL)"
proof -
  have t: "takeWhile (\<lambda>c. c \<noteq> NUL) (take (length s) (s @ q)) = s" using assms(1) by (simp add: takeWhile_id_notin)
  show ?thesis unfolding strncpy_def t using assms(2) by (simp add: store_bytes_def del: replicate_Suc)
qed

section \<open>A complete response\<close>

text \<open>
  A response that needs no second transfer: its headers are well-formed, its status line ends with the
  only carriage return in it, it fits the first reads, and its body has at least the announced length
  and is not chunked.
\<close>

definition complete_response :: "int \<Rightarrow> string \<Rightarrow> string \<Rightarrow> string \<Rightarrow> string list \<Rightarrow> string \<Rightarrow> resp_state \<Rightarrow> bool" where
  "complete_response now UID hst s1 hs body rs \<longleftrightarrow>
     response_ok UID hst (s1 @ [CR]) hs body \<and> CR \<notin> set s1 \<and>
     length (message_text (s1 @ [CR]) hs body) < RESPONSE_HEADER_SIZE - BUFSIZE \<and>
     resp_steps now (resp_begin (-1) no_info 1) hs = Some rs \<and> body_left rs body \<le> 0 \<and> rs_chunked rs \<noteq> 1"

text \<open>The log messages of a request fit their arrays.\<close>

definition messages_fit :: "string \<Rightarrow> ReqInfo \<Rightarrow> string \<Rightarrow> bool" where
  "messages_fit UID r s1 \<longleftrightarrow> length UID \<le> 30 \<and> length UID + length (reqLine r) + length (host r) < 150 \<and>
     length UID + length s1 < 150"

lemma forward_response_steps:
  assumes "say (UID @ '': received response from '' @ host r @ ''.'') w = Some w1"
    and "parseResponse now rb (-1) no_info 1 (host r) UID = Some res" "0 \<le> rr_ret res"
    and "writeall (w_client w1) (rr_buf res) n = Some (0, k, c)"
    and "(if rr_canCache res \<noteq> 0 then strncpy (replicate (RESPONSE_HEADER_SIZE + 1) NUL) (rr_buf res) k
      else Some (replicate (RESPONSE_HEADER_SIZE + 1) NUL)) = Some cb"
    and "strsep (rr_buf res) (Some 0) CR = Some (t1, t2, b)" "cstr b 0 = Some l"
    and "say (UID @ '': responding '' @ l) (w1\<lparr>w_logs := w_logs w1 @ rr_log res, w_client := c\<rparr>) = Some w2"
    and "forward_rest UID srv rq b cb res w2 = Some (cb', can, w3)"
  shows "forward_response now UID r rq srv rb n w =
    do { w \<leftarrow> store_response UID r cb' (rr_info res) can w3; Some (exitRequest w) }"
  unfolding forward_response_eq assms(1) assms(2) Let_def
  using assms(3-) by (simp split del: if_split)

text \<open>Up to the store: the client has the response, and the block for the cache holds it too.\<close>

lemma forward_response_sent:
  assumes resp: "complete_response now UID (host r) s1 hs body rs"
    and clk: "clock_ok now" and fit: "messages_fit UID r s1"
    and m: "m = message_text (s1 @ [CR]) hs body" and post: "post = NUL # NUL # v"
    and w: "wr (w_client w) = []"
  shows "\<exists>cb allows w'. forward_response now UID r rq srv (m @ NUL # post) (length m) w =
      do { w \<leftarrow> store_response UID r cb (rs_info rs) allows w'; Some (exitRequest w) } \<and>
    allows = (if rs_hasCC rs then rs_canCache rs else 0) \<and> (allows \<noteq> 0 \<longrightarrow> cstr cb 0 = Some m) \<and>
    w_cache w' = w_cache w \<and> w_client w' = (w_client w)\<lparr>sent := sent (w_client w) @ m\<rparr> \<and>
    w_open w' = w_open w \<and> w_server w' = w_server w"
proof -
  have ro: "response_ok UID (host r) (s1 @ [CR]) hs body" and cr: "CR \<notin> set s1"
    and lm: "length m < RESPONSE_HEADER_SIZE - BUFSIZE"
    and st: "resp_steps now (resp_begin (-1) no_info 1) hs = Some rs"
    and bl: "body_left rs body \<le> 0" "rs_chunked rs \<noteq> 1"
    using resp by (simp_all add: complete_response_def m)
  have g: "good_response (s1 @ [CR]) hs body" using ro by (simp add: response_ok_def)
  have nm: "NUL \<notin> set m" and n1: "NUL \<notin> set s1"
    using g good_resp_unlines by (auto simp: good_response_def message_text_def m)
  have post': "NUL \<in> set post" using post by simp
  obtain b where p: "parseResponse now (m @ NUL # post) (-1) no_info 1 (host r) UID =
      Some \<lparr>rr_ret = max 0 (body_left rs body), rr_buf = m @ LF # b, rr_chunked = rs_chunked rs,
        rr_info = rs_info rs, rr_canCache = (if rs_hasCC rs then rs_canCache rs else 0),
        rr_log = [log_response UID (s1 @ [CR]) (host r)]\<rparr>" and b: "NUL \<in> set b"
    using response_parsed_rest [OF ro clk post', of "-1" no_info 1] post st unfolding m by auto
  define allows where "allows = (if rs_hasCC rs then rs_canCache rs else 0)"
  define res where "res = \<lparr>rr_ret = 0, rr_buf = m @ LF # b, rr_chunked = rs_chunked rs,
        rr_info = rs_info rs, rr_canCache = allows, rr_log = [log_response UID (s1 @ [CR]) (host r)]\<rparr>"
  have p': "parseResponse now (m @ NUL # post) (-1) no_info 1 (host r) UID = Some res"
    using p bl(1) by (simp add: res_def allows_def max_def)
  let ?c = "(w_client w)\<lparr>sent := sent (w_client w) @ m\<rparr>"
  define w1 where "w1 = w\<lparr>w_logs := w_logs w @ [UID @ '': received response from '' @ host r @ ''.'']\<rparr>"
  have s1: "say (UID @ '': received response from '' @ host r @ ''.'') w = Some w1"
    using fit by (simp add: w1_def say_Some messages_fit_def MAX_LOG_LINE_LEN_def)
  have wa: "writeall (w_client w) (m @ LF # b) (length m) = Some (0, length m, ?c)"
    using writeall_accepts [OF w, of "length m" "m @ LF # b"] by simp
  define cb where "cb = (if allows \<noteq> 0 then m @ replicate (RESPONSE_HEADER_SIZE + 1 - length m) NUL
      else replicate (RESPONSE_HEADER_SIZE + 1) NUL)"
  have cp: "(if allows \<noteq> 0 then strncpy (replicate (RESPONSE_HEADER_SIZE + 1) NUL) (m @ LF # b) (length m)
      else Some (replicate (RESPONSE_HEADER_SIZE + 1) NUL)) = Some cb"
    using strncpy_text [OF nm, of "LF # b"] lm by (simp add: cb_def)
  obtain r2 where r2: "m @ LF # b = s1 @ CR # r2" "NUL \<in> set r2" using b by (simp add: m message_text_def)
  obtain b2 where b2: "strsep (m @ LF # b) (Some 0) CR = Some (Some 0, Some (length s1 + 1), b2)" "cstr b2 0 = Some s1"
    using first_token [OF cr n1 r2(2)] r2(1) by simp
  define w2 where "w2 = w1\<lparr>w_logs := w_logs w1 @ rr_log res, w_client := ?c\<rparr>"
  define w3 where "w3 = w2\<lparr>w_logs := w_logs w2 @ [UID @ '': responding '' @ s1]\<rparr>"
  have s3: "say (UID @ '': responding '' @ s1) w2 = Some w3"
    using fit by (simp add: w3_def say_Some messages_fit_def MAX_LOG_LINE_LEN_def)
  have fr: "forward_rest UID srv rq b2 cb res w3 = Some (cb, allows, w3)"
    using bl(2) by (simp add: forward_rest_def res_def)
  have w3: "w_cache w3 = w_cache w" "w_client w3 = ?c" "w_open w3 = w_open w" "w_server w3 = w_server w"
    by (simp_all add: w3_def w2_def w1_def)
  have res: "rr_ret res = 0" "rr_buf res = m @ LF # b" "rr_canCache res = allows" "rr_info res = rs_info rs"
    by (simp_all add: res_def)
  have "w_client w1 = w_client w" by (simp add: w1_def)
  then have wa': "writeall (w_client w1) (m @ LF # b) (length m) = Some (0, length m, ?c)" using wa by simp
  note unf = forward_response_steps [OF s1 p', unfolded res, OF order_refl wa' cp b2 s3 [unfolded w2_def] fr]
  have "cstr cb 0 = Some m" if "allows \<noteq> 0"
    using that lm cstr_at [OF nm, of "[]" "replicate (RESPONSE_HEADER_SIZE - length m) NUL"]
    by (simp add: cb_def Suc_diff_le)
  then show ?thesis using unf w3 allows_def by blast
qed

lemma forward_response_complete:
  assumes resp: "complete_response now UID (host r) s1 hs body rs"
    and clk: "clock_ok now" and fit: "messages_fit UID r s1"
    and m: "m = message_text (s1 @ [CR]) hs body" and post: "post = NUL # NUL # v"
    and w: "wr (w_client w) = []" "cache_ok (w_cache w)" "cache_key (URI r)"
  shows "\<exists>w'. forward_response now UID r rq srv (m @ NUL # post) (length m) w = Some w' \<and>
    sent (w_client w') = sent (w_client w) @ m \<and> w_open w' = w_open w \<and> w_server w' = w_server w \<and>
    (if rs_hasCC rs \<and> rs_canCache rs \<noteq> 0
     then \<exists>e. entry_from m (host r) (rs_info rs) = Some e \<and> store_entry (w_cache w) (URI r) e = Some (w_cache w')
     else w_cache w' = w_cache w)"
proof -
  obtain cb allows w3 where unf: "forward_response now UID r rq srv (m @ NUL # post) (length m) w =
      do { w \<leftarrow> store_response UID r cb (rs_info rs) allows w3; Some (exitRequest w) }"
    and al: "allows = (if rs_hasCC rs then rs_canCache rs else 0)" and c: "allows \<noteq> 0 \<longrightarrow> cstr cb 0 = Some m"
    and w3: "w_cache w3 = w_cache w" "w_client w3 = (w_client w)\<lparr>sent := sent (w_client w) @ m\<rparr>"
      "w_open w3 = w_open w" "w_server w3 = w_server w"
    using forward_response_sent [OF resp clk fit m post w(1)] by blast
  show ?thesis
  proof (cases "allows = 0")
    case True
    then have "store_response UID r cb (rs_info rs) allows w3 = Some w3" by (simp add: store_response_def)
    then show ?thesis using unf True w3 by (auto simp: exitRequest_def al split: if_splits)
  next
    case False
    have "resp_steps now (resp_begin (-1) no_info 1) hs = Some rs" using resp by (simp add: complete_response_def)
    then have "resp_info_ok rs" by (rule resp_steps_info [OF _ resp_begin_info])
    then have i: "info_set (rs_info rs)" "info_printable (rs_info rs)"
      using False by (auto simp: resp_info_ok_def al split: if_splits)
    obtain e w' where "entry_from m (host r) (rs_info rs) = Some e"
      "store_response UID r cb (rs_info rs) allows w3 = Some w'"
      "store_entry (w_cache w) (URI r) e = Some (w_cache w')"
      "w_client w' = w_client w3" "w_open w' = w_open w3" "w_server w' = w_server w3"
      using store_response_ok [OF _ i _ w(3) _ False, of cb m w3 UID] c False w(2) w3(1) fit by (auto simp: messages_fit_def)
    then show ?thesis using unf False w3 by (auto simp: exitRequest_def al split: if_splits)
  qed
qed

end
