(* ===== verification/Worker_Spec.thy ===== *)
theory Worker_Spec
  imports Forward_Spec
begin

text \<open>
  The lemmas of \<open>serviceRequest\<close>: a whole request that a client writes, a complete response that a
  server sends, and a request that the cache answers.
\<close>

section \<open>What a peer sends\<close>

text \<open>The peer delivers exactly \<open>d\<close> before it has paused \<open>n\<close> times (or closes before), without errors.\<close>

definition delivers :: "nat \<Rightarrow> ev list \<Rightarrow> string \<Rightarrow> bool" where
  "delivers n r d \<longleftrightarrow> ReadErr \<notin> set r \<and> fst (delivered n r) = d"

text \<open>The server that the host and port of the request stand for accepts the connection and every write.\<close>

definition connects :: "net \<Rightarrow> ReqInfo \<Rightarrow> sock \<Rightarrow> bool" where
  "connects net r srv \<longleftrightarrow> net (host r) (if isHttps r \<noteq> 0 then ''https'' else ''http'') = Connected srv \<and>
     wr srv = [] \<and> sent srv = []"

definition answers :: "nat \<Rightarrow> net \<Rightarrow> ReqInfo \<Rightarrow> string \<Rightarrow> bool" where
  "answers n net r d \<longleftrightarrow> (\<exists>srv. connects net r srv \<and> delivers n (rx srv) d)"

section \<open>Forwarding\<close>

lemma connect_answers:
  assumes "answers n net r d"
  obtains srv where "connectToServer net r w = Some (Some srv, w\<lparr>w_open := w_open w + 1\<rparr>)"
    "wr srv = []" "sent srv = []" "delivers n (rx srv) d"
  using assms by (auto simp: answers_def connects_def connectToServer_def Let_def)

lemma read_first_delivers:
  assumes "delivers n r d" "length d < RESPONSE_HEADER_SIZE - BUFSIZE" "length z = RESPONSE_HEADER_SIZE"
  shows "read_first n \<lparr>rd_server = r, rd_buf = z @ y, rd_total = 0\<rparr> =
    Some (Inr \<lparr>rd_server = snd (delivered n r), rd_buf = d @ drop (length d) (z @ y), rd_total = length d\<rparr>)"
  using read_first_spec [of "\<lparr>rd_server = r, rd_buf = z @ y, rd_total = 0\<rparr>" n d "snd (delivered n r)" "[]" "z @ y"]
    assms by (auto simp: delivers_def)

text \<open>The request is sent to the server, and the first part of its answer read into zeroed memory.\<close>

lemma forward_reads:
  assumes fit: "length UID + length (reqLine r) + length (host r) < 150"
    and d: "length d < RESPONSE_HEADER_SIZE - BUFSIZE" and net: "answers 10000 net r d" and get: "reqType r \<noteq> 1"
    and rq: "rq = text @ NUL # v" "NUL \<notin> set text"
  shows "\<exists>srv w1 k. forwardRequest net now junk r rq UID w =
      forward_response now UID r rq srv (d @ NUL # NUL # NUL # replicate k NUL @ [junk]) (length d) w1 \<and>
    sent srv = text \<and> w_cache w1 = w_cache w \<and> w_client w1 = w_client w \<and> w_open w1 = w_open w + 1 \<and>
    w_server w1 = Some srv"
proof -
  define w1 where "w1 = w\<lparr>w_logs := w_logs w @ [UID @ '': Requesting '' @ reqLine r @ '' from '' @ host r]\<rparr>"
  have s: "say (UID @ '': Requesting '' @ reqLine r @ '' from '' @ host r) w = Some w1"
    using fit by (simp add: w1_def say_Some MAX_LOG_LINE_LEN_def)
  obtain srv where srv: "connectToServer net r w1 = Some (Some srv, w1\<lparr>w_open := w_open w1 + 1\<rparr>)"
    "wr srv = []" "sent srv = []" "delivers 10000 (rx srv) d" using net by (rule connect_answers)
  have n: "strlen rq 0 = Some (length text)" using strlen_at [OF rq(2), of "[]" v] rq(1) by simp
  define srv1 where "srv1 = srv\<lparr>sent := text\<rparr>"
  have wa: "writeall srv rq (length text) = Some (0, length text, srv1)"
    using writeall_accepts [OF srv(2), of "length text" rq] rq(1) srv(3) by (simp add: srv1_def)
  let ?z = "replicate RESPONSE_HEADER_SIZE NUL"
  define srv2 where "srv2 = srv1\<lparr>rx := snd (delivered 10000 (rx srv))\<rparr>"
  have rf: "read_first 10000 \<lparr>rd_server = rx srv1, rd_buf = ?z @ [junk], rd_total = 0\<rparr> =
      Some (Inr \<lparr>rd_server = rx srv2, rd_buf = d @ drop (length d) (?z @ [junk]), rd_total = length d\<rparr>)"
    using read_first_delivers [OF srv(4) d, of ?z "[junk]"] by (simp add: srv1_def srv2_def)
  obtain k where k: "RESPONSE_HEADER_SIZE - length d = Suc (Suc (Suc k))"
    using d by (intro that [of "RESPONSE_HEADER_SIZE - length d - 3"]) (simp add: BUFSIZE_def)
  then have buf: "drop (length d) (?z @ [junk]) = NUL # NUL # NUL # replicate k NUL @ [junk]"
    using d by (simp add: drop_replicate del: replicate_Suc) simp
  define w2 where "w2 = w1\<lparr>w_open := w_open w1 + 1, w_server := Some srv2\<rparr>"
  have "forwardRequest net now junk r rq UID w =
      forward_response now UID r rq srv2 (d @ NUL # NUL # NUL # replicate k NUL @ [junk]) (length d) w2"
    using srv(1) get n wa rf [unfolded buf] unfolding forwardRequest_eq s
    by (simp add: Let_def srv2_def w2_def)
  then show ?thesis
    by (intro exI [of _ srv2] exI [of _ w2] exI [of _ k]) (simp add: w2_def w1_def srv2_def srv1_def)
qed

lemma forward_complete:
  assumes resp: "complete_response now UID (host r) s1 hs body rs"
    and clk: "clock_ok now" and fit: "messages_fit UID r s1"
    and m: "m = message_text (s1 @ [CR]) hs body" and net: "answers 10000 net r m" and get: "reqType r \<noteq> 1"
    and rq: "rq = text @ NUL # v" "NUL \<notin> set text"
    and w: "wr (w_client w) = []" "cache_ok (w_cache w)" "cache_key (URI r)"
  shows "\<exists>w' srv. forwardRequest net now junk r rq UID w = Some w' \<and>
    sent (w_client w') = sent (w_client w) @ m \<and> w_open w' = w_open w + 1 \<and>
    w_server w' = Some srv \<and> sent srv = text \<and>
    (if rs_hasCC rs \<and> rs_canCache rs \<noteq> 0
     then \<exists>e. entry_from m (host r) (rs_info rs) = Some e \<and> store_entry (w_cache w) (URI r) e = Some (w_cache w')
     else w_cache w' = w_cache w)"
proof -
  have "length m < RESPONSE_HEADER_SIZE - BUFSIZE" "length UID + length (reqLine r) + length (host r) < 150"
    using resp fit by (simp_all add: complete_response_def m messages_fit_def)
  then obtain srv w1 k where w1: "forwardRequest net now junk r rq UID w =
      forward_response now UID r rq srv (m @ NUL # NUL # NUL # replicate k NUL @ [junk]) (length m) w1"
    "sent srv = text" "w_cache w1 = w_cache w" "w_client w1 = w_client w" "w_open w1 = w_open w + 1"
    "w_server w1 = Some srv" using forward_reads [OF _ _ net get rq] by blast
  then have "wr (w_client w1) = []" "cache_ok (w_cache w1)" using w by simp_all
  from forward_response_complete [OF resp clk fit m refl this w(3), where v = "replicate k NUL @ [junk]" and rq = rq and srv = srv]
  show ?thesis unfolding w1(1,3-6) using w1(2,6) by metis
qed

section \<open>A request that a client writes\<close>

definition call_text :: "string \<Rightarrow> string \<Rightarrow> string \<Rightarrow> string list \<Rightarrow> string" where
  "call_text m u h hs = message_text (request_line m u) (host_header h # hs) []"

text \<open>Beyond 2^30 bytes the sizes of the buffer for the request overflow.\<close>

definition good_call :: "string \<Rightarrow> string \<Rightarrow> string \<Rightarrow> string list \<Rightarrow> bool" where
  "good_call m u h hs \<longleftrightarrow> m \<in> {''GET'', ''CONNECT'', ''POST''} \<and> uri_word u \<and> host_word h \<and>
     (\<forall>l\<in>set hs. good_header l \<and> \<not> is_host l) \<and> length (call_text m u h hs) + BUFSIZE \<le> 2 ^ 30"

definition call_info :: "string \<Rightarrow> string \<Rightarrow> string \<Rightarrow> ReqInfo" where
  "call_info m u h = \<lparr>reqType = fst (method_type m), isHttps = snd (method_type m), host = h, URI = u,
     reqLine = request_line m u\<rparr>"

text \<open>The worker's clock is in range, and the messages of the request fit their arrays.\<close>

definition env_ok :: "env \<Rightarrow> string \<Rightarrow> string \<Rightarrow> string \<Rightarrow> string \<Rightarrow> bool" where
  "env_ok e UID m u h \<longleftrightarrow> clock_ok (e_now e) \<and> \<bar>e_zone e\<bar> \<le> 86400 \<and> length UID < 30 \<and>
     length UID + length (request_line m u) + length (e_ipstr e) < 150 \<and>
     length UID + length (request_line m u) + length h < 150"

lemma env_clock:
  assumes "env_ok e UID m u h"
  shows "\<exists>c. getCurrentTime (e_now e) = Some c"
    "\<exists>t. getCurrentTimeStr (e_zone e) (e_now e) = Some t \<and> length t \<le> 32"
proof -
  show "\<exists>c. getCurrentTime (e_now e) = Some c"
    using gmtime_defined [of "e_now e"] assms by (auto simp: getCurrentTime_def env_ok_def clock_ok_def)
  have "\<bar>e_now e\<bar> \<le> 10 ^ 12" "\<bar>e_zone e\<bar> \<le> 86400" using assms by (simp_all add: env_ok_def clock_ok_def)
  then have "- (2 ^ 55) \<le> e_now e + e_zone e" "e_now e + e_zone e \<le> 2 ^ 55" by simp_all
  then obtain c where c: "gmtime (e_now e + e_zone e) = Some c" using gmtime_defined by blast
  show "\<exists>t. getCurrentTimeStr (e_zone e) (e_now e) = Some t \<and> length t \<le> 32"
    using asctime_length [OF c] c by (simp add: getCurrentTimeStr_def sprintf_def)
qed

lemma call_text_NUL:
  assumes "good_call m u h hs"
  shows "NUL \<notin> set (call_text m u h hs)"
  using assms host_of_host_header(3) [of h] unlines_NUL [of hs]
  by (auto simp: good_call_def call_text_def message_text_def request_line_def uri_word_def
      good_header_def unlines_def)

lemma receive_call:
  assumes call: "good_call m u h hs" and rx: "delivers 10 (rx (w_client w)) (call_text m u h hs)"
    and e: "env_ok e UID m u h" and UID: "UID = show_int t @ show_int n"
  shows "\<exists>k lg. receive e t n w = Some (Inr (UID, call_info m u h, call_text m u h hs @ NUL # NUL # replicate k NUL,
      w\<lparr>w_client := (w_client w)\<lparr>rx := snd (delivered 10 (rx (w_client w)))\<rparr>, w_logs := w_logs w @ lg\<rparr>))"
proof -
  let ?r = "rx (w_client w)"
  have d: "ReadErr \<notin> set ?r" "fst (delivered 10 ?r) = call_text m u h hs" using rx by (auto simp: delivers_def)
  obtain s k where s: "read_request 10 (start_intake ?r) = Some (Inr s)" "in_client s = snd (delivered 10 ?r)"
    "in_buf s = call_text m u h hs @ replicate k NUL" "BUFSIZE < k"
    using request_read [OF d(1)] d(2) call by (metis good_call_def)
  have k: "replicate k NUL = NUL # NUL # replicate (k - 2) NUL"
    using s(4) by (cases k; cases "k - 1") (auto simp: BUFSIZE_def)
  obtain time where time: "getCurrentTimeStr (e_zone e) (e_now e) = Some time" "length time \<le> 32"
    using env_clock(2) [OF e] by blast
  have fit: "length (log_request UID (request_line m u) (e_ipstr e) time) < MAX_LOG_LINE_LEN"
    using e time(2) by (simp add: log_request_def env_ok_def MAX_LOG_LINE_LEN_def)
  have p: "parseRequest (in_buf s) UID (e_ipstr e) time = Some (Some (call_info m u h),
      in_buf s, [log_request UID (request_line m u) (e_ipstr e) time])"
    using parse_written [OF _ _ _ _ fit, of h hs _ "replicate (k - 2) NUL"] call
    unfolding s(3) k call_info_def call_text_def good_call_def by blast
  have "length UID < 30" using e by (simp add: env_ok_def)
  then have "receive e t n w = Some (Inr (UID, call_info m u h, in_buf s,
      w\<lparr>w_client := (w_client w)\<lparr>rx := snd (delivered 10 ?r)\<rparr>,
        w_logs := w_logs w @ [log_request UID (request_line m u) (e_ipstr e) time]\<rparr>))"
    using s(1,2) time(1) p UID by (simp add: receive_def sprintf_def)
  then show ?thesis unfolding s(3) k by blast
qed

lemma serve_call:
  assumes "good_call m u h hs" "delivers 10 (rx (w_client w)) (call_text m u h hs)"
    and "env_ok e UID m u h" "UID = show_int t @ show_int n"
  shows "\<exists>k lg. serve_request e t n w = serve_parsed e UID (call_info m u h)
      (call_text m u h hs @ NUL # NUL # replicate k NUL)
      (w\<lparr>w_client := (w_client w)\<lparr>rx := snd (delivered 10 (rx (w_client w)))\<rparr>, w_logs := w_logs w @ lg\<rparr>)"
proof -
  obtain k lg where "receive e t n w = Some (Inr (UID, call_info m u h, call_text m u h hs @ NUL # NUL # replicate k NUL,
      w\<lparr>w_client := (w_client w)\<lparr>rx := snd (delivered 10 (rx (w_client w)))\<rparr>, w_logs := w_logs w @ lg\<rparr>))"
    using receive_call [OF assms] by blast
  then show ?thesis by (auto simp: serve_request_def)
qed

section \<open>A request that the cache answers\<close>

lemma send_cached_accepts:
  assumes "strs (w_cache w) p = Some v" "wr (w_client w) = []"
  shows "send_cached p w = Some (w\<lparr>w_client := (w_client w)\<lparr>sent := sent (w_client w) @ v\<rparr>\<rparr>)"
  using writeall_accepts [OF assms(2), of "length v" "v @ [NUL]"] assms(1) by (simp add: send_cached_def)

lemma serve_hit:
  assumes ok: "cache_ok (w_cache w)" "cache_key (URI r)" and e: "env_ok e UID m u h"
    and v: "cache_view (w_cache w) (URI r) = Some en" "printable_expiry (Some en)"
    and hit: "decision (e_now e) (Some en) = HIT" and wr: "wr (w_client w) = []"
  shows "\<exists>w'. serve_parsed e UID r rq w = Some w' \<and> sent (w_client w') = sent (w_client w) @ e_val en \<and>
    w_cache w' = w_cache w \<and> w_open w' = w_open w \<and> w_server w' = w_server w"
proof -
  obtain c where c: "getCurrentTime (e_now e) = Some c" using env_clock(1) [OF e] by blast
  have uid: "length UID \<le> 30" using e by (simp add: env_ok_def)
  obtain p where p: "cacheable (e_zone e) (e_now e) (w_cache w) r UID = Some (HIT, p, [])"
    "strs (w_cache w) p = Some (e_val en)"
    using cacheable_decides [OF ok c _ uid, of "e_zone e"] v hit by auto
  define w1 where "w1 = w\<lparr>w_logs := w_logs w @ [UID @ '': in cache, valid'']\<rparr>"
  have s: "say (UID @ '': in cache, valid'') w = Some w1"
    using uid by (simp add: w1_def say_Some MAX_LOG_LINE_LEN_def)
  have "send_cached p w1 = Some (w1\<lparr>w_client := (w_client w1)\<lparr>sent := sent (w_client w1) @ e_val en\<rparr>\<rparr>)"
    using send_cached_accepts [of w1 p] p(2) wr by (simp add: w1_def)
  then show ?thesis using p(1) s by (simp add: serve_parsed_def serve_decided_def exitRequest_def w1_def)
qed

text \<open>The cache has no response for the URI, or an expired one: the request goes to the server.\<close>

definition must_fetch :: "env \<Rightarrow> heap \<Rightarrow> string \<Rightarrow> bool" where
  "must_fetch e c u \<longleftrightarrow> cache_ok c \<and> cache_key u \<and> printable_expiry (cache_view c u) \<and>
     decision (e_now e) (cache_view c u) \<in> {MISS, EXPIRED}"

lemma must_fetch_miss: "cache_ok c \<Longrightarrow> cache_key u \<Longrightarrow> cache_view c u = None \<Longrightarrow> must_fetch e c u"
  by (simp add: must_fetch_def printable_expiry_def decision_def)

lemma serve_forwards:
  assumes "must_fetch e (w_cache w) (URI r)" "env_ok e UID m u h"
  shows "\<exists>lg. serve_parsed e UID r rq w =
    forwardRequest (e_net e) (e_now e) (e_junk e) r rq UID (w\<lparr>w_logs := w_logs w @ lg\<rparr>)"
proof -
  have uid: "length UID \<le> 30" using assms(2) by (simp add: env_ok_def)
  obtain c where c: "getCurrentTime (e_now e) = Some c" using env_clock(1) [OF assms(2)] by blast
  have ok: "cache_ok (w_cache w)" "cache_key (URI r)" "printable_expiry (cache_view (w_cache w) (URI r))"
    using assms(1) by (simp_all add: must_fetch_def)
  obtain p lg where "cacheable (e_zone e) (e_now e) (w_cache w) r UID = Some (decision (e_now e) (cache_view (w_cache w) (URI r)), p, lg)"
    using cacheable_decides [OF ok(1,2) c ok(3) uid] by blast
  moreover have "decision (e_now e) (cache_view (w_cache w) (URI r)) \<in> {MISS, EXPIRED}"
    using assms(1) by (simp add: must_fetch_def)
  ultimately show ?thesis using uid by (auto simp: serve_parsed_def serve_decided_def say_Some MAX_LOG_LINE_LEN_def)
qed

end
