(* ===== verification/Worker_Props.thy ===== *)
theory Worker_Props
  imports Worker_Spec
begin

text \<open>The properties of \<open>forwardRequest\<close> and \<open>serviceRequest\<close>: what a client gets, from where.\<close>

section \<open>A page that may be cached for some time\<close>

definition max_age :: "nat \<Rightarrow> string" where
  "max_age age = ''max-age='' @ nat_digits age"

definition page_headers :: "nat \<Rightarrow> string \<Rightarrow> string list" where
  "page_headers age body = [header ''Content-Length'' (nat_digits (length body)),
     header ''Cache-Control'' (policy_list [max_age age])]"

definition page_text :: "nat \<Rightarrow> string \<Rightarrow> string" where
  "page_text age body = message_text (''HTTP/1.1 200 OK'' @ [CR]) (page_headers age body) body"

definition page_state :: "string \<Rightarrow> tm \<Rightarrow> resp_state" where
  "page_state body t = \<lparr>rs_length = int (length body), rs_chunked = 0,
     rs_info = \<lparr>ri_needs = Some 0, ri_expiry = Some (Some t), ri_etag = Some None\<rparr>,
     rs_hasCC = True, rs_canCache = 1\<rparr>"

lemma max_age_word: "policy_word (max_age age)"
proof -
  have "COMMA \<notin> set (nat_digits age)" using nat_digits_digits [of COMMA age] by (auto simp: isdigit_def)
  then show ?thesis using plain_nat_digits [of age] by (auto simp: policy_word_def max_age_def plain_def)
qed

lemma max_age_policy:
  assumes "age \<le> 10 ^ 12"
  shows "modest_policy (max_age age)" "apply_policy now (max_age age) info =
    map_option (\<lambda>t. Some (info\<lparr>ri_expiry := Some (Some t)\<rparr>)) (getTimeFromExpiry now (int age))"
proof -
  have s: "strtol (nat_digits age) = int age" using assms by (simp add: strtol_nat_digits long_max_def)
  then show "modest_policy (max_age age)"
    using assms by (simp add: modest_policy_def max_age_def)
  show "apply_policy now (max_age age) info =
    map_option (\<lambda>t. Some (info\<lparr>ri_expiry := Some (Some t)\<rparr>)) (getTimeFromExpiry now (int age))"
    by (simp add: max_age_def apply_policy_def strcaseeq_def strncaseeq_def tolower_def s
        split: option.splits) (cases "getTimeFromExpiry now (int age)"; simp)
qed

lemma page_headers_good:
  assumes "age \<le> 10 ^ 12"
  shows "\<forall>l\<in>set (page_headers age body). good_resp_header l \<and> modest_header l"
proof -
  have "good_resp_header (header ''Content-Length'' (nat_digits (length body)))"
    "modest_header (header ''Content-Length'' (nat_digits (length body)))"
    by (rule good_header_plain)
      (simp_all add: plain_nat_digits modest_header_def sets_policy_def names_def header_parts
        strcaseeq_def tolower_def, simp_all add: plain_def)
  then show ?thesis
    using cache_control_header(1) [of "[max_age age]"] cache_control_modest [of "[max_age age]"]
      max_age_word [of age] max_age_policy(1) [OF assms] by (simp add: page_headers_def)
qed

lemma page_headers_steps:
  assumes "age \<le> 10 ^ 12" "length body < 2 ^ 31" "getTimeFromExpiry now (int age) = Some t"
  shows "resp_steps now (resp_begin (-1) no_info 1) (page_headers age body) = Some (page_state body t)"
proof -
  have "names (header ''Content-Length'' (nat_digits (length body))) ''Content-Length''"
    by (simp add: names_def header_parts)
  then have l: "resp_step now r (header ''Content-Length'' (nat_digits (length body))) =
      Some (r\<lparr>rs_length := int (length body), rs_chunked := 0\<rparr>)" for r
    using assms(2) by (simp add: resp_step_def header_parts atoi_nat_digits)
  show ?thesis using cache_control_header(2) [of "[max_age age]" now] max_age_word [of age]
    by (simp add: page_headers_def l max_age_policy(2) [OF assms(1)] assms(3) page_state_def
        resp_begin_def cache_start_def no_info_def)
qed

lemma page_complete:
  assumes "age \<le> 10 ^ 12" "getTimeFromExpiry now (int age) = Some t" "NUL \<notin> set body"
    and "length (page_text age body) < RESPONSE_HEADER_SIZE - BUFSIZE" "length UID + length h < 150"
  shows "complete_response now UID h ''HTTP/1.1 200 OK'' (page_headers age body) body (page_state body t)"
proof -
  have "length body \<le> length (page_text age body)" by (simp add: page_text_def message_text_def)
  then have b: "length body < 2 ^ 31" using assms(4) by (simp add: RESPONSE_HEADER_SIZE_def BUFSIZE_def)
  have "response_ok UID h (''HTTP/1.1 200 OK'' @ [CR]) (page_headers age body) body"
    using page_headers_good [OF assms(1)] assms(3,5)
    by (auto simp: response_ok_def good_response_def log_response_def MAX_LOG_LINE_LEN_def)
  then show ?thesis
    using page_headers_steps [OF assms(1) b assms(2)] assms(4)
    by (simp add: complete_response_def page_text_def page_state_def body_left_def to_int32_def)
qed

section \<open>A miss and a hit\<close>

text \<open>A client that asks for a URI with GET: its request arrives, and it accepts what is sent.\<close>

definition asks :: "env \<Rightarrow> string \<Rightarrow> string \<Rightarrow> string \<Rightarrow> string list \<Rightarrow> sock \<Rightarrow> bool" where
  "asks e UID u h hs c \<longleftrightarrow> good_call ''GET'' u h hs \<and> env_ok e UID ''GET'' u h \<and> wr c = [] \<and>
     delivers 10 (rx c) (call_text ''GET'' u h hs)"

definition page_entry :: "nat \<Rightarrow> string \<Rightarrow> string \<Rightarrow> tm \<Rightarrow> entry" where
  "page_entry age body h ex = \<lparr>e_val = page_text age body, e_host = h, e_needs = 0, e_expiry = Some ex, e_etag = None\<rparr>"

lemma serve_to_forward:
  assumes c: "asks e UID u h hs (w_client w)" "UID = show_int t @ show_int n"
    and need: "must_fetch e (w_cache w) u"
  shows "\<exists>w1 k. serve_request e t n w = forwardRequest (e_net e) (e_now e) (e_junk e) (call_info ''GET'' u h)
      (call_text ''GET'' u h hs @ NUL # NUL # replicate k NUL) UID w1 \<and>
    w_cache w1 = w_cache w \<and> w_open w1 = w_open w \<and> wr (w_client w1) = [] \<and> sent (w_client w1) = sent (w_client w)"
proof -
  obtain k lg where k: "serve_request e t n w = serve_parsed e UID (call_info ''GET'' u h)
      (call_text ''GET'' u h hs @ NUL # NUL # replicate k NUL)
      (w\<lparr>w_client := (w_client w)\<lparr>rx := snd (delivered 10 (rx (w_client w)))\<rparr>, w_logs := w_logs w @ lg\<rparr>)"
    using serve_call [of "''GET''" u h hs w e UID t n] c by (auto simp: asks_def)
  let ?w = "w\<lparr>w_client := (w_client w)\<lparr>rx := snd (delivered 10 (rx (w_client w)))\<rparr>, w_logs := w_logs w @ lg\<rparr>"
  have "must_fetch e (w_cache ?w) (URI (call_info ''GET'' u h))" "env_ok e UID ''GET'' u h" "wr (w_client w) = []"
    using c(1) need by (simp_all add: asks_def call_info_def)
  moreover obtain lg' where "serve_parsed e UID (call_info ''GET'' u h)
      (call_text ''GET'' u h hs @ NUL # NUL # replicate k NUL) ?w = forwardRequest (e_net e) (e_now e) (e_junk e)
      (call_info ''GET'' u h) (call_text ''GET'' u h hs @ NUL # NUL # replicate k NUL) UID (?w\<lparr>w_logs := w_logs ?w @ lg'\<rparr>)"
    using serve_forwards [OF calculation(1,2)] by blast
  ultimately show ?thesis using k
    by (intro exI [of _ "?w\<lparr>w_logs := w_logs ?w @ lg'\<rparr>"] exI [of _ k]) simp
qed

text \<open>What is then kept: the response, with the host of the first request that was answered from there,
  unless the server forbids it.\<close>

lemma serve_fetches:
  assumes c: "asks e UID u h hs (w_client w)" "UID = show_int t @ show_int n"
    and need: "must_fetch e (w_cache w) u"
    and resp: "complete_response (e_now e) UID h s1 hs' body rs" "length UID + length s1 < 150"
    and srv: "answers 10000 (e_net e) (call_info ''GET'' u h) m" "m = message_text (s1 @ [CR]) hs' body"
  shows "\<exists>w' srv. serve_request e t n w = Some w' \<and> sent (w_client w') = sent (w_client w) @ m \<and>
    w_server w' = Some srv \<and> sent srv = call_text ''GET'' u h hs \<and> w_open w' = w_open w + 1 \<and> cache_ok (w_cache w') \<and>
    (if rs_hasCC rs \<and> rs_canCache rs \<noteq> 0
     then \<exists>en. entry_from m h (rs_info rs) = Some en \<and>
       cache_view (w_cache w') = (cache_view (w_cache w))(u \<mapsto> merge_entry (cache_view (w_cache w) u) en)
     else w_cache w' = w_cache w)"
proof -
  let ?r = "call_info ''GET'' u h"
  have env: "env_ok e UID ''GET'' u h" and clk: "clock_ok (e_now e)" using c(1) by (simp_all add: asks_def env_ok_def)
  have r: "reqType ?r \<noteq> 1" "URI ?r = u" "host ?r = h" "reqLine ?r = request_line ''GET'' u"
    by (simp_all add: call_info_def method_type_def)
  have fit: "messages_fit UID ?r s1" using env resp(2) by (simp add: messages_fit_def env_ok_def r)
  obtain w1 k where f: "serve_request e t n w = forwardRequest (e_net e) (e_now e) (e_junk e) ?r
      (call_text ''GET'' u h hs @ NUL # NUL # replicate k NUL) UID w1"
    and w1: "w_cache w1 = w_cache w" "w_open w1 = w_open w" "wr (w_client w1) = []"
      "sent (w_client w1) = sent (w_client w)" using serve_to_forward [OF c need] by blast
  have n: "NUL \<notin> set (call_text ''GET'' u h hs)" using c(1) by (intro call_text_NUL) (simp add: asks_def)
  have ok: "cache_ok (w_cache w1)" "cache_key (URI ?r)" using need w1(1) by (simp_all add: must_fetch_def r)
  have "complete_response (e_now e) UID (host ?r) s1 hs' body rs" using resp(1) by (simp only: r)
  from forward_complete [OF this clk fit srv(2,1) r(1) refl n w1(3) ok, of "e_junk e" "NUL # replicate k NUL"]
  obtain w' srv' where w': "forwardRequest (e_net e) (e_now e) (e_junk e) ?r
      (call_text ''GET'' u h hs @ NUL # NUL # replicate k NUL) UID w1 = Some w'"
    "sent (w_client w') = sent (w_client w1) @ m" "w_open w' = w_open w1 + 1" "w_server w' = Some srv'"
    "sent srv' = call_text ''GET'' u h hs" and st: "if rs_hasCC rs \<and> rs_canCache rs \<noteq> 0
     then \<exists>e. entry_from m (host ?r) (rs_info rs) = Some e \<and> store_entry (w_cache w1) (URI ?r) e = Some (w_cache w')
     else w_cache w' = w_cache w1" by blast
  have "cache_ok (w_cache w') \<and> (if rs_hasCC rs \<and> rs_canCache rs \<noteq> 0
     then \<exists>en. entry_from m h (rs_info rs) = Some en \<and>
       cache_view (w_cache w') = (cache_view (w_cache w))(u \<mapsto> merge_entry (cache_view (w_cache w) u) en)
     else w_cache w' = w_cache w)"
    using st ok(1) store_entry_keeps [OF ok(1)] unfolding w1(1) r by (auto split: if_splits)
  then show ?thesis using f w' w1 by auto
qed

lemma expiry_exists:
  assumes "clock_ok now" "age \<le> 10 ^ 12"
  obtains ex where "getTimeFromExpiry now (int age) = Some ex"
proof -
  have "\<bar>now\<bar> \<le> 10 ^ 12" "int age \<le> 10 ^ 12" using assms by (simp_all add: clock_ok_def)
  then have "- (2 ^ 55) \<le> now + int age" "now + int age \<le> 2 ^ 55" by simp_all
  then show ?thesis using getTimeFromExpiry_defined that by blast
qed

lemma serve_page:
  assumes c: "asks e UID u h hs (w_client w)" "UID = show_int t @ show_int n"
    and need: "must_fetch e (w_cache w) u"
    and page: "age \<le> 10 ^ 12" "NUL \<notin> set body" "length (page_text age body) < RESPONSE_HEADER_SIZE - BUFSIZE"
    and srv: "answers 10000 (e_net e) (call_info ''GET'' u h) (page_text age body)"
  shows "\<exists>w' srv ex. serve_request e t n w = Some w' \<and> sent (w_client w') = sent (w_client w) @ page_text age body \<and>
    w_server w' = Some srv \<and> sent srv = call_text ''GET'' u h hs \<and> w_open w' = w_open w + 1 \<and>
    getTimeFromExpiry (e_now e) (int age) = Some ex \<and> cache_ok (w_cache w') \<and>
    cache_view (w_cache w') = (cache_view (w_cache w))(u \<mapsto> merge_entry (cache_view (w_cache w) u) (page_entry age body h ex))"
proof -
  have env: "env_ok e UID ''GET'' u h" "clock_ok (e_now e)" using c(1) by (simp_all add: asks_def env_ok_def)
  obtain ex where ex: "getTimeFromExpiry (e_now e) (int age) = Some ex" using expiry_exists [OF env(2) page(1)] .
  have "length UID + length h < 150" "length UID + length ''HTTP/1.1 200 OK'' < 150" using env(1) by (simp_all add: env_ok_def)
  note serve_fetches [OF c need page_complete [OF page(1) ex page(2,3) this(1)] this(2) srv page_text_def]
  then show ?thesis using ex by (auto simp: page_state_def entry_from_def page_entry_def)
qed

text \<open>The cache has an entry that needs no server.\<close>

definition answers_now :: "env \<Rightarrow> heap \<Rightarrow> string \<Rightarrow> entry \<Rightarrow> bool" where
  "answers_now e c u en \<longleftrightarrow> cache_ok c \<and> cache_key u \<and> cache_view c u = Some en \<and> printable_expiry (Some en) \<and>
     decision (e_now e) (Some en) = HIT"

lemma serve_from_cache:
  assumes c: "asks e UID u h hs (w_client w)" "UID = show_int t @ show_int n"
    and hit: "answers_now e (w_cache w) u en"
  shows "\<exists>w'. serve_request e t n w = Some w' \<and> sent (w_client w') = sent (w_client w) @ e_val en \<and>
    w_cache w' = w_cache w \<and> w_open w' = w_open w \<and> w_server w' = w_server w"
proof -
  have a: "delivers 10 (rx (w_client w)) (call_text ''GET'' u h hs)" "good_call ''GET'' u h hs"
    "env_ok e UID ''GET'' u h" "wr (w_client w) = []" using c(1) by (simp_all add: asks_def)
  obtain k lg where k: "serve_request e t n w = serve_parsed e UID (call_info ''GET'' u h)
      (call_text ''GET'' u h hs @ NUL # NUL # replicate k NUL)
      (w\<lparr>w_client := (w_client w)\<lparr>rx := snd (delivered 10 (rx (w_client w)))\<rparr>, w_logs := w_logs w @ lg\<rparr>)"
    using serve_call [OF a(2,1,3) c(2)] by auto
  let ?w = "w\<lparr>w_client := (w_client w)\<lparr>rx := snd (delivered 10 (rx (w_client w)))\<rparr>, w_logs := w_logs w @ lg\<rparr>"
  have "cache_ok (w_cache ?w)" "cache_key (URI (call_info ''GET'' u h))" "wr (w_client ?w) = []"
    "cache_view (w_cache ?w) (URI (call_info ''GET'' u h)) = Some en" "printable_expiry (Some en)"
    "decision (e_now e) (Some en) = HIT"
    using hit a(4) by (simp_all add: answers_now_def call_info_def)
  from serve_hit [OF this(1,2) a(3) this(4-6,3)] show ?thesis unfolding k by simp
qed

text \<open>C1: a first client asks for a page that is not in the cache, or is there but expired. The page is a text
  without zero bytes, has \<open>Content-Length\<close> and \<open>max-age=age\<close> headers and fewer than 7168 bytes in all. The
  server gets the client's request unchanged and the client gets the server's response unchanged. Until the
  page expires, every other client that asks for this URI gets the same bytes, whatever host it names and
  whatever the network does: no server is contacted, and the cache stays as it is.\<close>

theorem miss_then_hit:
  assumes "asks e1 UID1 u h hs (w_client w)" "UID1 = show_int t1 @ show_int n1"
    and "must_fetch e1 (w_cache w) u"
    and "age \<le> 10 ^ 12" "NUL \<notin> set body" "length (page_text age body) < RESPONSE_HEADER_SIZE - BUFSIZE"
    and "answers 10000 (e_net e1) (call_info ''GET'' u h) (page_text age body)"
    and "asks e2 UID2 u h2 hs2 c" "UID2 = show_int t2 @ show_int n2" "e_now e2 < e_now e1 + int age"
  shows "\<exists>w1 w2 srv. serve_request e1 t1 n1 w = Some w1 \<and>
    sent (w_client w1) = sent (w_client w) @ page_text age body \<and>
    w_server w1 = Some srv \<and> sent srv = call_text ''GET'' u h hs \<and>
    serve_request e2 t2 n2 (w1\<lparr>w_client := c\<rparr>) = Some w2 \<and>
    sent (w_client w2) = sent c @ page_text age body \<and>
    w_server w2 = w_server w1 \<and> w_open w2 = w_open w1 \<and> w_cache w2 = w_cache w1"
proof -
  obtain w1 srv ex where w1: "serve_request e1 t1 n1 w = Some w1"
    "sent (w_client w1) = sent (w_client w) @ page_text age body" "w_server w1 = Some srv"
    "sent srv = call_text ''GET'' u h hs" "getTimeFromExpiry (e_now e1) (int age) = Some ex" "cache_ok (w_cache w1)"
    "cache_view (w_cache w1) = (cache_view (w_cache w))(u \<mapsto> merge_entry (cache_view (w_cache w) u) (page_entry age body h ex))"
    using serve_page [OF assms(1-7)] by blast
  let ?en = "merge_entry (cache_view (w_cache w) u) (page_entry age body h ex)"
  have en: "e_val ?en = page_text age body" "e_needs ?en = 0" "e_expiry ?en = Some ex"
    by (simp_all add: merge_entry_def page_entry_def split: option.split)
  have "gmtime (e_now e1 + int age) = Some ex" by (rule getTimeFromExpiry_SomeD [OF w1(5)])
  then have "decision (e_now e2) (Some ?en) = HIT" "printable_expiry (Some ?en)"
    using gmtime_SomeD(1) [of _ ex 0] assms(10)
    by (auto simp: decision_def expired_at_def en printable_expiry_def)
  then have hit: "answers_now e2 (w_cache (w1\<lparr>w_client := c\<rparr>)) u ?en"
    using w1(6,7) assms(3) by (simp add: answers_now_def must_fetch_def)
  have "asks e2 UID2 u h2 hs2 (w_client (w1\<lparr>w_client := c\<rparr>))" using assms(8) by simp
  from serve_from_cache [OF this assms(9) hit] w1(1-4) en(1) show ?thesis by auto
qed

text \<open>A network whose servers all send the same response, and a client that sends a request.\<close>

definition sample_net :: "string \<Rightarrow> net" where
  "sample_net d = (\<lambda>_ _. Connected \<lparr>rx = [Data d], wr = [], sent = []\<rparr>)"

definition sample_client :: "string \<Rightarrow> string \<Rightarrow> sock" where
  "sample_client u h = \<lparr>rx = [Data (call_text ''GET'' u h [])], wr = [], sent = []\<rparr>"

definition sample_env :: "net \<Rightarrow> int \<Rightarrow> env" where
  "sample_env net now = \<lparr>e_net = net, e_zone = 0, e_now = now, e_ipstr = ''127.0.0.1'', e_junk = CHR ''x''\<rparr>"

definition sample_world :: "sock \<Rightarrow> world" where
  "sample_world c = \<lparr>w_cache = empty_cache, w_logs = [], w_client = c, w_closed = 0, w_open = 0, w_server = None\<rparr>"

lemma delivers_Data: "d \<noteq> [] \<Longrightarrow> 0 < n \<Longrightarrow> delivers n [Data d] d"
  by (cases n) (simp_all add: delivers_def)

lemma page_text_nonempty: "page_text age body \<noteq> []"
  by (simp add: page_text_def message_text_def)

lemma sample_answers: "d \<noteq> [] \<Longrightarrow> 0 < n \<Longrightarrow> answers n (sample_net d) r d"
  by (simp add: answers_def connects_def sample_net_def delivers_Data)

lemma sample_asks:
  assumes "h \<in> {''a'', ''b''}" "UID \<in> {''17'', ''23'', ''10''}" "now \<in> {1700000000, 1700000059}"
  shows "asks (sample_env net now) UID ''/'' h [] (sample_client ''/'' h)"
proof -
  have "good_call ''GET'' ''/'' h []" using assms(1)
    by (auto simp: good_call_def uri_word_def host_word_def strcaseeq_def tolower_def call_text_def message_text_def
        request_line_def host_header_def header_def unlines_def BUFSIZE_def)
  moreover have "env_ok (sample_env net now) UID ''GET'' ''/'' h" using assms
    by (auto simp: env_ok_def sample_env_def clock_ok_def request_line_def)
  moreover have "call_text ''GET'' ''/'' h [] \<noteq> []" by (simp add: call_text_def message_text_def)
  ultimately show ?thesis by (simp add: asks_def sample_client_def delivers_Data)
qed

lemma sample_UID: "show_int 1 @ show_int 7 = ''17''" "show_int 2 @ show_int 3 = ''23''" "show_int 1 @ show_int 0 = ''10''"
  by code_simp+

lemma sample_page_fits: "length (page_text 60 ''hello'') < RESPONSE_HEADER_SIZE - BUFSIZE"
  by (simp add: page_text_def message_text_def page_headers_def unlines_def header_def max_age_def
      nat_digits.simps RESPONSE_HEADER_SIZE_def BUFSIZE_def)

theorem miss_then_hit_witness:
  "let m = page_text 60 ''hello'' in
   \<exists>w1 w2. serve_request (sample_env (sample_net m) 1700000000) 1 7 (sample_world (sample_client ''/'' ''a'')) = Some w1 \<and>
     sent (w_client w1) = m \<and>
     serve_request (sample_env (\<lambda>_ _. SocketError) 1700000059) 2 3 (w1\<lparr>w_client := sample_client ''/'' ''b''\<rparr>) = Some w2 \<and>
     sent (w_client w2) = m"
proof -
  let ?m = "page_text 60 ''hello''" and ?e1 = "sample_env (sample_net (page_text 60 ''hello'')) 1700000000"
  let ?e2 = "sample_env (\<lambda>_ _. SocketError) 1700000059" and ?w = "sample_world (sample_client ''/'' ''a'')"
  have a: "asks ?e1 ''17'' ''/'' ''a'' [] (w_client ?w)" "asks ?e2 ''23'' ''/'' ''b'' [] (sample_client ''/'' ''b'')"
    using sample_asks by (simp_all add: sample_world_def)
  have c: "must_fetch ?e1 (w_cache ?w) ''/''"
    by (rule must_fetch_miss [OF _ cache_key_root]) (simp_all add: sample_world_def cache_ok_empty view_empty)
  have n: "answers 10000 (e_net ?e1) (call_info ''GET'' ''/'' ''a'') ?m" by (simp add: sample_env_def sample_answers page_text_nonempty)
  have s: "sent (w_client ?w) = []" "sent (sample_client ''/'' ''b'') = []"
    "e_now ?e2 < e_now ?e1 + int 60" by (simp_all add: sample_world_def sample_client_def sample_env_def)
  from miss_then_hit [OF a(1) sample_UID(1) [symmetric] c _ _ sample_page_fits n a(2) sample_UID(2) [symmetric] s(3)]
  show ?thesis by (auto simp: s Let_def)
qed

end
