(* ===== verification/Closing.thy ===== *)
theory Closing
  imports Worker_Props
begin

text \<open>
  The descriptors of a worker: the connection of a client is closed once for every request that is
  served, however it ends, and the socket to the server never.
\<close>

section \<open>The counters\<close>

text \<open>The sockets that \<open>connectToServer\<close> creates for a request, even when it then fails.\<close>

definition opens :: "net \<Rightarrow> ReqInfo \<Rightarrow> nat" where
  "opens net r = (if net (host r) (if isHttps r \<noteq> 0 then ''https'' else ''http'') = SocketError then 0 else 1)"

lemma say_books: "say m w = Some w' \<Longrightarrow> w_closed w' = w_closed w \<and> w_open w' = w_open w"
  by (auto simp: say_def elim!: bind_SomeE)

lemma connect_books:
  "connectToServer net r w = Some (s, w') \<Longrightarrow> w_closed w' = w_closed w \<and> w_open w' = w_open w + opens net r"
  by (auto simp: connectToServer_def opens_def Let_def split: conn.splits)

lemma exit_books [simp]: "w_closed (exitRequest w) = Suc (w_closed w)" "w_open (exitRequest w) = w_open w"
  by (simp_all add: exitRequest_def)

lemma tunnel_books: "tunnel_to UID srv w = Some w' \<Longrightarrow> w_closed w' = Suc (w_closed w) \<and> w_open w' = w_open w"
  by (auto simp: tunnel_to_def Let_def elim!: bind_SomeE dest!: say_books
      split: option.splits prod.splits tunnel_end.splits)

lemma forward_rest_books:
  "forward_rest UID srv rq rb cb res w = Some (c, k, w') \<Longrightarrow> w_closed w' = w_closed w \<and> w_open w' = w_open w"
  by (auto simp: forward_rest_def Let_def elim!: bind_SomeE dest!: say_books split: if_splits)

lemma log_cached_books: "log_cached UID e w = Some w' \<Longrightarrow> w_closed w' = w_closed w \<and> w_open w' = w_open w"
  by (auto simp: log_cached_def elim!: bind_SomeE dest!: say_books split: if_splits option.splits)

lemma store_response_books:
  "store_response UID r cb info k w = Some w' \<Longrightarrow> w_closed w' = w_closed w \<and> w_open w' = w_open w"
  by (auto simp: store_response_def Let_def elim!: bind_SomeE dest!: log_cached_books split: if_splits)

lemma forward_response_books:
  "forward_response now UID r rq srv rb n w = Some w' \<Longrightarrow> w_closed w' = Suc (w_closed w) \<and> w_open w' = w_open w"
  by (auto simp: forward_response_eq Let_def elim!: bind_SomeE
      dest!: say_books forward_rest_books store_response_books split: if_splits)

lemma forwardRequest_books:
  assumes "forwardRequest net now junk r rq UID w = Some w'"
  shows "w_closed w' = Suc (w_closed w) \<and> w_open w' = w_open w + opens net r"
proof -
  obtain w1 where w1: "say (UID @ '': Requesting '' @ reqLine r @ '' from '' @ host r) w = Some w1"
    using assms by (auto simp: forwardRequest_eq elim!: bind_SomeE)
  obtain s w2 where w2: "connectToServer net r w1 = Some (s, w2)"
    using assms w1 by (auto simp: forwardRequest_eq elim!: bind_SomeE)
  have c: "w_closed w2 = w_closed w \<and> w_open w2 = w_open w + opens net r"
    using say_books [OF w1] connect_books [OF w2] by simp
  show ?thesis using assms w1 w2 c
    by (auto simp: forwardRequest_eq Let_def elim!: bind_SomeE
        dest!: tunnel_books forward_response_books split: option.splits if_splits sum.splits)
qed

lemma answer_books:
  "revalidation_answer a srv b n w = Some (k, w') \<Longrightarrow> w_closed w' = w_closed w \<and> w_open w' = w_open w \<and> k \<in> {-1, 0, 1}"
  by (auto simp: revalidation_answer_eq Let_def elim!: bind_SomeE split: if_splits)

lemma getRevalidation_books:
  assumes "getRevalidation net r u w = Some (k, w')"
  shows "w_closed w' = w_closed w \<and> w_open w' = w_open w + (if k = REVALIDATION_INFO_MISSING then 0 else opens net r)"
  using assms
  by (auto simp: getRevalidation_eq Let_def REVALIDATION_INFO_MISSING_def elim!: bind_SomeE
      dest!: connect_books answer_books split: if_splits option.splits sum.splits)

lemma send_cached_books: "send_cached p w = Some w' \<Longrightarrow> w_closed w' = w_closed w \<and> w_open w' = w_open w"
  by (auto simp: send_cached_def elim!: bind_SomeE)

lemmas books = say_books send_cached_books getRevalidation_books forwardRequest_books

lemma serve_decided_books:
  assumes "serve_decided e UID r rq res p w = Some w'"
  shows "w_closed w' = Suc (w_closed w) \<and> w_open w' \<in> {w_open w, w_open w + opens (e_net e) r}"
  using assms
  by (cases res) (auto simp: serve_decided_def elim!: bind_SomeE dest!: books split: if_splits)

lemma serve_parsed_books:
  assumes "serve_parsed e UID r rq w = Some w'"
  shows "w_closed w' = Suc (w_closed w) \<and> w_open w' \<in> {w_open w, w_open w + opens (e_net e) r}"
  using assms by (auto simp: serve_parsed_def elim!: bind_SomeE dest!: serve_decided_books)

lemma receive_books:
  "receive e t n w = Some (Inl w') \<Longrightarrow> w_closed w' = Suc (w_closed w) \<and> w_open w' = w_open w"
  "receive e t n w = Some (Inr (UID, r, rq, w')) \<Longrightarrow> w_closed w' = w_closed w \<and> w_open w' = w_open w"
  by (auto simp: receive_def Let_def exitRequest_def elim!: bind_SomeE split: sum.splits option.splits)

lemma serve_request_books:
  assumes "serve_request e t n w = Some w'"
  shows "w_closed w' = Suc (w_closed w) \<and> w_open w \<le> w_open w'"
  using assms
  by (auto simp: serve_request_def elim!: bind_SomeE dest!: serve_parsed_books receive_books
      split: sum.splits)

section \<open>Properties\<close>

text \<open>C20: whatever the client sends, the cache holds and the network does: a request that is served without
  a fault ends with its connection closed exactly once.\<close>

theorem connection_closed_once:
  assumes "serve_request e t n w = Some w'"
  shows "w_closed w' = w_closed w + 1 \<and> w_open w \<le> w_open w'"
  using serve_request_books [OF assms] by simp

lemma sample_served_at:
  assumes "UID = show_int 1 @ show_int n" "UID \<in> {''17'', ''10''}"
  obtains w where "serve_request (sample_env (sample_net (page_text 60 ''hello'')) 1700000000) 1 n
      (sample_world (sample_client ''/'' ''a'')) = Some w" "w_open w = 1"
proof -
  let ?m = "page_text 60 ''hello''" and ?w = "sample_world (sample_client ''/'' ''a'')"
  have "asks (sample_env (sample_net ?m) 1700000000) UID ''/'' ''a'' [] (w_client ?w)"
    using sample_asks assms(2) by (auto simp: sample_world_def)
  moreover have "must_fetch (sample_env (sample_net ?m) 1700000000) (w_cache ?w) ''/''"
    by (rule must_fetch_miss [OF _ cache_key_root]) (simp_all add: sample_world_def cache_ok_empty view_empty)
  moreover have "answers 10000 (e_net (sample_env (sample_net ?m) 1700000000)) (call_info ''GET'' ''/'' ''a'') ?m"
    by (simp add: sample_env_def sample_answers page_text_nonempty)
  moreover have "w_open ?w = 0" by (simp add: sample_world_def)
  ultimately show ?thesis
    using serve_page [OF _ assms(1), of _ "''/''" "''a''" "[]" ?w 60 "''hello''"]
      sample_page_fits that by fastforce
qed

lemma sample_served:
  obtains w where "serve_request (sample_env (sample_net (page_text 60 ''hello'')) 1700000000) 1 7
      (sample_world (sample_client ''/'' ''a'')) = Some w" "w_open w = 1"
  using sample_served_at [OF sample_UID(1) [symmetric]] by blast

theorem connection_closed_once_witness:
  "\<exists>w. serve_request (sample_env (sample_net (page_text 60 ''hello'')) 1700000000) 1 7
      (sample_world (sample_client ''/'' ''a'')) = Some w \<and> w_closed w = 1"
proof -
  obtain w where w: "serve_request (sample_env (sample_net (page_text 60 ''hello'')) 1700000000) 1 7
      (sample_world (sample_client ''/'' ''a'')) = Some w" by (rule sample_served)
  from connection_closed_once [OF this] w show ?thesis by (simp add: sample_world_def)
qed

text \<open>C36: \<open>forwardRequest\<close> returns with the socket to the server still open: each forwarded request costs
  the process one descriptor, also when the connection to the server fails.\<close>

theorem forwarding_socket_leaks:
  assumes "forwardRequest net now junk r rq UID w = Some w'"
  shows "w_open w' = w_open w + opens net r"
  using forwardRequest_books [OF assms] by simp

theorem forwarding_socket_leaks_witness:
  "\<exists>w. forwardRequest (\<lambda>_ _. ConnectError) 0 NUL (call_info ''GET'' ''/'' ''a'') [NUL] ''7''
      (sample_world (sample_client ''/'' ''a'')) = Some w \<and> w_open w = 1"
proof -
  have o: "opens (\<lambda>_ _. ConnectError) (call_info ''GET'' ''/'' ''a'') = 1" by (simp add: opens_def)
  obtain w where w: "forwardRequest (\<lambda>_ _. ConnectError) 0 NUL (call_info ''GET'' ''/'' ''a'') [NUL] ''7''
      (sample_world (sample_client ''/'' ''a'')) = Some w"
    by (simp add: forwardRequest_eq connectToServer_def call_info_def method_type_def request_line_def
        say_Some MAX_LOG_LINE_LEN_def)
  from forwarding_socket_leaks [OF this] w o show ?thesis by (simp add: sample_world_def)
qed

end
