(* ===== verification/Failures.thy ===== *)
theory Failures
  imports Worker_Props
begin

text \<open>What happens to a request whose server cannot be found, or closes without an answer.\<close>

lemma lookup_faults:
  assumes "net (host r) (if isHttps r \<noteq> 0 then ''https'' else ''http'') = LookupError"
  shows "forwardRequest net now junk r rq UID w = None"
  using assms by (cases "say (UID @ '': Requesting '' @ reqLine r @ '' from '' @ host r) w")
    (auto simp: forwardRequest_eq connectToServer_def Let_def)

text \<open>A response of at most four bytes is what \<open>parseResponse\<close> calls empty.\<close>

lemma parse_short:
  assumes "NUL \<notin> set d" "length d \<le> 4"
  shows "parseResponse now (d @ NUL # post) c i a h UID =
    Some \<lparr>rr_ret = -1, rr_buf = d @ NUL # post, rr_chunked = c, rr_info = i, rr_canCache = a, rr_log = []\<rparr>"
  using strlen_at [OF assms(1), of "[]" post] assms(2) by (simp add: parseResponse_def)

lemma forward_response_short:
  assumes "NUL \<notin> set d" "length d \<le> 4" "wr (w_client w) = []" "length UID + length (host r) < 150"
  shows "\<exists>w'. forward_response now UID r rq srv (d @ NUL # post) n w = Some w' \<and>
    sent (w_client w') = sent (w_client w) @ take 24 BAD_REQUEST_RESPONSE \<and> w_cache w' = w_cache w"
proof -
  have "length NOT_FOUND = 24" by (simp add: NOT_FOUND_def)
  moreover have "24 \<le> length BAD_REQUEST_RESPONSE" by (simp add: BAD_REQUEST_RESPONSE_def)
  ultimately have "writeall (w_client w) (BAD_REQUEST_RESPONSE @ [NUL, NUL]) (length NOT_FOUND) =
      Some (0, 24, (w_client w)\<lparr>sent := sent (w_client w) @ take 24 BAD_REQUEST_RESPONSE\<rparr>)"
    using writeall_accepts [OF assms(3), of 24 "BAD_REQUEST_RESPONSE @ [NUL, NUL]"] by simp
  then show ?thesis using parse_short [OF assms(1,2)] assms(4)
    by (simp add: forward_response_eq say_Some MAX_LOG_LINE_LEN_def exitRequest_def)
qed

section \<open>Properties\<close>

text \<open>C35: a request for a host name that cannot be resolved does not end in an error response: the worker
  hands an uninitialised pointer to \<open>freeaddrinfo\<close>, so any client can bring the proxy down.\<close>

theorem unresolvable_host_faults:
  assumes "asks e UID u h hs (w_client w)" "UID = show_int t @ show_int n"
    and "must_fetch e (w_cache w) u"
    and "e_net e h ''http'' = LookupError"
  shows "serve_request e t n w = None"
  using serve_to_forward [OF assms(1-3)] lookup_faults [of "e_net e" "call_info ''GET'' u h"] assms(4)
  by (auto simp: call_info_def method_type_def)

theorem unresolvable_host_faults_witness:
  "serve_request (sample_env (\<lambda>_ _. LookupError) 1700000000) 1 7 (sample_world (sample_client ''/'' ''a'')) = None"
proof -
  let ?e = "sample_env (\<lambda>_ _. LookupError) 1700000000" and ?w = "sample_world (sample_client ''/'' ''a'')"
  have "asks ?e ''17'' ''/'' ''a'' [] (w_client ?w)" "must_fetch ?e (w_cache ?w) ''/''"
    by (simp_all add: sample_world_def sample_asks must_fetch_miss cache_key_root cache_ok_empty view_empty)
  moreover have "e_net ?e ''a'' ''http'' = LookupError" by (simp add: sample_env_def)
  ultimately show ?thesis
    by (rule unresolvable_host_faults [OF _ sample_UID(1) [symmetric]])
qed

text \<open>When the server closes the connection after at most four bytes, the client gets the beginning
  of the 400 response, without the end of its status line: its length is taken from the 404 response.
  The answer is not cached.\<close>

theorem silent_server_reply_cut:
  assumes "asks e UID u h hs (w_client w)" "UID = show_int t @ show_int n"
    and "must_fetch e (w_cache w) u"
    and "answers 10000 (e_net e) (call_info ''GET'' u h) d" "NUL \<notin> set d" "length d \<le> 4"
  shows "\<exists>w'. serve_request e t n w = Some w' \<and>
    sent (w_client w') = sent (w_client w) @ ''HTTP/1.1 400 Bad Request'' \<and> w_cache w' = w_cache w"
proof -
  let ?r = "call_info ''GET'' u h"
  obtain w1 k where f: "serve_request e t n w = forwardRequest (e_net e) (e_now e) (e_junk e) ?r
      (call_text ''GET'' u h hs @ NUL # NUL # replicate k NUL) UID w1"
    and w1: "w_cache w1 = w_cache w" "wr (w_client w1) = []" "sent (w_client w1) = sent (w_client w)"
    using serve_to_forward [OF assms(1-3)] by blast
  have n: "NUL \<notin> set (call_text ''GET'' u h hs)" using assms(1) by (intro call_text_NUL) (simp add: asks_def)
  have l: "length UID + length (reqLine ?r) + length (host ?r) < 150" "reqType ?r \<noteq> 1"
    using assms(1) by (simp_all add: asks_def env_ok_def call_info_def method_type_def)
  have d: "length d < RESPONSE_HEADER_SIZE - BUFSIZE" using assms(6) by (simp add: RESPONSE_HEADER_SIZE_def BUFSIZE_def)
  obtain srv w2 j where w2: "serve_request e t n w = forward_response (e_now e) UID ?r
      (call_text ''GET'' u h hs @ NUL # NUL # replicate k NUL) srv
      (d @ NUL # NUL # NUL # replicate j NUL @ [e_junk e]) (length d) w2"
    "w_cache w2 = w_cache w1" "w_client w2 = w_client w1"
    using forward_reads [OF l(1) d assms(4) l(2) refl n, of "e_now e" "e_junk e" "NUL # replicate k NUL" w1] f by auto
  have "wr (w_client w2) = []" "length UID + length (host ?r) < 150" using w1 w2 l by simp_all
  from forward_response_short [OF assms(5,6) this] w1 w2 show ?thesis
    by (simp add: BAD_REQUEST_RESPONSE_def)
qed

theorem silent_server_reply_cut_witness:
  "\<exists>w. serve_request (sample_env (sample_net ''no'') 1700000000) 1 7 (sample_world (sample_client ''/'' ''a'')) = Some w \<and>
    sent (w_client w) = ''HTTP/1.1 400 Bad Request''"
proof -
  let ?e = "sample_env (sample_net ''no'') 1700000000" and ?w = "sample_world (sample_client ''/'' ''a'')"
  have "asks ?e ''17'' ''/'' ''a'' [] (w_client ?w)" "must_fetch ?e (w_cache ?w) ''/''"
    by (simp_all add: sample_world_def sample_asks must_fetch_miss cache_key_root cache_ok_empty view_empty)
  moreover have "answers 10000 (e_net ?e) (call_info ''GET'' ''/'' ''a'') ''no''"
    by (simp add: sample_env_def sample_answers)
  moreover have "sent (w_client ?w) = []" by (simp add: sample_world_def sample_client_def)
  ultimately show ?thesis
    using silent_server_reply_cut [OF _ sample_UID(1) [symmetric], of ?e "''/''" "''a''" "[]" ?w "''no''"]
    by auto
qed

end
