(* ===== verification/Fetching.thy ===== *)
theory Fetching
  imports Worker_Props
begin

text \<open>
  Pages that must not be shared: what the server forbids to cache, no later client gets from the proxy.
\<close>

text \<open>The headers of a response that forbid caching, or do not allow it.\<close>

definition forbids :: "string list \<Rightarrow> bool" where
  "forbids hs \<longleftrightarrow> (\<forall>l\<in>set hs. \<not> sets_policy l) \<or>
     (\<exists>hs1 ps hs2. hs = hs1 @ header ''Cache-Control'' (policy_list ps) # hs2 \<and> ps \<noteq> [] \<and>
       (\<forall>l\<in>set hs2. \<not> sets_policy l) \<and> (\<forall>p\<in>set ps. policy_word p \<and> modest_policy p) \<and>
       (\<exists>p\<in>set ps. strcaseeq p ''no-store'' \<or> p = ''private''))"

lemma forbids_caching:
  assumes "resp_steps now (resp_begin c i k) hs = Some rs" "clock_ok now" "forbids hs"
  shows "\<not> (rs_hasCC rs \<and> rs_canCache rs \<noteq> 0)"
  using assms(3) unfolding forbids_def
proof
  assume "\<forall>l\<in>set hs. \<not> sets_policy l"
  from resp_steps_keep(2) [OF assms(1) this] show ?thesis by (simp add: resp_begin_def)
next
  assume "\<exists>hs1 ps hs2. hs = hs1 @ header ''Cache-Control'' (policy_list ps) # hs2 \<and> ps \<noteq> [] \<and>
       (\<forall>l\<in>set hs2. \<not> sets_policy l) \<and> (\<forall>p\<in>set ps. policy_word p \<and> modest_policy p) \<and>
       (\<exists>p\<in>set ps. strcaseeq p ''no-store'' \<or> p = ''private'')"
  then obtain hs1 ps hs2 where h: "hs = hs1 @ header ''Cache-Control'' (policy_list ps) # hs2" "ps \<noteq> []"
    "\<forall>l\<in>set hs2. \<not> sets_policy l" "\<forall>p\<in>set ps. policy_word p \<and> modest_policy p"
    "\<exists>p\<in>set ps. strcaseeq p ''no-store'' \<or> p = ''private''" by blast
  from last_policies_decide(2) [OF assms(1) [unfolded h(1)] assms(2) h(3,2,4)] h(5) show ?thesis by simp
qed

text \<open>A server that answers a client's request with a complete response.\<close>

definition responds :: "env \<Rightarrow> string \<Rightarrow> string \<Rightarrow> string \<Rightarrow> string list \<Rightarrow> string \<Rightarrow> bool" where
  "responds e UID u h hs m \<longleftrightarrow> (\<exists>s1 body rs. m = message_text (s1 @ [CR]) hs body \<and>
     complete_response (e_now e) UID h s1 hs body rs \<and> length UID + length s1 < 150 \<and>
     answers 10000 (e_net e) (call_info ''GET'' u h) m)"

lemma serve_response:
  assumes "asks e UID u h hs (w_client w)" "UID = show_int t @ show_int n" "must_fetch e (w_cache w) u"
    and "responds e UID u h hs' m"
  shows "\<exists>w' srv. serve_request e t n w = Some w' \<and> sent (w_client w') = sent (w_client w) @ m \<and>
    w_server w' = Some srv \<and> sent srv = call_text ''GET'' u h hs \<and> (forbids hs' \<longrightarrow> w_cache w' = w_cache w)"
proof -
  obtain s1 body rs where r: "m = message_text (s1 @ [CR]) hs' body"
    "complete_response (e_now e) UID h s1 hs' body rs" "length UID + length s1 < 150"
    "answers 10000 (e_net e) (call_info ''GET'' u h) m" using assms(4) unfolding responds_def by blast
  have "resp_steps (e_now e) (resp_begin (-1) no_info 1) hs' = Some rs" "clock_ok (e_now e)"
    using r(2) assms(1) by (simp_all add: complete_response_def asks_def env_ok_def)
  note forbids_caching [OF this]
  with serve_fetches [OF assms(1-3) r(2,3,4,1)] show ?thesis by (auto split: if_splits)
qed

text \<open>C5: a response of fewer than 7168 bytes, without zero bytes and with nothing of its body left to read
  when the headers are parsed, that has no \<open>Cache-Control\<close> header, or one whose policies are separated by
  a comma and a blank and include \<open>no-store\<close> (in any case) or \<open>private\<close> (in lower case), goes to the
  client that asked for it, unchanged, and leaves the cache as it is. The next client that
  asks for the URI gets nothing of it: its own request goes to the server, and it gets what the server
  then answers. (Without the blank a policy loses its first letter and is not recognised.)\<close>

theorem forbidden_page_not_shared:
  assumes "asks e1 UID1 u h hs (w_client w)" "UID1 = show_int t1 @ show_int n1" "must_fetch e1 (w_cache w) u"
    and "responds e1 UID1 u h rhs1 m1" "forbids rhs1"
    and "asks e2 UID2 u h2 hs2 c" "UID2 = show_int t2 @ show_int n2" "must_fetch e2 (w_cache w) u"
    and "responds e2 UID2 u h2 rhs2 m2"
  shows "\<exists>w1 w2 srv. serve_request e1 t1 n1 w = Some w1 \<and> sent (w_client w1) = sent (w_client w) @ m1 \<and>
    w_cache w1 = w_cache w \<and>
    serve_request e2 t2 n2 (w1\<lparr>w_client := c\<rparr>) = Some w2 \<and> sent (w_client w2) = sent c @ m2 \<and>
    w_server w2 = Some srv \<and> sent srv = call_text ''GET'' u h2 hs2"
proof -
  obtain w1 where w1: "serve_request e1 t1 n1 w = Some w1" "sent (w_client w1) = sent (w_client w) @ m1"
    "w_cache w1 = w_cache w" using serve_response [OF assms(1-4)] assms(5) by blast
  have "asks e2 UID2 u h2 hs2 (w_client (w1\<lparr>w_client := c\<rparr>))" "must_fetch e2 (w_cache (w1\<lparr>w_client := c\<rparr>)) u"
    using assms(6,8) w1(3) by simp_all
  from serve_response [OF this(1) assms(7) this(2) assms(9)] w1 show ?thesis by auto
qed

text \<open>Two private pages, for two clients.\<close>

definition private_headers :: "string list" where
  "private_headers = [header ''Cache-Control'' (policy_list [''private''])]"

definition private_page :: "string \<Rightarrow> string" where
  "private_page body = message_text (''HTTP/1.1 200 OK'' @ [CR]) private_headers body"

lemma private_word: "policy_word ''private'' \<and> modest_policy ''private''"
  by (simp add: policy_word_def plain_def modest_policy_def strncaseeq_def tolower_def)

lemma private_forbids: "forbids private_headers"
  unfolding forbids_def private_headers_def using private_word
  by (intro disjI2 exI [of _ "[]"] exI [of _ "[''private'']"]) simp

lemma private_responds:
  assumes "body \<in> {''yours'', ''mine''}" "UID \<in> {''17'', ''23''}" "h \<in> {''a'', ''b''}"
  shows "responds (sample_env (sample_net (private_page body)) 1700000000) UID ''/'' h private_headers (private_page body)"
proof -
  let ?m = "message_text (''HTTP/1.1 200 OK'' @ [CR]) private_headers body"
  have g: "\<forall>l\<in>set private_headers. good_resp_header l \<and> modest_header l"
    using cache_control_header(1) [of "[''private'']"] cache_control_modest [of "[''private'']"] private_word
    by (simp add: private_headers_def)
  have n: "\<forall>l\<in>set private_headers. \<not> sets_length l"
    by (simp add: private_headers_def sets_length_def names_def header_parts strcaseeq_def tolower_def)
  obtain rs where rs: "resp_steps 1700000000 (resp_begin (-1) no_info 1) private_headers = Some rs"
    using resp_steps_total [of 1700000000 private_headers] g by (auto simp: clock_ok_def)
  have "rs_length rs = 0" "rs_chunked rs = -1" using resp_steps_keep(1) [OF rs n] by (simp_all add: resp_begin_def)
  moreover have "response_ok UID h (''HTTP/1.1 200 OK'' @ [CR]) private_headers body"
    using g assms by (auto simp: response_ok_def good_response_def log_response_def MAX_LOG_LINE_LEN_def)
  moreover have "length ?m < RESPONSE_HEADER_SIZE - BUFSIZE" "?m \<noteq> []"
    using assms(1) by (auto simp: message_text_def private_headers_def header_def unlines_def RESPONSE_HEADER_SIZE_def BUFSIZE_def)
  ultimately have "complete_response 1700000000 UID h ''HTTP/1.1 200 OK'' private_headers body rs" "?m \<noteq> []"
    using rs assms(1) by (auto simp: complete_response_def body_left_def to_int32_def)
  then show ?thesis unfolding responds_def private_page_def using assms(2)
    by (intro exI [of _ "''HTTP/1.1 200 OK''"] exI [of _ body] exI [of _ rs]) (auto simp: sample_env_def sample_answers)
qed

theorem forbidden_page_not_shared_witness:
  "\<exists>w1 w2. serve_request (sample_env (sample_net (private_page ''yours'')) 1700000000) 1 7
      (sample_world (sample_client ''/'' ''a'')) = Some w1 \<and> sent (w_client w1) = private_page ''yours'' \<and>
    serve_request (sample_env (sample_net (private_page ''mine'')) 1700000000) 2 3
      (w1\<lparr>w_client := sample_client ''/'' ''b''\<rparr>) = Some w2 \<and> sent (w_client w2) = private_page ''mine''"
proof -
  let ?e1 = "sample_env (sample_net (private_page ''yours'')) 1700000000"
  let ?e2 = "sample_env (sample_net (private_page ''mine'')) 1700000000" and ?w = "sample_world (sample_client ''/'' ''a'')"
  have a: "asks ?e1 ''17'' ''/'' ''a'' [] (w_client ?w)" "asks ?e2 ''23'' ''/'' ''b'' [] (sample_client ''/'' ''b'')"
    using sample_asks by (simp_all add: sample_world_def)
  have m: "must_fetch e (w_cache ?w) ''/''" for e
    by (rule must_fetch_miss [OF _ cache_key_root]) (simp_all add: sample_world_def cache_ok_empty view_empty)
  have r: "responds ?e1 ''17'' ''/'' ''a'' private_headers (private_page ''yours'')"
    "responds ?e2 ''23'' ''/'' ''b'' private_headers (private_page ''mine'')" by (rule private_responds; simp)+
  from forbidden_page_not_shared [OF a(1) sample_UID(1) [symmetric] m r(1) private_forbids a(2) sample_UID(2) [symmetric] m r(2)]
  show ?thesis by (auto simp: sample_world_def sample_client_def)
qed

end
