(* ===== verification/Revalidate_Spec.thy ===== *)
theory Revalidate_Spec
  imports Failures
begin

text \<open>The lemmas of \<open>getRevalidation\<close>: what it asks the server for, and how it replaces a cached entry.\<close>

section \<open>Changing a cached entry in place\<close>

lemma fresh_str:
  assumes r: "rep h bs" "0 < brk h" and m: "malloc_str h s = (p, h')"
  shows "rep h' bs" "0 < brk h'" "cache_view h' = cache_view h" "strs h' p = Some s"
    "\<forall>b\<in>cells bs. p \<notin> set (owned h' b)"
    "\<And>b. b \<in> cells bs \<Longrightarrow> nodes h' b = nodes h b \<and> keystr h' b = keystr h b \<and> entry_of h' b = entry_of h b \<and>
      owned h' b = owned h b"
    "\<And>b. b \<in> cells bs \<Longrightarrow> agree h h' (set (owned h b))"
proof -
  have p: "p = brk h" "h' = h\<lparr>strs := (strs h)(brk h \<mapsto> s), brk := brk h + 1\<rparr>"
    using m by (auto simp: malloc_str_def)
  have "same_cache bs h h'" using same_cache_malloc(1) [OF same_cache_refl [OF r], of s] m by simp
  then show "rep h' bs" "0 < brk h'" "cache_view h' = cache_view h" by (auto simp: same_cache_def)
  show "strs h' p = Some s" by (simp add: p)
  have low: "q < brk h" if "b \<in> cells bs" "q \<in> set (owned h b)" for b q
    using live_owned [OF r(1) that] rep_live [OF r(1)] by blast
  show agr: "agree h h' (set (owned h b))" if "b \<in> cells bs" for b
    using low [OF that] by (auto simp: agree_def p)
  note cong = node_cong [OF agr]
  show "\<And>b. b \<in> cells bs \<Longrightarrow> nodes h' b = nodes h b \<and> keystr h' b = keystr h b \<and> entry_of h' b = entry_of h b \<and>
      owned h' b = owned h b" using cong by blast
  show "\<forall>b\<in>cells bs. p \<notin> set (owned h' b)" using low cong(4) p(1) by fastforce
qed

lemma rep_brk: "rep h bs \<Longrightarrow> a \<in> cells bs \<Longrightarrow> 0 < brk h"
  using live_owned [of h bs a a] rep_live [of h bs a] by (fastforce simp: owned_def split: option.splits)

text \<open>The value of a node is replaced by a new string.\<close>

lemma replace_value:
  assumes r: "rep h bs" and a: "a \<in> cells bs" "keystr h a = Some k" "entry_of h a = Some e" "nodes h a = Some n"
    and m: "malloc_str h v = (p, h1)"
  shows "\<exists>h'. put h1 (nkey n) p (nhost n) (ninfo n) = Some h' \<and> cache_ok h' \<and>
    cache_view h' = (cache_view h)(k \<mapsto> e\<lparr>e_val := v\<rparr>) \<and> nodes_kept k h h'"
proof -
  note f = fresh_str [OF r rep_brk [OF r a(1)] m]
  obtain h' where h': "put h1 (nkey n) p (nhost n) (ninfo n) = Some h'" "rep h' bs"
    "cache_view h' = (cache_view h1)(k \<mapsto> e\<lparr>e_val := v\<rparr>)"
    "\<And>b. b \<in> cells bs \<Longrightarrow> b \<noteq> a \<Longrightarrow> agree h1 h' (set (owned h1 b))"
    using put_alias [OF f(1) a(1) _ _ f(4,5)] f(6) [OF a(1)] a by metis
  have "nodes_kept k h1 h'"
    by (rule nodes_kept_replace [OF f(1) h'(2) a(1)]) (use h'(3,4) f(6) [OF a(1)] a(2) in auto)
  moreover have "nodes_kept k h h1" by (rule nodes_kept_agree [OF r f(1)]) (simp_all add: f(7))
  ultimately have "nodes_kept k h h'" using nodes_kept_trans by blast
  then show ?thesis using h'(1-3) f(3) rep_brk [OF h'(2) a(1)] by (auto simp: cache_ok_def)
qed

text \<open>The tag of a node is replaced by a new string, and the old one freed.\<close>

lemma replace_tag:
  assumes r: "rep h bs" and a: "a \<in> cells bs" "keystr h a = Some k" "entry_of h a = Some e" "nodes h a = Some n"
    and i: "infos h (ninfo n) = Some i" and m: "free_str h (eTag i) = Some h1" "malloc_str h1 t = (p, h2)"
    and h': "h' = h2\<lparr>infos := (infos h2)(ninfo n \<mapsto> i\<lparr>eTag := p\<rparr>)\<rparr>"
  shows "rep h' bs" "keystr h' a = Some k" "entry_of h' a = Some (e\<lparr>e_etag := Some t\<rparr>)" "nodes h' a = Some n"
    "cache_view h' = (cache_view h)(k \<mapsto> e\<lparr>e_etag := Some t\<rparr>)" "nodes_kept k h h'"
proof -
  let ?q = "eTag i" and ?p = "brk h"
  have hh: "p = ?p" "brk h' = brk h + 1" "MAP h' = MAP h" "nodes h' = nodes h" "tms h' = tms h"
    "infos h' = (infos h)(ninfo n \<mapsto> i\<lparr>eTag := ?p\<rparr>)"
    "strs h' = (\<lambda>x. if x = ?p then Some t else if x = ?q \<and> ?q \<noteq> 0 then None else strs h x)"
    using m by (auto simp: h' free_str_def malloc_str_def check_def split: if_splits)
  have low: "x < ?p" if "b \<in> cells bs" "x \<in> set (owned h b)" for b x
    using live_owned [OF r that] rep_live [OF r] by blast
  have ow: "owned h a = a # nkey n # nval n # nhost n # ninfo n # filter (\<lambda>p. p \<noteq> 0) [?q, expiryTime i]"
    by (simp add: owned_def a(4) info_ptrs_def i)
  have d: "distinct (owned h a)" by (rule rep_distinct [OF r a(1)])
  have lows: "nkey n < ?p" "nval n < ?p" "nhost n < ?p" "ninfo n < ?p" "expiryTime i \<noteq> 0 \<Longrightarrow> expiryTime i < ?p"
    using low [OF a(1)] by (auto simp: ow)
  have pos: "0 < ?p" by (rule rep_brk [OF r a(1)])
  have ow': "owned h' a = a # nkey n # nval n # nhost n # ninfo n # ?p # filter (\<lambda>p. p \<noteq> 0) [expiryTime i]"
    using pos by (simp add: owned_def a(4) info_ptrs_def hh)
  have frame: "agree h h' (set (owned h b))" if "b \<in> cells bs" "b \<noteq> a" for b
  proof -
    have "set (owned h a) \<inter> set (owned h b) = {}" using rep_disjoint [OF r a(1) that(1)] that(2) by blast
    then have ne: "x \<noteq> ninfo n \<and> x \<noteq> ?p \<and> (x = ?q \<longrightarrow> ?q = 0)" if "x \<in> set (owned h b)" for x
      using that low [OF \<open>b \<in> cells bs\<close> that] by (auto simp: ow split: if_splits)
    have "nodes h' x = nodes h x \<and> strs h' x = strs h x \<and> infos h' x = infos h x \<and> tms h' x = tms h x"
      if "x \<in> set (owned h b)" for x
      using ne [OF that] by (auto simp: hh)
    then show ?thesis by (simp add: agree_def)
  qed
  have st: "strs h' x = strs h x" if "x < ?p" "x \<in> {nkey n, nval n, nhost n}" for x
    using that d by (auto simp: hh ow split: if_splits)
  show k: "keystr h' a = Some k" using a(2,4) st lows by (simp add: keystr_def hh(4))
  show e': "entry_of h' a = Some (e\<lparr>e_etag := Some t\<rparr>)"
    using a(3,4) st lows i pos by (auto simp: entry_of_def contents_def opt_ptr_def hh(4,5,6) hh(7) elim!: bind_SomeE)
  show "nodes h' a = Some n" by (simp add: hh a(4))
  have dist: "distinct (owned h' a)" using d lows low [OF a(1), of a] by (auto simp: ow ow' split: if_splits)
  have disj: "set (owned h' a) \<inter> set (owned h b) = {}" if "b \<in> cells bs" "b \<noteq> a" for b
    using rep_disjoint [OF r a(1) that(1)] that low [OF that(1)] by (auto simp: ow ow' split: if_splits)
  have lv: "0 < x \<and> x < brk h'" if "live h' x" for x
    using that rep_live [OF r, of x] i pos
    by (cases "x = ?p"; cases "x = ninfo n") (auto simp: live_def hh split: if_splits)
  have lk: "map_option nnext (nodes h' a) = map_option nnext (nodes h a)" by (simp add: hh)
  show rep': "rep h' bs" and view': "cache_view h' = (cache_view h)(k \<mapsto> e\<lparr>e_etag := Some t\<rparr>)"
    by (rule rep_replace [OF r a(1) frame hh(3) lk k a(2) e' dist disj lv]; assumption)+
  show "nodes_kept k h h'" by (rule nodes_kept_replace [OF r rep' a(1,2) frame]) (simp_all add: view')
qed

lemma set_tag_spec:
  assumes r: "rep h bs" and a: "a \<in> cells bs" "keystr h a = Some k" "entry_of h a = Some e"
  shows "\<exists>h'. set_tag h a nt = Some h' \<and> rep h' bs \<and> keystr h' a = Some k \<and>
    entry_of h' a = Some (e\<lparr>e_etag := (case nt of None \<Rightarrow> e_etag e | Some t \<Rightarrow> Some t)\<rparr>) \<and>
    cache_view h' = (cache_view h)(k \<mapsto> e\<lparr>e_etag := (case nt of None \<Rightarrow> e_etag e | Some t \<Rightarrow> Some t)\<rparr>) \<and> nodes_kept k h h'"
proof (cases nt)
  case None
  have "cache_view h k = Some e" using a view_iff [OF r] by blast
  then show ?thesis using None r a nodes_kept_refl by (simp add: set_tag_def fun_upd_idem)
next
  case (Some t)
  obtain n i where n: "nodes h a = Some n" "infos h (ninfo n) = Some i"
    using a(3) by (auto simp: entry_of_def contents_def elim!: bind_SomeE)
  have "eTag i = 0 \<or> strs h (eTag i) \<noteq> None"
    using a(3) n by (auto simp: entry_of_def contents_def opt_ptr_def elim!: bind_SomeE split: if_splits)
  then have "free_str h (eTag i) \<noteq> None" by (auto simp: free_str_def)
  then obtain h1 where h1: "free_str h (eTag i) = Some h1" by blast
  obtain q h2 where h2: "malloc_str h1 t = (q, h2)" by fastforce
  define h3 where "h3 = h2\<lparr>infos := (infos h2)(ninfo n \<mapsto> i\<lparr>eTag := q\<rparr>)\<rparr>"
  have "set_tag h a nt = Some h3" using n h1 h2 Some by (simp add: set_tag_def h3_def)
  then show ?thesis using replace_tag [OF r a n h1 h2 h3_def] Some by simp
qed

lemma put_back_spec:
  assumes r: "rep h bs" and a: "a \<in> cells bs" "keystr h a = Some k" "entry_of h a = Some e"
  shows "\<exists>h'. put_back h a v = Some h' \<and> cache_ok h' \<and> cache_view h' = (cache_view h)(k \<mapsto> e\<lparr>e_val := v\<rparr>) \<and> nodes_kept k h h'"
proof -
  obtain n where n: "nodes h a = Some n" using a(3) by (auto simp: entry_of_def elim!: bind_SomeE)
  obtain p h1 where m: "malloc_str h v = (p, h1)" by fastforce
  show ?thesis using replace_value [OF r a n m] n m by (simp add: put_back_def)
qed

lemma replace_cached_spec:
  assumes r: "rep h bs" and a: "a \<in> cells bs" "keystr h a = Some k" "entry_of h a = Some e"
  shows "\<exists>h'. replace_cached h a nt v = Some h' \<and> cache_ok h' \<and> cache_view h' = (cache_view h)
    (k \<mapsto> e\<lparr>e_val := v, e_etag := (case nt of None \<Rightarrow> e_etag e | Some t \<Rightarrow> Some t)\<rparr>) \<and> nodes_kept k h h'"
proof -
  let ?e = "e\<lparr>e_etag := (case nt of None \<Rightarrow> e_etag e | Some t \<Rightarrow> Some t)\<rparr>"
  obtain h1 where h1: "set_tag h a nt = Some h1" "rep h1 bs" "keystr h1 a = Some k" "entry_of h1 a = Some ?e"
    "cache_view h1 = (cache_view h)(k \<mapsto> ?e)" "nodes_kept k h h1" using set_tag_spec [OF r a, of nt] by blast
  have "?e\<lparr>e_val := v\<rparr> = e\<lparr>e_val := v, e_etag := (case nt of None \<Rightarrow> e_etag e | Some t \<Rightarrow> Some t)\<rparr>" by simp
  with put_back_spec [OF h1(2) a(1) h1(3,4), of v] show ?thesis
    using h1(1,5) nodes_kept_trans [OF h1(6)] by (auto simp: replace_cached_def)
qed

section \<open>The tag in a response\<close>

text \<open>The reference: what follows the first \<open>ETag\<close> header, up to the end of its line.\<close>

definition tag_of :: "string \<Rightarrow> string option" where
  "tag_of d = map_option (\<lambda>i. takeWhile (\<lambda>c. c \<noteq> CR) (drop (i + length eTagNeedle) d)) (find_sub d eTagNeedle)"

definition tag_line_ends :: "string \<Rightarrow> bool" where
  "tag_line_ends d \<longleftrightarrow> (\<forall>i. find_sub d eTagNeedle = Some i \<longrightarrow> CR \<in> set (drop (i + length eTagNeedle) d))"

lemma find_sub_bound: "find_sub s nd = Some i \<Longrightarrow> i + length nd \<le> length s"
proof (induction s nd arbitrary: i rule: find_sub.induct)
  case (2 c s nd)
  show ?case
  proof (cases "strncaseeq (c # s) nd (length nd)")
    case True
    then have "length (take (length nd) (c # s)) = length nd"
      unfolding strncaseeq_def by (metis length_map take_all order_refl)
    then show ?thesis using True 2(2) by simp
  next
    case False
    then show ?thesis using 2 by auto
  qed
qed (simp split: if_splits)

lemma new_etag_spec:
  assumes n: "NUL \<notin> set d" and t: "tag_line_ends d"
  shows "new_etag (d @ NUL # z) = Some (tag_of d, d @ NUL # z)"
proof (cases "find_sub d eTagNeedle")
  case None
  then show ?thesis using cstr_at [OF n, of "[]" z] by (simp add: new_etag_def tag_of_def)
next
  case (Some i)
  define p where "p = i + length eTagNeedle"
  have "CR \<in> set (drop p d)" using t Some by (simp add: tag_line_ends_def p_def)
  then obtain x r where x: "drop p d = x @ CR # r" "CR \<notin> set x" by (rule split_list_at)
  have d: "take p d @ x @ CR # r = d" "length (take p d) = p"
    using find_sub_bound [OF Some] by (metis append_take_drop_id x(1), simp add: p_def)
  have dv: "take p d @ x @ CR # r @ v = d @ v" for v using arg_cong [OF d(1), of "\<lambda>y. y @ v"] by simp
  have nx: "NUL \<notin> set x" "NUL \<notin> set r" "NUL \<notin> set (x @ CR # r)" using n x(1) set_drop_subset [of p d] by auto
  let ?b = "take p d @ x @ NUL # r @ NUL # z"
  have sep: "strsep (d @ NUL # z) (Some p) CR = Some (Some p, Some (p + length x + 1), ?b)"
    using strsep_hit [OF nx(1) x(2) _ nx(2), of "take p d" z] d(2) dv by simp
  have c: "cstr ?b p = Some x" using cstr_at [OF nx(1), of "take p d" "r @ NUL # z"] d(2) by simp
  have rs: "restore ?b p CR = Some (d @ NUL # z)"
    using restore_at [OF nx(1), of "take p d" "r @ NUL # z" CR] d(2) dv by simp
  have l: "strlen (d @ NUL # z) p = Some (length (x @ CR # r))"
    using strlen_at [OF nx(3), of "take p d" z] d(2) dv by simp
  have tag: "tag_of d = Some x" using x by (simp add: tag_of_def Some p_def [symmetric] takeWhile_split)
  show ?thesis using cstr_at [OF n, of "[]" z] Some sep c rs l
    by (simp add: new_etag_def p_def [symmetric] tag)
qed

end
