(* ===== verification/Revalidate_Props.thy ===== *)
theory Revalidate_Props
  imports Revalidate_Spec
begin

text \<open>Revalidation: a cached response is confirmed by its server, or replaced.\<close>

section \<open>The exchange with the server\<close>


text \<open>The cache holds a response to \<open>u\<close> that is to be revalidated, and its tag.\<close>

definition revalidates :: "env \<Rightarrow> heap \<Rightarrow> string \<Rightarrow> entry \<Rightarrow> string \<Rightarrow> bool" where
  "revalidates e c u en tag \<longleftrightarrow> cache_ok c \<and> cache_key u \<and> cache_view c u = Some en \<and> printable_expiry (Some en) \<and>
     decision (e_now e) (Some en) = REVALIDATE \<and> e_etag en = Some tag \<and>
     length (revalidation_request u tag (e_host en)) < RESPONSE_HEADER_SIZE"

lemma cached_node:
  assumes r: "rep h bs" and k: "cache_key u" and v: "cache_view h u = Some en" "e_etag en = Some tag"
  obtains a n i where "a \<in> cells bs" "keystr h a = Some u" "entry_of h a = Some en" "get h u = Some a" "a \<noteq> 0"
    "nodes h a = Some n" "infos h (ninfo n) = Some i" "eTag i \<noteq> 0" "strs h (eTag i) = Some tag"
    "nhost n \<noteq> 0" "strs h (nhost n) = Some (e_host en)"
  using r k
proof (cases rule: rep_cases)
  case (hit a e)
  then have e: "e = en" using v(1) by simp
  then obtain n i where n: "nodes h a = Some n" "infos h (ninfo n) = Some i" "strs h (nhost n) = Some (e_host en)"
    "eTag i \<noteq> 0" "strs h (eTag i) = Some tag"
    using hit(3) v(2) by (auto simp: entry_of_def contents_def opt_ptr_def elim!: bind_SomeE split: if_splits)
  have "live h (nhost n)" using n(3) by (simp add: live_def)
  then have "nhost n \<noteq> 0" using rep_live [OF r] by auto
  then show ?thesis using that hit n e by blast
qed (use v in simp)

lemma revalidation_asks:
  assumes ok: "cache_ok (w_cache w)" "cache_key u" and v: "cache_view (w_cache w) u = Some en" "e_etag en = Some tag"
    and fit: "length (revalidation_request u tag (e_host en)) < RESPONSE_HEADER_SIZE"
    and net: "connects net r srv" and srv: "delivers 100 (rx srv) d" "length d < RESPONSE_HEADER_SIZE - BUFSIZE"
  shows "\<exists>bs a w1. rep (w_cache w) bs \<and> a \<in> cells bs \<and> keystr (w_cache w) a = Some u \<and>
    entry_of (w_cache w) a = Some en \<and> getRevalidation net r u w =
      revalidation_answer a (srv\<lparr>sent := revalidation_request u tag (e_host en), rx := snd (delivered 100 (rx srv))\<rparr>)
        (d @ replicate (RESPONSE_HEADER_SIZE - length d) NUL) (length d) w1 \<and>
    w_cache w1 = w_cache w \<and> w_client w1 = w_client w \<and>
    (\<exists>s. w_server w1 = Some s \<and> sent s = revalidation_request u tag (e_host en))"
proof -
  let ?req = "revalidation_request u tag (e_host en)"
  obtain bs where r: "rep (w_cache w) bs" using ok(1) by (auto simp: cache_ok_def)
  obtain a n i where n: "a \<in> cells bs" "keystr (w_cache w) a = Some u" "entry_of (w_cache w) a = Some en"
    "get (w_cache w) u = Some a" "a \<noteq> 0" "nodes (w_cache w) a = Some n" "infos (w_cache w) (ninfo n) = Some i"
    "eTag i \<noteq> 0" "strs (w_cache w) (eTag i) = Some tag" "nhost n \<noteq> 0" "strs (w_cache w) (nhost n) = Some (e_host en)"
    by (rule cached_node [OF r ok(2) v])
  have wa: "writeall srv (?req @ [NUL]) (length ?req) = Some (0, length ?req, srv\<lparr>sent := ?req\<rparr>)"
    using writeall_accepts [of srv "length ?req" "?req @ [NUL]"] net by (simp add: connects_def)
  let ?z = "replicate RESPONSE_HEADER_SIZE NUL"
  have rf: "read_first 100 \<lparr>rd_server = rx srv, rd_buf = ?z, rd_total = 0\<rparr> =
      Some (Inr \<lparr>rd_server = snd (delivered 100 (rx srv)),
        rd_buf = d @ replicate (RESPONSE_HEADER_SIZE - length d) NUL, rd_total = length d\<rparr>)"
    using read_first_delivers [OF srv, of ?z "[]"] by simp
  let ?s = "srv\<lparr>sent := ?req, rx := snd (delivered 100 (rx srv))\<rparr>"
  let ?w = "w\<lparr>w_open := w_open w + 1, w_server := Some ?s\<rparr>"
  have "getRevalidation net r u w =
      revalidation_answer a ?s (d @ replicate (RESPONSE_HEADER_SIZE - length d) NUL) (length d) ?w"
    using n(4-) wa rf net fit by (simp add: connects_def getRevalidation_eq connectToServer_def sprintf_def Let_def)
  then show ?thesis using r n(1-3) by (intro exI [of _ bs] exI [of _ a] exI [of _ ?w]) simp
qed

lemma first_part_text:
  assumes "NUL \<notin> set d" "length d < RESPONSE_HEADER_SIZE - BUFSIZE"
  shows "cstr (d @ replicate (RESPONSE_HEADER_SIZE - length d) NUL) 0 = Some d"
proof -
  have "replicate (RESPONSE_HEADER_SIZE - length d) NUL = NUL # replicate (RESPONSE_HEADER_SIZE - length d - 1) NUL"
    using assms(2) by (cases "RESPONSE_HEADER_SIZE - length d") auto
  then show ?thesis using cstr_at [OF assms(1), of "[]" "replicate (RESPONSE_HEADER_SIZE - length d - 1) NUL"] by simp
qed


text \<open>A GET for a cached response that is to be revalidated.\<close>

lemma serve_revalidates:
  assumes c: "asks e UID u h hs (w_client w)" "UID = show_int t @ show_int n"
    and rv: "revalidates e (w_cache w) u en tag"
  shows "\<exists>p k w1. strs (w_cache w) p = Some (e_val en) \<and> w_cache w1 = w_cache w \<and> wr (w_client w1) = [] \<and>
    sent (w_client w1) = sent (w_client w) \<and> serve_request e t n w = do {
      (k', w) \<leftarrow> getRevalidation (e_net e) (call_info ''GET'' u h) u w1;
      if k' = 0 then do { w \<leftarrow> send_cached p w; Some (exitRequest w) }
      else if 0 < k' then Some (exitRequest w)
      else if k' = REVALIDATION_INFO_MISSING
      then forwardRequest (e_net e) (e_now e) (e_junk e) (call_info ''GET'' u h)
        (call_text ''GET'' u h hs @ NUL # NUL # replicate k NUL) UID w
      else Some (exitRequest w) }"
proof -
  let ?r = "call_info ''GET'' u h"
  have env: "env_ok e UID ''GET'' u h" and wr: "wr (w_client w) = []" using c(1) by (simp_all add: asks_def)
  obtain k lg where k: "serve_request e t n w = serve_parsed e UID ?r
      (call_text ''GET'' u h hs @ NUL # NUL # replicate k NUL)
      (w\<lparr>w_client := (w_client w)\<lparr>rx := snd (delivered 10 (rx (w_client w)))\<rparr>, w_logs := w_logs w @ lg\<rparr>)"
    using serve_call [of "''GET''" u h hs w e UID t n] c by (auto simp: asks_def)
  let ?w = "w\<lparr>w_client := (w_client w)\<lparr>rx := snd (delivered 10 (rx (w_client w)))\<rparr>, w_logs := w_logs w @ lg\<rparr>"
  have uid: "length UID \<le> 30" "URI ?r = u" using env by (simp_all add: env_ok_def call_info_def)
  obtain cl where cl: "getCurrentTime (e_now e) = Some cl" using env_clock(1) [OF env] by blast
  obtain p where p: "cacheable (e_zone e) (e_now e) (w_cache w) ?r UID = Some (REVALIDATE, p, [])"
    "strs (w_cache w) p = Some (e_val en)"
    using cacheable_decides [of "w_cache w" ?r, OF _ _ cl _ uid(1), of "e_zone e"] rv uid(2)
    by (auto simp: revalidates_def)
  define w1 where "w1 = ?w\<lparr>w_logs := w_logs ?w @ [UID @ '': in cache, requires validation'']\<rparr>"
  have s: "say (UID @ '': in cache, requires validation'') ?w = Some w1"
    using uid by (simp add: w1_def say_Some MAX_LOG_LINE_LEN_def)
  have "w_cache w1 = w_cache w" "wr (w_client w1) = []" "sent (w_client w1) = sent (w_client w)"
    using wr by (simp_all add: w1_def)
  then show ?thesis using k p s uid(2)
    by (intro exI [of _ p] exI [of _ k] exI [of _ w1]) (simp add: serve_parsed_def serve_decided_def)
qed

section \<open>Properties\<close>

text \<open>C14: when a cached response is to be revalidated, the server is asked with its tag and its host; if it
  says that the response was not modified, the client gets the cached bytes and the cache stays as it is.\<close>

theorem not_modified_served:
  assumes "asks e UID u h hs (w_client w)" "UID = show_int t @ show_int n" "revalidates e (w_cache w) u en tag"
    and "answers 100 (e_net e) (call_info ''GET'' u h) d" "length d < RESPONSE_HEADER_SIZE - BUFSIZE"
    and "NUL \<notin> set d" "strncaseeq d notModified 25"
  shows "\<exists>w' srv. serve_request e t n w = Some w' \<and> sent (w_client w') = sent (w_client w) @ e_val en \<and>
    w_server w' = Some srv \<and> sent srv = revalidation_request u tag (e_host en) \<and> w_cache w' = w_cache w"
proof -
  obtain p k w1 where p: "strs (w_cache w) p = Some (e_val en)" "w_cache w1 = w_cache w" "wr (w_client w1) = []"
    "sent (w_client w1) = sent (w_client w)"
    and f: "serve_request e t n w = do {
      (k', w) \<leftarrow> getRevalidation (e_net e) (call_info ''GET'' u h) u w1;
      if k' = 0 then do { w \<leftarrow> send_cached p w; Some (exitRequest w) }
      else if 0 < k' then Some (exitRequest w)
      else if k' = REVALIDATION_INFO_MISSING
      then forwardRequest (e_net e) (e_now e) (e_junk e) (call_info ''GET'' u h)
        (call_text ''GET'' u h hs @ NUL # NUL # replicate k NUL) UID w
      else Some (exitRequest w) }"
    using serve_revalidates [OF assms(1-3)] by blast
  obtain srv where srv: "connects (e_net e) (call_info ''GET'' u h) srv" "delivers 100 (rx srv) d" using assms(4) by (auto simp: answers_def)
  obtain a s w2 sv where w2: "getRevalidation (e_net e) (call_info ''GET'' u h) u w1 =
      revalidation_answer a sv (d @ replicate (RESPONSE_HEADER_SIZE - length d) NUL) (length d) w2"
    "w_cache w2 = w_cache w1" "w_client w2 = w_client w1" "w_server w2 = Some s"
    "sent s = revalidation_request u tag (e_host en)"
    using revalidation_asks [OF _ _ _ _ _ srv assms(5), of w1 u en tag] assms(3) p(2)
    by (auto simp: revalidates_def)
  have g: "getRevalidation (e_net e) (call_info ''GET'' u h) u w1 = Some (0, w2)"
    using w2(1) first_part_text [OF assms(6,5)] assms(7) by (simp add: revalidation_answer_eq)
  have "send_cached p w2 = Some (w2\<lparr>w_client := (w_client w2)\<lparr>sent := sent (w_client w2) @ e_val en\<rparr>\<rparr>)"
    using p w2 by (intro send_cached_accepts) simp_all
  then show ?thesis using f g p w2 by (simp add: exitRequest_def)
qed

text \<open>A cache that holds a response which is to be revalidated.\<close>

lemma page_cache:
  obtains c where "revalidates (sample_env net 1700000000) c ''/'' page ''t''"
proof -
  obtain c where c: "cache_ok c" "get_entry c ''/'' = Some (Some (merge_entry (cache_view empty_cache ''/'') page))"
    using store_then_get_lookup [OF cache_ok_empty cache_key_root, of page] by blast
  have "cache_view c ''/'' = Some page"
    using get_entry_view [OF c(1) cache_key_root] c(2) by (simp add: view_empty merge_entry_def)
  then have "revalidates (sample_env net 1700000000) c ''/'' page ''t''"
    using c(1) cache_key_root by (simp add: revalidates_def printable_expiry_def page_def decision_def expired_at_def
        sample_env_def revalidation_request_def RESPONSE_HEADER_SIZE_def)
  then show ?thesis by (rule that)
qed

theorem not_modified_served_witness:
  "\<exists>c w. cache_view c ''/'' = Some page \<and>
    serve_request (sample_env (sample_net notModified) 1700000000) 1 7
      ((sample_world (sample_client ''/'' ''a''))\<lparr>w_cache := c\<rparr>) = Some w \<and>
    sent (w_client w) = ''HTTP/1.1 200 OK'' \<and> w_cache w = c"
proof -
  let ?e = "sample_env (sample_net notModified) 1700000000"
  obtain c where c: "revalidates ?e c ''/'' page ''t''" by (rule page_cache)
  let ?w = "(sample_world (sample_client ''/'' ''a''))\<lparr>w_cache := c\<rparr>"
  have "asks ?e ''17'' ''/'' ''a'' [] (w_client ?w)" "revalidates ?e (w_cache ?w) ''/'' page ''t''"
    using c by (simp_all add: sample_world_def sample_asks)
  moreover have "sent (w_client ?w) = []" by (simp add: sample_world_def sample_client_def)
  moreover have "answers 100 (e_net ?e) (call_info ''GET'' ''/'' ''a'') notModified"
    "length notModified < RESPONSE_HEADER_SIZE - BUFSIZE" "NUL \<notin> set notModified" "strncaseeq notModified notModified 25"
    by (simp_all add: sample_env_def sample_answers notModified_def RESPONSE_HEADER_SIZE_def BUFSIZE_def strncaseeq_def)
  ultimately have "\<exists>w. serve_request ?e 1 7 ?w = Some w \<and> sent (w_client w) = e_val page \<and> w_cache w = c"
    using not_modified_served [OF _ sample_UID(1) [symmetric], of ?e "''/''" "''a''" "[]" ?w page "''t''" notModified]
    by auto
  moreover have "cache_view c ''/'' = Some page" using c by (simp add: revalidates_def)
  ultimately show ?thesis by (auto simp: page_def)
qed





end
