(* ===== verification/Tunnel_Props.thy ===== *)
theory Tunnel_Props
  imports Worker_Props "HOL-Library.Sublist"
begin

text \<open>The tunnel of a CONNECT request.\<close>

section \<open>One round\<close>

text \<open>
  The client has sent \<open>cs\<close> and the server \<open>ss\<close>; \<open>A\<close> was relayed to the server, \<open>B\<close> to the client. What
  was read from the client last is relayed in the next round.
\<close>

definition relaying :: "string \<Rightarrow> string \<Rightarrow> string \<Rightarrow> string \<Rightarrow> tunnel \<Rightarrow> string \<Rightarrow> string \<Rightarrow> bool" where
  "relaying cs ss c0 s0 t A B \<longleftrightarrow> wr (tn_client t) = [] \<and> wr (tn_server t) = [] \<and>
     ReadErr \<notin> set (rx (tn_client t)) \<and> ReadErr \<notin> set (rx (tn_server t)) \<and>
     sent (tn_server t) = s0 @ A \<and> sent (tn_client t) = c0 @ B \<and>
     cs = A @ (if tn_canWrite t then tn_request t else []) @ arrives (rx (tn_client t)) \<and>
     ss = B @ arrives (rx (tn_server t))"

text \<open>The end: one of them has closed its connection, and all that it had sent was relayed.\<close>

definition relayed :: "string \<Rightarrow> string \<Rightarrow> string \<Rightarrow> string \<Rightarrow> tunnel \<Rightarrow> bool" where
  "relayed cs ss c0 s0 t \<longleftrightarrow> (\<exists>A B. sent (tn_server t) = s0 @ A \<and> sent (tn_client t) = c0 @ B \<and>
     prefix A cs \<and> prefix B ss \<and> (A = cs \<or> B = ss))"

lemma swrite_all: "wr c = [] \<Longrightarrow> swrite c d = (Some (length d), c\<lparr>sent := sent c @ d\<rparr>)"
  by (simp add: swrite_def)

lemma relay_to_server_relays:
  assumes "relaying cs ss c0 s0 t A B"
  obtains t' A' where "relay_to_server t = Inr t'" "relaying cs ss c0 s0 (t'\<lparr>tn_canWrite := False\<rparr>) A' B"
    "tn_canWrite t' = tn_canWrite t"
proof (cases "tn_canWrite t")
  case True
  let ?t = "t\<lparr>tn_server := (tn_server t)\<lparr>sent := sent (tn_server t) @ tn_request t\<rparr>\<rparr>"
  show ?thesis
    by (rule that [of ?t "A @ tn_request t"])
      (use assms True in \<open>simp_all add: relay_to_server_def relaying_def swrite_all\<close>)
next
  case False
  show ?thesis
    by (rule that [of t A]) (use assms False in \<open>simp_all add: relay_to_server_def relaying_def\<close>)
qed

lemma relay_to_client_relays:
  assumes "relaying cs ss c0 s0 (t\<lparr>tn_canWrite := False\<rparr>) A B"
  shows "(\<exists>t' B'. relay_to_client t = Inr t' \<and> relaying cs ss c0 s0 (t'\<lparr>tn_canWrite := False\<rparr>) A B') \<or>
    (\<exists>t'. relay_to_client t = Inl (Tunnel_closed, t') \<and> relayed cs ss c0 s0 t')"
proof -
  have e: "ReadErr \<notin> set (rx (tn_server t))" using assms by (simp add: relaying_def)
  have p: "0 < BUFSIZE" "0 < (1::nat)" by (simp_all add: BUFSIZE_def)
  from e p show ?thesis
  proof (cases rule: script_cases)
    case closed
    then show ?thesis using assms
      by (auto simp: relay_to_client_def relaying_def relayed_def Let_def)
  next
    case (quiet r)
    then show ?thesis using assms by (auto simp: relay_to_client_def relaying_def Let_def)
  next
    case (data d r)
    then show ?thesis using assms
      by (auto simp: relay_to_client_def relaying_def Let_def swrite_all)
  qed
qed

lemma read_from_client_relays:
  assumes "relaying cs ss c0 s0 (t\<lparr>tn_canWrite := False\<rparr>) A B"
  shows "(\<exists>t'. read_from_client t = Inr t' \<and> relaying cs ss c0 s0 t' A B) \<or>
    (\<exists>t'. read_from_client t = Inl (Tunnel_closed, t') \<and> relayed cs ss c0 s0 t')"
proof -
  have e: "ReadErr \<notin> set (rx (tn_client t))" using assms by (simp add: relaying_def)
  have p: "0 < BUFSIZE" "0 < (1::nat)" by (simp_all add: BUFSIZE_def)
  from e p show ?thesis
  proof (cases rule: script_cases)
    case closed
    then show ?thesis using assms
      by (auto simp: read_from_client_def relaying_def relayed_def Let_def)
  next
    case (quiet r)
    then show ?thesis using assms by (auto simp: read_from_client_def relaying_def Let_def)
  next
    case (data d r)
    then show ?thesis using assms by (auto simp: read_from_client_def relaying_def Let_def)
  qed
qed

lemma tunnel_round_relays:
  assumes "relaying cs ss c0 s0 t A B"
  shows "(\<exists>t' A' B'. tunnel_round t = Inr t' \<and> relaying cs ss c0 s0 t' A' B') \<or>
    (\<exists>t'. tunnel_round t = Inl (Tunnel_closed, t') \<and> relayed cs ss c0 s0 t')"
proof -
  obtain t1 A1 where 1: "relay_to_server t = Inr t1" "relaying cs ss c0 s0 (t1\<lparr>tn_canWrite := False\<rparr>) A1 B"
    by (rule relay_to_server_relays [OF assms])
  from relay_to_client_relays [OF 1(2)] show ?thesis
  proof (elim disjE exE conjE)
    fix t2 B2 assume 2: "relay_to_client t1 = Inr t2" "relaying cs ss c0 s0 (t2\<lparr>tn_canWrite := False\<rparr>) A1 B2"
    from read_from_client_relays [OF 2(2)] 1(1) 2(1) show ?thesis by (auto simp: tunnel_round_def)
  qed (use 1(1) in \<open>auto simp: tunnel_round_def\<close>)
qed

lemma tunnel_loop_relays:
  assumes "relaying cs ss c0 s0 t A B"
  shows "\<exists>t'. tunnel_loop t = (Tunnel_closed, t') \<and> relayed cs ss c0 s0 t'"
  using assms
proof (induction t arbitrary: A B rule: tunnel_loop.induct)
  case (1 t)
  from tunnel_round_relays [OF 1(2)] show ?case
  proof (elim disjE exE conjE)
    fix t' A' B' assume t': "tunnel_round t = Inr t'" "relaying cs ss c0 s0 t' A' B'"
    from 1(1) [OF t'] t'(1) show ?thesis by (subst tunnel_loop.simps) simp
  qed (subst tunnel_loop.simps, simp)
qed

section \<open>Properties\<close>

text \<open>C10: the tunnel of a CONNECT request ends, without an error of the sockets when one of the two closes its
  connection. Everything that this one has sent has then been relayed, and of what the other has sent a
  prefix: nothing is lost, duplicated or reordered in between. The client is told first that the
  connection is established.\<close>

theorem tunnel_relays:
  assumes "wr (w_client w) = []" "wr srv = []" "ReadErr \<notin> set (rx (w_client w))" "ReadErr \<notin> set (rx srv)"
    and "length UID \<le> 30"
  shows "\<exists>w' s A B. tunnel_to UID srv w = Some w' \<and> w_server w' = Some s \<and> w_closed w' = w_closed w + 1 \<and>
    sent s = sent srv @ A \<and> sent (w_client w') = sent (w_client w) @ okResponse @ B \<and>
    prefix A (arrives (rx (w_client w))) \<and> prefix B (arrives (rx srv)) \<and>
    (A = arrives (rx (w_client w)) \<or> B = arrives (rx srv))"
proof -
  let ?r = "rx (w_client w)"
  obtain d r where d: "sread BUFSIZE ?r = (Some d, r)" "arrives ?r = d @ arrives r" "ReadErr \<notin> set r"
    using sread_first [OF assms(3), of BUFSIZE] by (auto simp: BUFSIZE_def)
  let ?c = "(w_client w)\<lparr>sent := sent (w_client w) @ okResponse, rx := r\<rparr>"
  let ?t = "\<lparr>tn_client = ?c, tn_server = srv, tn_request = d, tn_canWrite = True\<rparr>"
  have "relaying (arrives ?r) (arrives (rx srv)) (sent (w_client w) @ okResponse) (sent srv) ?t [] []"
    using assms d by (simp add: relaying_def)
  from tunnel_loop_relays [OF this] obtain t A B where t: "tunnel_loop ?t = (Tunnel_closed, t)"
    "sent (tn_server t) = sent srv @ A" "sent (tn_client t) = (sent (w_client w) @ okResponse) @ B"
    "prefix A (arrives ?r)" "prefix B (arrives (rx srv))" "A = arrives ?r \<or> B = arrives (rx srv)"
    unfolding relayed_def by blast
  let ?w = "w\<lparr>w_client := tn_client t, w_server := Some (tn_server t)\<rparr>"
  have s: "say (UID @ '': Tunnel closed.'') ?w = Some (?w\<lparr>w_logs := w_logs ?w @ [UID @ '': Tunnel closed.'']\<rparr>)"
    using assms(5) by (intro say_Some) (simp add: MAX_LOG_LINE_LEN_def)
  have "tunnel_to UID srv w = Some (exitRequest (?w\<lparr>w_logs := w_logs ?w @ [UID @ '': Tunnel closed.'']\<rparr>))"
    using t(1) d(1) s swrite_all [OF assms(1), of okResponse] by (simp add: tunnel_to_def Let_def)
  then show ?thesis using t(2-) by (auto simp: exitRequest_def)
qed

theorem tunnel_relays_witness:
  "\<exists>w s A B. tunnel_to ''17'' \<lparr>rx = [Data ''world''], wr = [], sent = []\<rparr>
      (sample_world \<lparr>rx = [Data ''hello''], wr = [], sent = []\<rparr>) = Some w \<and> w_server w = Some s \<and>
    sent s = A \<and> sent (w_client w) = okResponse @ B \<and> (A = ''hello'' \<or> B = ''world'')"
  using tunnel_relays [of "sample_world \<lparr>rx = [Data ''hello''], wr = [], sent = []\<rparr>"
      "\<lparr>rx = [Data ''world''], wr = [], sent = []\<rparr>" "''17''"]
  by (auto simp: sample_world_def)

end
