(* ===== verification/Pool.thy ===== *)
theory Pool
  imports Requests "HOL-Library.Multiset"
begin

text \<open>
  The thread pool of \<^verbatim>\<open>threadPool.c\<close> as a step relation: the main thread accepts connections and pushes
  them, the workers (\<open>serviceRequest\<close>) take them from the stack under \<open>stackMutex\<close>, and the handler
  of SIGINT (\<open>quit\<close>) stops the workers, waits for the last one and frees the stack. A step is what a
  thread does between two points at which other threads can see a difference; what a worker does
  with a connection is one step here. At most one SIGINT arrives; its handler runs in some thread,
  which stands still meanwhile: the main thread, a worker or the logger.
\<close>

definition POOLSIZE :: nat where "POOLSIZE = 10"

text \<open>
  The points of a worker: the test of \<open>running\<close>, the lock, the test of the waiting loop, the wait, the
  test after it, serving a connection, \<open>incrExit\<close>, the end, and a fault.
\<close>

datatype wpc = W_loop | W_lock | W_test | W_wait | W_check | W_serve int | W_incr | W_done | W_fault

text \<open>
  The points of the main thread: the loop, \<open>push\<close> before and after the lock, and the end: \<open>main\<close>
  has returned, or \<open>accept\<close> has failed and \<open>error\<close> was called, which C leaves undefined (nothing is
  said about what comes after).
\<close>

datatype mpc = M_loop | M_push int | M_locked int | M_end

text \<open>The points of \<open>quit\<close>: not called, its two locks, after them, after the unlock, in the wait, after it,
  after \<open>freeAll\<close>, and after \<open>exit\<close>.\<close>

datatype qpc = Q_none | Q_exit | Q_stack | Q_set | Q_release | Q_wait | Q_free | Q_freed | Q_over

datatype thread = Main | Worker nat | Logger

datatype owner = Thread thread | Handler

record pool =
  p_stack :: store
  p_owner :: "owner option"
  p_exitOwner :: "owner option"
  p_running :: bool
  p_signalled :: bool
  p_exited :: nat
  p_serviced :: nat
  p_main :: mpc
  p_worker :: "nat \<Rightarrow> wpc"
  p_count :: "nat \<Rightarrow> nat"
  p_quit :: qpc
  p_handler :: "thread option"
  p_accepted :: "int multiset"
  p_closed :: "int multiset"

definition pool_start :: pool where
  "pool_start = \<lparr>p_stack = no_requests, p_owner = None, p_exitOwner = None, p_running = True,
     p_signalled = False, p_exited = 0, p_serviced = 0, p_main = M_loop, p_worker = \<lambda>_. W_loop, p_count = \<lambda>_. 0,
     p_quit = Q_none, p_handler = None, p_accepted = {#}, p_closed = {#}\<rparr>"

text \<open>A thread can run unless the process is over or the handler runs in it.\<close>

definition runs :: "thread \<Rightarrow> pool \<Rightarrow> bool" where
  "runs t s \<longleftrightarrow> p_quit s \<noteq> Q_over \<and> p_main s \<noteq> M_end \<and> p_handler s \<noteq> Some t"

abbreviation set_worker :: "nat \<Rightarrow> wpc \<Rightarrow> pool \<Rightarrow> pool" where
  "set_worker i c s \<equiv> s\<lparr>p_worker := (p_worker s)(i := c)\<rparr>"

inductive main_step :: "pool \<Rightarrow> pool \<Rightarrow> bool" where
  accept: "runs Main s \<Longrightarrow> p_main s = M_loop \<Longrightarrow> p_running s \<Longrightarrow> fd \<noteq> 0 \<Longrightarrow>
    main_step s (s\<lparr>p_main := M_push fd, p_accepted := add_mset fd (p_accepted s)\<rparr>)"
| accept_error: "runs Main s \<Longrightarrow> p_main s = M_loop \<Longrightarrow> p_running s \<Longrightarrow> main_step s (s\<lparr>p_main := M_end\<rparr>)"
| main_end: "runs Main s \<Longrightarrow> p_main s = M_loop \<Longrightarrow> \<not> p_running s \<Longrightarrow> main_step s (s\<lparr>p_main := M_end\<rparr>)"
| push_lock: "runs Main s \<Longrightarrow> p_main s = M_push fd \<Longrightarrow> p_owner s = None \<Longrightarrow>
    main_step s (s\<lparr>p_main := M_locked fd, p_owner := Some (Thread Main)\<rparr>)"
| push_unlock: "runs Main s \<Longrightarrow> p_main s = M_locked fd \<Longrightarrow>
    main_step s (s\<lparr>p_main := M_loop, p_owner := None, p_stack := push fd (p_stack s)\<rparr>)"

text \<open>
  What a worker does with \<open>exitMutex\<close>: the last one signals \<open>exitCond\<close>, which is lost unless the
  handler waits.
\<close>

definition incrExit :: "nat \<Rightarrow> pool \<Rightarrow> pool" where
  "incrExit reqsServiced s =
     (let exited = p_exited s + 1
      in s\<lparr>p_exited := exited, p_signalled := (if exited = POOLSIZE \<and> p_quit s = Q_wait then True else p_signalled s),
           p_serviced := p_serviced s + reqsServiced\<rparr>)"

lemma incrExit_eq [simp]:
  "incrExit k s = s\<lparr>p_exited := p_exited s + 1, p_serviced := p_serviced s + k,
     p_signalled := (p_signalled s \<or> p_exited s + 1 = POOLSIZE \<and> p_quit s = Q_wait)\<rparr>"
  by (auto simp: incrExit_def Let_def)

text \<open>
  A worker. It may come back from \<open>pthread_cond_wait\<close> whenever the mutex is free: the loop around the
  wait makes the signals irrelevant for safety. The node that \<open>pop\<close> returns is read and freed after
  the unlock, when no other thread can reach it any more.
\<close>

inductive worker_step :: "nat \<Rightarrow> pool \<Rightarrow> pool \<Rightarrow> bool" for i :: nat where
  again: "runs (Worker i) s \<Longrightarrow> p_worker s i = W_loop \<Longrightarrow> p_running s \<Longrightarrow>
    worker_step i s (set_worker i W_lock s)"
| stop: "runs (Worker i) s \<Longrightarrow> p_worker s i = W_loop \<Longrightarrow> \<not> p_running s \<Longrightarrow>
    worker_step i s (set_worker i W_incr s)"
| lock: "runs (Worker i) s \<Longrightarrow> p_worker s i \<in> {W_lock, W_wait} \<Longrightarrow> p_owner s = None \<Longrightarrow>
    worker_step i s (set_worker i W_test (s\<lparr>p_owner := Some (Thread (Worker i))\<rparr>))"
| wait: "runs (Worker i) s \<Longrightarrow> p_worker s i = W_test \<Longrightarrow> stackEmpty (p_stack s) = Some True \<Longrightarrow> p_running s \<Longrightarrow>
    worker_step i s (set_worker i W_wait (s\<lparr>p_owner := None\<rparr>))"
| ready: "runs (Worker i) s \<Longrightarrow> p_worker s i = W_test \<Longrightarrow> stackEmpty (p_stack s) = Some e \<Longrightarrow> \<not> (e \<and> p_running s) \<Longrightarrow>
    worker_step i s (set_worker i W_check s)"
| test_fault: "runs (Worker i) s \<Longrightarrow> p_worker s i = W_test \<Longrightarrow> stackEmpty (p_stack s) = None \<Longrightarrow>
    worker_step i s (set_worker i W_fault s)"
| take: "runs (Worker i) s \<Longrightarrow> p_worker s i = W_check \<Longrightarrow> p_running s \<Longrightarrow>
    take_request (p_stack s) = Some (fd, st) \<Longrightarrow>
    worker_step i s (set_worker i (W_serve fd)
      (s\<lparr>p_stack := st, p_owner := None, p_count := (p_count s)(i := p_count s i + 1)\<rparr>))"
| take_fault: "runs (Worker i) s \<Longrightarrow> p_worker s i = W_check \<Longrightarrow> p_running s \<Longrightarrow> take_request (p_stack s) = None \<Longrightarrow>
    worker_step i s (set_worker i W_fault s)"
| leave: "runs (Worker i) s \<Longrightarrow> p_worker s i = W_check \<Longrightarrow> \<not> p_running s \<Longrightarrow>
    worker_step i s (set_worker i W_loop (s\<lparr>p_owner := None\<rparr>))"
| serve: "runs (Worker i) s \<Longrightarrow> p_worker s i = W_serve fd \<Longrightarrow>
    worker_step i s (set_worker i W_loop (s\<lparr>p_closed := add_mset fd (p_closed s)\<rparr>))"
| ended: "runs (Worker i) s \<Longrightarrow> p_worker s i = W_incr \<Longrightarrow> p_exitOwner s = None \<Longrightarrow>
    worker_step i s (set_worker i W_done (incrExit (p_count s i) s))"

text \<open>
  The handler. A signal to \<open>exitCond\<close> wakes it only while it waits. With \<open>spurious\<close> the wait may also
  return without a signal, which POSIX allows and \<open>quit\<close> does not check for.
\<close>

inductive quit_step :: "bool \<Rightarrow> pool \<Rightarrow> pool \<Rightarrow> bool" for spurious :: bool where
  sigint: "runs t s \<Longrightarrow> p_quit s = Q_none \<Longrightarrow> (case t of Worker i \<Rightarrow> i < POOLSIZE \<and> p_worker s i \<noteq> W_done | _ \<Rightarrow> True) \<Longrightarrow>
    quit_step spurious s (s\<lparr>p_quit := Q_exit, p_handler := Some t\<rparr>)"
| lock_exit: "p_main s \<noteq> M_end \<Longrightarrow> p_quit s = Q_exit \<Longrightarrow> p_exitOwner s = None \<Longrightarrow>
    quit_step spurious s (s\<lparr>p_quit := Q_stack, p_exitOwner := Some Handler\<rparr>)"
| lock_stack: "p_main s \<noteq> M_end \<Longrightarrow> p_quit s = Q_stack \<Longrightarrow> p_owner s = None \<Longrightarrow>
    quit_step spurious s (s\<lparr>p_quit := Q_set, p_owner := Some Handler\<rparr>)"
| not_running: "p_main s \<noteq> M_end \<Longrightarrow> p_quit s = Q_set \<Longrightarrow>
    quit_step spurious s (s\<lparr>p_quit := Q_release, p_running := False, p_owner := None\<rparr>)"
| wait_exit: "p_main s \<noteq> M_end \<Longrightarrow> p_quit s = Q_release \<Longrightarrow>
    quit_step spurious s (s\<lparr>p_quit := Q_wait, p_exitOwner := None\<rparr>)"
| woken: "p_main s \<noteq> M_end \<Longrightarrow> p_quit s = Q_wait \<Longrightarrow> p_signalled s \<or> spurious \<Longrightarrow> p_exitOwner s = None \<Longrightarrow>
    quit_step spurious s (s\<lparr>p_quit := Q_free, p_signalled := False, p_exitOwner := Some Handler\<rparr>)"
| freeAll: "p_main s \<noteq> M_end \<Longrightarrow> p_quit s = Q_free \<Longrightarrow> freeAll_stack (p_stack s) (requests (p_stack s)) = Some st \<Longrightarrow>
    quit_step spurious s (s\<lparr>p_quit := Q_freed, p_stack := st\<rparr>)"
| exit: "p_main s \<noteq> M_end \<Longrightarrow> p_quit s = Q_freed \<Longrightarrow>
    quit_step spurious s (s\<lparr>p_quit := Q_over, p_exitOwner := None\<rparr>)"

inductive pool_step :: "bool \<Rightarrow> pool \<Rightarrow> pool \<Rightarrow> bool" for spurious :: bool where
  main: "main_step s t \<Longrightarrow> pool_step spurious s t"
| worker: "i < POOLSIZE \<Longrightarrow> worker_step i s t \<Longrightarrow> pool_step spurious s t"
| handler: "quit_step spurious s t \<Longrightarrow> pool_step spurious s t"

end
