(* ===== verification/Pool_Inv.thy ===== *)
theory Pool_Inv
  imports Pool
begin

text \<open>The invariants of the thread pool.\<close>

section \<open>Sets of workers\<close>

definition workers_at :: "(wpc \<Rightarrow> bool) \<Rightarrow> (nat \<Rightarrow> wpc) \<Rightarrow> nat set" where
  "workers_at P w = {i. i < POOLSIZE \<and> P (w i)}"

lemma workers_at_upd:
  "i < POOLSIZE \<Longrightarrow> workers_at P (w(i := c)) = (if P c then insert i (workers_at P w) else workers_at P w - {i})"
  by (auto simp: workers_at_def)

lemma workers_at_finite [simp]: "finite (workers_at P w)"
  by (simp add: workers_at_def)

lemma workers_at_iff: "i < POOLSIZE \<Longrightarrow> i \<in> workers_at P w \<longleftrightarrow> P (w i)"
  by (simp add: workers_at_def)

lemma workers_at_notin: "\<not> P (w i) \<Longrightarrow> i \<notin> workers_at P w"
  by (simp add: workers_at_def)

lemma card_workers_at: "card (workers_at P w) \<le> POOLSIZE"
  using card_mono [of "{..<POOLSIZE}" "workers_at P w"] by (auto simp: workers_at_def)

lemma workers_at_all: "card (workers_at P w) = POOLSIZE \<longleftrightarrow> (\<forall>i<POOLSIZE. P (w i))"
proof
  assume "card (workers_at P w) = POOLSIZE"
  moreover have "workers_at P w \<subseteq> {..<POOLSIZE}" by (auto simp: workers_at_def)
  ultimately have "workers_at P w = {..<POOLSIZE}" by (intro card_subset_eq) auto
  then show "\<forall>i<POOLSIZE. P (w i)" by (auto simp: workers_at_def)
next
  assume "\<forall>i<POOLSIZE. P (w i)"
  then have "workers_at P w = {..<POOLSIZE}" by (auto simp: workers_at_def)
  then show "card (workers_at P w) = POOLSIZE" by simp
qed

lemma POOLSIZE_pos [simp]: "0 < POOLSIZE"
  by (simp add: POOLSIZE_def)

text \<open>Where a worker is, by what it holds or is about to do.\<close>

definition locked :: "wpc \<Rightarrow> bool" where "locked c \<longleftrightarrow> c \<in> {W_test, W_check, W_fault}"
definition leaving :: "wpc \<Rightarrow> bool" where "leaving c \<longleftrightarrow> c \<in> {W_incr, W_done}"
definition is_done :: "wpc \<Rightarrow> bool" where "is_done c \<longleftrightarrow> c = W_done"
definition at_check :: "wpc \<Rightarrow> bool" where "at_check c \<longleftrightarrow> c = W_check"
definition faulty :: "wpc \<Rightarrow> bool" where "faulty c \<longleftrightarrow> c = W_fault"

lemmas points = locked_def leaving_def is_done_def at_check_def faulty_def

section \<open>The locks\<close>

text \<open>Who holds \<open>stackMutex\<close> and \<open>exitMutex\<close> follows from the program points.\<close>

definition main_locked :: "mpc \<Rightarrow> bool" where
  "main_locked m \<longleftrightarrow> (case m of M_locked _ \<Rightarrow> True | _ \<Rightarrow> False)"

definition lock_holders :: "mpc \<Rightarrow> (nat \<Rightarrow> wpc) \<Rightarrow> qpc \<Rightarrow> owner set" where
  "lock_holders m w q = (if main_locked m then {Thread Main} else {}) \<union> (if q = Q_set then {Handler} else {}) \<union>
     (Thread \<circ> Worker) ` workers_at locked w"

definition exit_locked :: "qpc \<Rightarrow> bool" where
  "exit_locked q \<longleftrightarrow> q \<in> {Q_stack, Q_set, Q_release, Q_free, Q_freed}"

definition locks_inv :: "pool \<Rightarrow> bool" where
  "locks_inv s \<longleftrightarrow> lock_holders (p_main s) (p_worker s) (p_quit s) = set_option (p_owner s) \<and>
     p_exitOwner s = (if exit_locked (p_quit s) then Some Handler else None)"

lemma holder_iff:
  "Thread Main \<in> lock_holders m w q \<longleftrightarrow> main_locked m" "Handler \<in> lock_holders m w q \<longleftrightarrow> q = Q_set"
  "Thread (Worker i) \<in> lock_holders m w q \<longleftrightarrow> i \<in> workers_at locked w"
  by (auto simp: lock_holders_def)

text \<open>A thread that has the lock is the owner, so no other thread has it.\<close>

lemma lock_owner:
  assumes "locks_inv s" "x \<in> lock_holders (p_main s) (p_worker s) (p_quit s)"
  shows "p_owner s = Some x" "lock_holders (p_main s) (p_worker s) (p_quit s) = {x}"
  using assms by (auto simp: locks_inv_def)

lemma holders_main:
  "lock_holders (M_locked fd) w q = insert (Thread Main) (lock_holders M_loop w q)"
  "lock_holders (M_push fd) w q = lock_holders M_loop w q" "lock_holders M_end w q = lock_holders M_loop w q"
  "Thread Main \<notin> lock_holders M_loop w q"
  by (auto simp: lock_holders_def main_locked_def)

lemma holders_quit:
  "lock_holders m w Q_set = insert Handler (lock_holders m w Q_none)"
  "q \<notin> {Q_set, Q_none} \<Longrightarrow> lock_holders m w q = lock_holders m w Q_none"
  "Handler \<notin> lock_holders m w Q_none"
  by (auto simp: lock_holders_def)

lemma holders_worker:
  assumes "i < POOLSIZE"
  shows "lock_holders m (w(i := c)) q = (if locked c then insert (Thread (Worker i)) (lock_holders m w q)
     else lock_holders m w q - {Thread (Worker i)})"
  using assms by (auto simp: lock_holders_def workers_at_upd)

lemma locks_main:
  assumes inv: "locks_inv s" and step: "main_step s t"
  shows "locks_inv t"
proof -
  have h: "main_locked (p_main s) \<Longrightarrow> p_owner s = Some (Thread Main)"
    using lock_owner(1) [OF inv, of "Thread Main"] by (simp add: holder_iff)
  note n = holders_main(4) [of "p_worker s" "p_quit s"]
  from step show ?thesis using inv h n
    by (cases rule: main_step.cases) (auto simp: locks_inv_def main_locked_def holders_main(1-3))
qed

lemma locks_worker:
  assumes inv: "locks_inv s" and i: "i < POOLSIZE" and step: "worker_step i s t"
  shows "locks_inv t"
proof -
  have h: "locked (p_worker s i) \<Longrightarrow> p_owner s = Some (Thread (Worker i))"
    using lock_owner(1) [OF inv, of "Thread (Worker i)"] i by (simp add: holder_iff workers_at_iff)
  have n: "\<not> locked (p_worker s i) \<Longrightarrow> Thread (Worker i) \<notin> lock_holders (p_main s) (p_worker s) (p_quit s)"
    by (simp add: holder_iff workers_at_notin)
  from step show ?thesis using inv h n i
    by (cases rule: worker_step.cases) (auto simp: locks_inv_def locked_def holders_worker)
qed

lemma locks_quit:
  assumes inv: "locks_inv s" and step: "quit_step spurious s t"
  shows "locks_inv t"
proof -
  have h: "p_quit s = Q_set \<Longrightarrow> p_owner s = Some Handler"
    using lock_owner(1) [OF inv, of Handler] by (simp add: holder_iff)
  note n = holders_quit(3) [of "p_main s" "p_worker s"]
  from step show ?thesis using inv h n
    by (cases rule: quit_step.cases) (auto simp: locks_inv_def exit_locked_def holders_quit(1,2))
qed

section \<open>The phases of the shutdown\<close>

text \<open>Before \<open>quit\<close> has cleared \<open>running\<close>, before it waits, and after the wait.\<close>

definition early :: "qpc \<Rightarrow> bool" where "early q \<longleftrightarrow> q \<in> {Q_none, Q_exit, Q_stack, Q_set}"
definition not_waited :: "qpc \<Rightarrow> bool" where "not_waited q \<longleftrightarrow> early q \<or> q = Q_release"
definition late :: "qpc \<Rightarrow> bool" where "late q \<longleftrightarrow> q \<in> {Q_free, Q_freed, Q_over}"

abbreviation finished :: "pool \<Rightarrow> nat set" where "finished s \<equiv> workers_at is_done (p_worker s)"

definition phase_ok :: "bool \<Rightarrow> bool \<Rightarrow> qpc \<Rightarrow> nat set \<Rightarrow> nat set \<Rightarrow> nat \<Rightarrow> nat \<Rightarrow> (nat \<Rightarrow> nat) \<Rightarrow> bool \<Rightarrow> bool" where
  "phase_ok spurious run q leav fin exited serv cnt signalled \<longleftrightarrow>
     run = early q \<and> (run \<longrightarrow> leav = {}) \<and> (not_waited q \<longrightarrow> fin = {}) \<and>
     exited = card fin \<and> serv = sum cnt fin \<and> signalled = (q = Q_wait \<and> exited = POOLSIZE) \<and>
     (\<not> spurious \<longrightarrow> late q \<longrightarrow> exited = POOLSIZE)"

definition phase_inv :: "bool \<Rightarrow> pool \<Rightarrow> bool" where
  "phase_inv spurious s \<longleftrightarrow> phase_ok spurious (p_running s) (p_quit s) (workers_at leaving (p_worker s))
     (finished s) (p_exited s) (p_serviced s) (p_count s) (p_signalled s)"

lemma sum_other: "i \<notin> A \<Longrightarrow> (\<Sum>x\<in>A. if x = i then y else f x) = sum f A"
  by (rule sum.cong) auto

lemma phase_worker:
  assumes inv: "phase_inv spurious s" and locks: "locks_inv s" and i: "i < POOLSIZE" and step: "worker_step i s t"
  shows "phase_inv spurious t"
proof -
  have nf: "i \<notin> finished s"
    using step by (cases rule: worker_step.cases) (auto simp: workers_at_def is_done_def)
  then have lt: "card (finished s) < POOLSIZE"
    using workers_at_all [of is_done "p_worker s"] i card_workers_at [of is_done "p_worker s"]
    by (auto simp: workers_at_iff order_less_le)
  have nl: "\<not> leaving (p_worker s i) \<Longrightarrow> i \<notin> workers_at leaving (p_worker s)" by (rule workers_at_notin)
  from step show ?thesis
  proof (cases rule: worker_step.cases)
    case ended
    have "i \<in> workers_at leaving (p_worker s)" using ended i by (simp add: workers_at_def leaving_def)
    then have "\<not> early (p_quit s)" using inv by (auto simp: phase_inv_def phase_ok_def)
    then have "p_quit s = Q_wait" using ended locks
      by (cases "p_quit s") (auto simp: early_def locks_inv_def exit_locked_def runs_def)
    then show ?thesis using ended inv nf lt i
      by (auto simp: phase_inv_def phase_ok_def workers_at_upd is_done_def leaving_def early_def not_waited_def late_def)
  next
    case (take fd st)
    from sum_other [OF nf, of "Suc (p_count s i)" "p_count s"]
    have "phase_ok spurious run q leav (finished s) ex v ((p_count s)(i := Suc (p_count s i))) sg =
        phase_ok spurious run q leav (finished s) ex v (p_count s) sg" for run q leav ex v sg
      by (simp add: phase_ok_def)
    then show ?thesis using take inv i nf nl
      by (simp add: phase_inv_def workers_at_upd is_done_def leaving_def)
  next
    case stop
    then show ?thesis using inv i nf
      by (auto simp: phase_inv_def workers_at_upd is_done_def leaving_def phase_ok_def)
  qed (use inv i nf nl in \<open>auto simp: phase_inv_def workers_at_upd is_done_def leaving_def\<close>)
qed

lemma phase_main: "main_step s t \<Longrightarrow> phase_inv spurious s \<Longrightarrow> phase_inv spurious t"
  by (erule main_step.cases) (simp_all add: phase_inv_def)

lemma phase_quit: "quit_step spurious s t \<Longrightarrow> phase_inv spurious s \<Longrightarrow> phase_inv spurious t"
  by (erule quit_step.cases) (auto simp: phase_inv_def phase_ok_def early_def not_waited_def late_def)

section \<open>The connections\<close>

fun served_by :: "wpc \<Rightarrow> int multiset" where
  "served_by (W_serve fd) = {#fd#}"
| "served_by _ = {#}"

fun pushed_by :: "mpc \<Rightarrow> int multiset" where
  "pushed_by (M_push fd) = {#fd#}"
| "pushed_by (M_locked fd) = {#fd#}"
| "pushed_by _ = {#}"

definition serving :: "(nat \<Rightarrow> wpc) \<Rightarrow> int multiset" where
  "serving w = (\<Sum>i<POOLSIZE. served_by (w i))"

text \<open>Every connection that was accepted is waiting, being served, being pushed, or closed, and once.\<close>

definition balanced :: "pool \<Rightarrow> int list \<Rightarrow> bool" where
  "balanced s ds \<longleftrightarrow> waiting (p_stack s) ds \<and> 0 \<notin> set ds \<and>
     p_accepted s = mset ds + serving (p_worker s) + p_closed s + pushed_by (p_main s)"

definition freed :: "qpc \<Rightarrow> bool" where "freed q \<longleftrightarrow> q \<in> {Q_freed, Q_over}"

definition conn_inv :: "pool \<Rightarrow> bool" where
  "conn_inv s \<longleftrightarrow> 0 \<notin># pushed_by (p_main s) \<and>
     (\<not> freed (p_quit s) \<longrightarrow> workers_at faulty (p_worker s) = {} \<and> (\<exists>ds. balanced s ds \<and>
       (p_running s \<longrightarrow> ds = [] \<longrightarrow> workers_at at_check (p_worker s) = {})))"

lemma serving_upd:
  assumes "i < POOLSIZE"
  shows "serving (w(i := c)) + served_by (w i) = serving w + served_by c"
proof -
  have "(\<Sum>j\<in>{..<POOLSIZE} - {i}. served_by ((w(i := c)) j)) = (\<Sum>j\<in>{..<POOLSIZE} - {i}. served_by (w j))"
    by (rule sum.cong) auto
  then show ?thesis using assms
    sum.remove [of "{..<POOLSIZE}" i "\<lambda>j. served_by ((w(i := c)) j)"] sum.remove [of "{..<POOLSIZE}" i "\<lambda>j. served_by (w j)"]
    by (simp add: serving_def)
qed

lemma serving_idle:
  assumes "i < POOLSIZE" "served_by (w i) = {#}" "served_by c = {#}"
  shows "serving (w(i := c)) = serving w"
  using serving_upd [OF assms(1), of w c] assms(2,3) by simp

lemma all_done:
  assumes "phase_inv False s" "late (p_quit s)" "i < POOLSIZE"
  shows "p_worker s i = W_done"
  using assms workers_at_all [of is_done "p_worker s"] by (auto simp: phase_inv_def phase_ok_def is_done_def)

lemma check_alone:
  assumes "locks_inv s" "i < POOLSIZE" "p_worker s i = W_check"
  shows "workers_at at_check (p_worker s) = {i}"
proof -
  have own: "p_owner s = Some (Thread (Worker j))" if "j < POOLSIZE" "p_worker s j = W_check" for j
    using lock_owner(1) [OF assms(1), of "Thread (Worker j)"] that by (simp add: holder_iff workers_at_iff locked_def)
  have "j = i" if "j < POOLSIZE" "p_worker s j = W_check" for j
    using own [OF that] own [OF assms(2,3)] by simp
  then show ?thesis using assms(2,3) unfolding workers_at_def at_check_def by blast
qed

lemma conn_worker:
  assumes inv: "conn_inv s" and locks: "locks_inv s" and i: "i < POOLSIZE" and step: "worker_step i s t"
  shows "conn_inv t"
proof (cases "freed (p_quit s)")
  case True
  from step show ?thesis using inv True by (cases rule: worker_step.cases) (auto simp: conn_inv_def)
next
  case nq: False
  then obtain ds where ds: "balanced s ds" "p_running s \<longrightarrow> ds = [] \<longrightarrow> workers_at at_check (p_worker s) = {}"
    using inv by (auto simp: conn_inv_def)
  have nf: "workers_at faulty (p_worker s) = {}" "0 \<notin># pushed_by (p_main s)" using inv nq by (auto simp: conn_inv_def)
  have w: "waiting (p_stack s) ds" "0 \<notin> set ds"
    "p_accepted s = mset ds + serving (p_worker s) + p_closed s + pushed_by (p_main s)"
    using ds(1) by (auto simp: balanced_def)
  note em = stackEmpty_waiting [OF w(1)]
  note sv = serving_upd [OF i, of "p_worker s"] serving_idle [OF i, of "p_worker s"]
  have keep: "conn_inv t" if "p_stack t = p_stack s" "p_accepted t = p_accepted s" "p_main t = p_main s" "p_quit t = p_quit s"
    "p_running t = p_running s" "p_worker t = (p_worker s)(i := c)" "\<not> faulty c"
    "serving ((p_worker s)(i := c)) + p_closed t = serving (p_worker s) + p_closed s"
    "at_check c \<longrightarrow> \<not> p_running s \<or> ds \<noteq> []" for c
  proof -
    have "balanced t ds" using w that by (simp add: balanced_def add.assoc)
    moreover have "p_running t \<longrightarrow> ds = [] \<longrightarrow> workers_at at_check (p_worker t) = {}"
      using ds(2) that by (auto simp: workers_at_upd i)
    ultimately show ?thesis using nf that by (auto simp: conn_inv_def workers_at_upd i)
  qed
  from step show ?thesis
  proof (cases rule: worker_step.cases)
    case (take fd st)
    then have "i \<in> workers_at at_check (p_worker s)" using i by (simp add: workers_at_def at_check_def)
    then obtain d es where d: "ds = d # es" "d \<noteq> 0" using ds(2) take(4) w(2) by (cases ds) auto
    then have st: "fd = d" "waiting st es" using requests.take_Some [of "p_stack s" d es fd st] w(1) take by auto
    have "balanced t es" using w take st d sv(1) [of "W_serve d"] by (simp add: balanced_def)
    moreover have "workers_at at_check (p_worker t) = {}" using take check_alone [OF locks i] i
      by (simp add: workers_at_upd at_check_def)
    ultimately show ?thesis using nf take i by (auto simp: conn_inv_def workers_at_upd faulty_def)
  next
    case take_fault
    then have "i \<in> workers_at at_check (p_worker s)" using i by (simp add: workers_at_def at_check_def)
    then obtain d es where "ds = d # es" "d \<noteq> 0" using ds(2) take_fault w(2) by (cases ds) auto
    then show ?thesis using requests.take_holds [of "p_stack s" d es] w(1) take_fault by auto
  next
    case (ready e)
    then show ?thesis using em sv(2) [of W_check] by (intro keep [of W_check]) (auto simp: faulty_def)
  next
    case (serve fd)
    then show ?thesis using sv(1) [of W_loop] by (intro keep [of W_loop]) (auto simp: points)
  next
    case test_fault
    then show ?thesis using em by simp
  qed (rule keep [of "p_worker t i"]; use sv(2) in \<open>auto simp: points\<close>)+
qed

lemma conn_main:
  assumes inv: "conn_inv s" and step: "main_step s t"
  shows "conn_inv t"
  using step
proof (cases rule: main_step.cases)
  case (push_unlock fd)
  have "balanced t (fd # ds)" if "balanced s ds" for ds
    using that push_unlock waiting_push [of "p_stack s" ds fd] inv by (auto simp: balanced_def conn_inv_def)
  then show ?thesis using inv push_unlock by (auto simp: conn_inv_def)
qed (use inv in \<open>auto simp: conn_inv_def balanced_def\<close>)

lemma conn_quit:
  assumes inv: "conn_inv s" and step: "quit_step spurious s t"
  shows "conn_inv t"
  using step by (cases rule: quit_step.cases) (use inv in \<open>auto simp: conn_inv_def balanced_def freed_def\<close>)

section \<open>The handler\<close>

text \<open>A worker in which the handler runs has not ended, and stands still.\<close>

definition handler_inv :: "pool \<Rightarrow> bool" where
  "handler_inv s \<longleftrightarrow> (p_handler s = None \<longleftrightarrow> p_quit s = Q_none) \<and>
     (\<forall>i. p_handler s = Some (Worker i) \<longrightarrow> i < POOLSIZE \<and> p_worker s i \<noteq> W_done)"

lemma handler_worker: "worker_step i s t \<Longrightarrow> handler_inv s \<Longrightarrow> handler_inv t"
  by (erule worker_step.cases) (auto simp: handler_inv_def runs_def)

lemma handler_main: "main_step s t \<Longrightarrow> handler_inv s \<Longrightarrow> handler_inv t"
  by (erule main_step.cases) (auto simp: handler_inv_def)

lemma handler_quit: "quit_step spurious s t \<Longrightarrow> handler_inv s \<Longrightarrow> handler_inv t"
  by (erule quit_step.cases) (auto simp: handler_inv_def split: thread.splits)

section \<open>The invariant of the pool\<close>

definition pool_inv :: "bool \<Rightarrow> pool \<Rightarrow> bool" where
  "pool_inv spurious s \<longleftrightarrow> locks_inv s \<and> phase_inv spurious s \<and> conn_inv s \<and> handler_inv s"

definition pool_starts :: "pool \<Rightarrow> bool" where
  "pool_starts s \<longleftrightarrow> s = pool_start"

lemma pool_inv_start: "pool_inv spurious pool_start"
proof -
  have e: "workers_at P (\<lambda>_. W_loop) = {}" if "\<not> P W_loop" for P using that by (simp add: workers_at_def)
  have "locks_inv pool_start"
    by (simp add: locks_inv_def pool_start_def lock_holders_def main_locked_def exit_locked_def e points)
  moreover have "phase_inv spurious pool_start"
    by (simp add: phase_inv_def phase_ok_def pool_start_def early_def not_waited_def late_def e points)
  moreover have "balanced pool_start []"
    using waiting_empty by (simp add: balanced_def pool_start_def serving_def)
  then have "conn_inv pool_start" by (auto simp: conn_inv_def pool_start_def e points)
  moreover have "handler_inv pool_start" by (simp add: handler_inv_def pool_start_def)
  ultimately show ?thesis by (simp add: pool_inv_def)
qed

interpretation pool: invariant_system pool_starts "pool_step spurious" "pool_inv spurious" for spurious
proof
  show "pool_starts s \<Longrightarrow> pool_inv spurious s" for s by (simp add: pool_starts_def pool_inv_start)
  show "pool_inv spurious t" if "pool_inv spurious s" "pool_step spurious s t" for s t
    using that(2)
  proof (cases rule: pool_step.cases)
    case main
    with that(1) show ?thesis by (auto simp: pool_inv_def intro: locks_main phase_main conn_main handler_main)
  next
    case (worker i)
    with that(1) show ?thesis by (auto simp: pool_inv_def intro: locks_worker phase_worker conn_worker handler_worker)
  next
    case handler
    with that(1) show ?thesis by (auto simp: pool_inv_def intro: locks_quit phase_quit conn_quit handler_quit)
  qed
qed

text \<open>Without spurious wakeups no worker ever faults: when the stack is freed, they have all ended.\<close>

lemma never_faulty:
  assumes "pool_inv False s" "i < POOLSIZE"
  shows "p_worker s i \<noteq> W_fault"
proof (cases "freed (p_quit s)")
  case True
  then have "late (p_quit s)" by (auto simp: freed_def late_def)
  then show ?thesis using all_done [OF _ _ assms(2)] assms(1) by (simp add: pool_inv_def)
next
  case False
  then show ?thesis using assms by (auto simp: pool_inv_def conn_inv_def workers_at_def faulty_def)
qed

end
