(* ===== verification/Pool_Props.thy ===== *)
theory Pool_Props
  imports Pool_Inv
begin

text \<open>The properties of the thread pool: what its executions keep, and how its shutdown ends.\<close>

section \<open>Executions\<close>

text \<open>The handler runs in the main thread, while it waits for a connection, up to its wait.\<close>

definition quit_waits :: "nat \<Rightarrow> pool" where
  "quit_waits n = pool_start\<lparr>p_running := False, p_quit := Q_wait, p_handler := Some Main,
     p_worker := (\<lambda>i. if i < n then W_done else W_loop), p_exited := n, p_signalled := (n = POOLSIZE)\<rparr>"

lemmas start_simps = pool_start_def quit_waits_def runs_def

lemma reach_main: "reach S (pool_step b) s \<Longrightarrow> main_step s t \<Longrightarrow> reach S (pool_step b) t"
  by (rule reach_step, assumption) (rule pool_step.main)

lemma reach_worker: "reach S (pool_step b) s \<Longrightarrow> i < POOLSIZE \<Longrightarrow> worker_step i s t \<Longrightarrow> reach S (pool_step b) t"
  by (rule reach_step, assumption) (rule pool_step.worker)

lemma reach_handler: "reach S (pool_step b) s \<Longrightarrow> quit_step b s t \<Longrightarrow> reach S (pool_step b) t"
  by (rule reach_step, assumption) (rule pool_step.handler)

lemma reach_wait:
  assumes r: "reach S (pool_step b) s" and s: "runs Main s" "p_quit s = Q_none" "p_owner s = None" "p_exitOwner s = None"
  shows "reach S (pool_step b) (s\<lparr>p_quit := Q_wait, p_handler := Some Main, p_running := False\<rparr>)"
proof -
  let ?s1 = "s\<lparr>p_quit := Q_exit, p_handler := Some Main\<rparr>"
  let ?s2 = "?s1\<lparr>p_quit := Q_stack, p_exitOwner := Some Handler\<rparr>"
  let ?s3 = "?s2\<lparr>p_quit := Q_set, p_owner := Some Handler\<rparr>"
  let ?s4 = "?s3\<lparr>p_quit := Q_release, p_running := False, p_owner := None\<rparr>"
  let ?s5 = "?s4\<lparr>p_quit := Q_wait, p_exitOwner := None\<rparr>"
  have "p_main s \<noteq> M_end" using s by (simp add: runs_def)
  then have q: "quit_step b s ?s1" "quit_step b ?s1 ?s2" "quit_step b ?s2 ?s3" "quit_step b ?s3 ?s4" "quit_step b ?s4 ?s5"
    using s sigint [of Main s] lock_exit [of ?s1] lock_stack [of ?s2] not_running [of ?s3] wait_exit [of ?s4]
    by simp_all
  have "s = s\<lparr>p_owner := None, p_exitOwner := None\<rparr>" using s by simp
  then have "?s5 = s\<lparr>p_quit := Q_wait, p_handler := Some Main, p_running := False\<rparr>" by (cases s) simp
  with reach_handler [OF reach_handler [OF reach_handler [OF reach_handler [OF reach_handler [OF r q(1)] q(2)] q(3)] q(4)] q(5)]
  show ?thesis by simp
qed

lemma reach_start_state: "reach pool_starts (pool_step b) pool_start"
  by (rule reach_start) (simp add: pool_starts_def)

lemma reach_quit: "reach pool_starts (pool_step b) (quit_waits 0)"
  using reach_wait [OF reach_start_state] by (simp add: start_simps POOLSIZE_def)

lemma reach_exited: "n \<le> POOLSIZE \<Longrightarrow> reach pool_starts (pool_step spurious) (quit_waits n)"
proof (induction n)
  case 0
  show ?case by (rule reach_quit)
next
  case (Suc n)
  let ?s = "quit_waits n" and ?t = "set_worker n W_incr (quit_waits n)"
  let ?u = "set_worker n W_done (incrExit (p_count ?t n) ?t)"
  have n: "n < POOLSIZE" and r0: "reach pool_starts (pool_step spurious) ?s" using Suc by simp_all
  have q1: "worker_step n ?s ?t" by (rule stop) (simp_all add: start_simps)
  have q2: "worker_step n ?t ?u" by (rule ended) (simp_all add: start_simps)
  note r1 = reach_worker [OF r0 n q1]
  have "?u = quit_waits (Suc n)" using n by (auto simp: start_simps fun_eq_iff)
  with reach_worker [OF r1 n q2] show ?case by simp
qed

text \<open>A connection is being pushed when the signal arrives.\<close>

definition push_interrupted :: pool where
  "push_interrupted = pool_start\<lparr>p_main := M_locked 7, p_accepted := {#7#}, p_owner := Some (Thread Main),
     p_quit := Q_stack, p_exitOwner := Some Handler, p_handler := Some Main\<rparr>"

lemma reach_push_interrupted: "reach pool_starts (pool_step spurious) push_interrupted"
proof -
  let ?s1 = "pool_start\<lparr>p_main := M_push 7, p_accepted := {#7#}\<rparr>"
  let ?s2 = "?s1\<lparr>p_main := M_locked 7, p_owner := Some (Thread Main)\<rparr>"
  let ?s3 = "?s2\<lparr>p_quit := Q_exit, p_handler := Some Main\<rparr>"
  let ?s4 = "?s3\<lparr>p_quit := Q_stack, p_exitOwner := Some Handler\<rparr>"
  note r0 = reach_start_state [of spurious]
  have q1: "main_step pool_start ?s1" using accept [of pool_start 7] by (simp add: start_simps)
  have q2: "main_step ?s1 ?s2" using push_lock [of ?s1 7] by (simp add: start_simps)
  have q3: "quit_step spurious ?s2 ?s3" using sigint [of Main ?s2] by (simp add: start_simps)
  have q4: "quit_step spurious ?s3 ?s4" using lock_exit [of ?s3] by (simp add: start_simps)
  note r1 = reach_main [OF r0 q1]
  note r2 = reach_main [OF r1 q2]
  note r3 = reach_handler [OF r2 q3]
  have "?s4 = push_interrupted" by (simp add: start_simps push_interrupted_def)
  with reach_handler [OF r3 q4] show ?thesis by simp
qed

text \<open>The first worker tests the stack.\<close>

definition worker_tests :: pool where
  "worker_tests = set_worker 0 W_test (pool_start\<lparr>p_owner := Some (Thread (Worker 0))\<rparr>)"

lemma reach_worker_tests: "reach pool_starts (pool_step spurious) worker_tests"
proof -
  let ?s1 = "set_worker 0 W_lock pool_start"
  note r0 = reach_start_state [of spurious]
  have q1: "worker_step 0 pool_start ?s1" using again [of 0 pool_start] by (simp add: start_simps)
  have q2: "worker_step 0 ?s1 worker_tests" using lock [of 0 ?s1] by (simp add: start_simps worker_tests_def)
  show ?thesis by (rule reach_worker [OF reach_worker [OF r0 _ q1] _ q2]) simp_all
qed

text \<open>The handler is woken after the last worker has ended.\<close>

definition quit_woken :: pool where
  "quit_woken = (quit_waits POOLSIZE)\<lparr>p_quit := Q_free, p_signalled := False, p_exitOwner := Some Handler\<rparr>"

lemma reach_quit_woken: "reach pool_starts (pool_step spurious) quit_woken"
proof (rule reach_handler)
  show "reach pool_starts (pool_step spurious) (quit_waits POOLSIZE)" by (rule reach_exited) simp
  show "quit_step spurious (quit_waits POOLSIZE) quit_woken"
    using woken [of "quit_waits POOLSIZE" spurious] by (simp add: start_simps quit_woken_def)
qed

section \<open>The handler in the thread that pushes\<close>

text \<open>The locks keep their invariant in every execution, spurious wakeups included.\<close>

interpretation locks: invariant_system pool_starts "pool_step spurious" locks_inv for spurious
proof
  show "pool_starts s \<Longrightarrow> locks_inv s" for s using pool_inv_start [of False] by (simp add: pool_starts_def pool_inv_def)
  show "locks_inv s \<Longrightarrow> pool_step spurious s t \<Longrightarrow> locks_inv t" for s t
    by (erule pool_step.cases) (auto intro: locks_main locks_worker locks_quit)
qed

text \<open>The main thread was interrupted while \<open>push\<close> holds the mutex.\<close>

definition stuck_in_push :: "int \<Rightarrow> pool \<Rightarrow> bool" where
  "stuck_in_push fd s \<longleftrightarrow> locks_inv s \<and> p_handler s = Some Main \<and> p_main s = M_locked fd \<and> p_quit s \<in> {Q_exit, Q_stack}"

definition starts_in_push :: "int \<Rightarrow> pool \<Rightarrow> bool" where
  "starts_in_push fd s \<longleftrightarrow> s = push_interrupted \<and> fd = 7"

lemma stuck_owner: "stuck_in_push fd s \<Longrightarrow> p_owner s = Some (Thread Main)"
  using lock_owner(1) [of s "Thread Main"] by (simp add: stuck_in_push_def holder_iff main_locked_def)

interpretation stuck: invariant_system "starts_in_push fd" "pool_step spurious" "stuck_in_push fd" for fd spurious
proof
  show "starts_in_push fd s \<Longrightarrow> stuck_in_push fd s" for s
    using locks.inv_reach [OF reach_push_interrupted [of False]]
    by (auto simp: starts_in_push_def stuck_in_push_def push_interrupted_def)
  show "stuck_in_push fd t" if "stuck_in_push fd s" "pool_step spurious s t" for s t
  proof -
    have "locks_inv t" using that locks.inv_step by (auto simp: stuck_in_push_def)
    moreover from that(2) have "p_handler t = Some Main \<and> p_main t = M_locked fd \<and> p_quit t \<in> {Q_exit, Q_stack}"
    proof (cases rule: pool_step.cases)
      case main
      then show ?thesis using that(1) by (cases rule: main_step.cases) (auto simp: stuck_in_push_def runs_def)
    next
      case (worker i)
      from worker(2) show ?thesis using that(1) by (cases rule: worker_step.cases) (auto simp: stuck_in_push_def)
    next
      case handler
      then show ?thesis using that(1) stuck_owner [OF that(1)]
        by (cases rule: quit_step.cases) (auto simp: stuck_in_push_def)
    qed
    ultimately show ?thesis by (simp add: stuck_in_push_def)
  qed
qed

section \<open>Properties\<close>

text \<open>C8: in every execution, also with spurious wakeups, as long as \<open>quit\<close> has not freed the stack: every
  connection that was accepted is either on the stack, or served by one worker, or about to be pushed,
  or was closed, and that exactly once; and no worker has dereferenced NULL or a freed node. Without
  spurious wakeups no worker does so later either.\<close>

theorem connections_conserved:
  assumes "reach pool_starts (pool_step spurious) s"
  shows "(p_quit s \<notin> {Q_freed, Q_over} \<longrightarrow> (\<forall>i<POOLSIZE. p_worker s i \<noteq> W_fault) \<and>
      (\<exists>ds. waiting (p_stack s) ds \<and> 0 \<notin> set ds \<and>
        p_accepted s = mset ds + (\<Sum>i<POOLSIZE. served_by (p_worker s i)) + p_closed s + pushed_by (p_main s))) \<and>
    (\<not> spurious \<longrightarrow> (\<forall>i<POOLSIZE. p_worker s i \<noteq> W_fault))"
proof -
  have inv: "pool_inv spurious s" by (rule pool.inv_reach [OF assms])
  then have "conn_inv s" by (simp add: pool_inv_def)
  then have "p_quit s \<notin> {Q_freed, Q_over} \<longrightarrow> workers_at faulty (p_worker s) = {} \<and> (\<exists>ds. balanced s ds)"
    by (auto simp: conn_inv_def freed_def)
  then show ?thesis using inv never_faulty by (auto simp: balanced_def serving_def workers_at_def faulty_def)
qed

theorem connections_conserved_witness:
  "p_worker push_interrupted 3 \<noteq> W_fault \<and>
   (\<exists>ds. waiting (p_stack push_interrupted) ds \<and> p_accepted push_interrupted = mset ds + {#7#})"
  using connections_conserved [OF reach_push_interrupted]
  by (auto simp: push_interrupted_def pool_start_def)

text \<open>\<open>stackMutex\<close> is exclusive: while a worker tests or takes from the stack, neither the main thread
  pushes, nor the handler clears \<open>running\<close>, nor another worker does.\<close>

theorem stack_exclusive:
  assumes "reach pool_starts (pool_step False) s" "i < POOLSIZE" "p_worker s i \<in> {W_test, W_check}"
  shows "p_owner s = Some (Thread (Worker i)) \<and> (\<forall>fd. p_main s \<noteq> M_locked fd) \<and> p_quit s \<noteq> Q_set \<and>
    (\<forall>j<POOLSIZE. p_worker s j \<in> {W_test, W_check} \<longrightarrow> j = i)"
proof -
  have inv: "locks_inv s" using pool.inv_reach [OF assms(1)] by (simp add: pool_inv_def)
  let ?H = "lock_holders (p_main s) (p_worker s) (p_quit s)"
  have "Thread (Worker i) \<in> ?H" using assms(2,3) by (auto simp: holder_iff workers_at_def locked_def)
  note own = lock_owner [OF inv this]
  have "j = i" if "j < POOLSIZE" "p_worker s j \<in> {W_test, W_check}" for j
  proof -
    have "Thread (Worker j) \<in> ?H" using that by (auto simp: holder_iff workers_at_def locked_def)
    then show ?thesis by (simp add: own(2))
  qed
  moreover have "\<not> main_locked (p_main s)" "p_quit s \<noteq> Q_set"
    using own(2) holder_iff(1,2) [of "p_main s" "p_worker s" "p_quit s"] by simp_all
  ultimately show ?thesis using own(1) by (auto simp: main_locked_def)
qed

theorem stack_exclusive_witness:
  "p_main worker_tests \<noteq> M_locked 7 \<and> p_quit worker_tests \<noteq> Q_set \<and> p_worker worker_tests 1 \<notin> {W_test, W_check}"
proof -
  have one: "1 < POOLSIZE" by (simp add: POOLSIZE_def)
  have "p_worker worker_tests 0 \<in> {W_test, W_check}" by (simp add: worker_tests_def)
  from stack_exclusive [OF reach_worker_tests POOLSIZE_pos this] one show ?thesis by (metis zero_neq_one)
qed

text \<open>C30: if the wait of \<open>quit\<close> does not wake up spuriously, the stack is freed and the process ended only
  after every worker has left its loop, and the number of requests that is printed then is the sum of
  theirs. After a spurious wakeup it is still the sum over those that have left.\<close>

theorem freed_after_all_exited:
  assumes "reach pool_starts (pool_step spurious) s" "p_quit s \<in> {Q_free, Q_freed, Q_over}"
  shows "p_exited s = card {i. i < POOLSIZE \<and> p_worker s i = W_done} \<and>
    p_serviced s = (\<Sum>i\<in>{i. i < POOLSIZE \<and> p_worker s i = W_done}. p_count s i) \<and>
    (\<not> spurious \<longrightarrow> (\<forall>i<POOLSIZE. p_worker s i = W_done) \<and> p_exited s = POOLSIZE \<and>
      p_serviced s = (\<Sum>i<POOLSIZE. p_count s i))"
proof -
  have inv: "phase_inv spurious s" using pool.inv_reach [OF assms(1)] by (simp add: pool_inv_def)
  have fin: "finished s = {i. i < POOLSIZE \<and> p_worker s i = W_done}" by (auto simp: workers_at_def is_done_def)
  have d: "\<forall>i<POOLSIZE. p_worker s i = W_done" if "\<not> spurious"
    using all_done [of s] inv that assms(2) by (auto simp: late_def)
  then have "{i. i < POOLSIZE \<and> p_worker s i = W_done} = {..<POOLSIZE}" if "\<not> spurious" using that by blast
  then show ?thesis using inv d unfolding phase_inv_def phase_ok_def fin by auto
qed

theorem freed_after_all_exited_witness:
  "p_worker quit_woken 0 = W_done \<and> p_exited quit_woken = POOLSIZE"
  using freed_after_all_exited [OF reach_quit_woken [of False]] by (simp add: quit_woken_def)

text \<open>C31: \<open>quit\<close> can deadlock with itself: when SIGINT interrupts the main thread while \<open>push\<close> holds
  \<open>stackMutex\<close>, the handler waits for the mutex for ever, and the stack is never unlocked again.\<close>

theorem quit_self_deadlock:
  assumes "reach pool_starts (pool_step spurious) s" "p_handler s = Some Main" "p_main s = M_locked fd"
    and "p_quit s \<in> {Q_exit, Q_stack}" and "steps (pool_step spurious) s t"
  shows "p_main t = M_locked fd \<and> p_owner t = Some (Thread Main) \<and> p_quit t \<in> {Q_exit, Q_stack}"
proof -
  have "stuck_in_push fd s" using assms(2-4) locks.inv_reach [OF assms(1)] by (simp add: stuck_in_push_def)
  from stuck.inv_steps [OF assms(5) this] have "stuck_in_push fd t" .
  then show ?thesis using stuck_owner by (auto simp: stuck_in_push_def)
qed

theorem quit_self_deadlock_witness:
  "reach pool_starts (pool_step True) push_interrupted \<and>
   \<not> (\<exists>t. steps (pool_step True) push_interrupted t \<and> (p_owner t = None \<or> p_quit t = Q_over))"
proof -
  have "p_owner t = Some (Thread Main) \<and> p_quit t \<in> {Q_exit, Q_stack}" if "steps (pool_step True) push_interrupted t" for t
    using quit_self_deadlock [OF reach_push_interrupted _ _ _ that, of 7] by (simp add: push_interrupted_def)
  then show ?thesis using reach_push_interrupted by force
qed



text \<open>C32: a spurious wakeup of \<open>quit\<close>, which POSIX allows, frees the stack while a worker is about to
  test it: the worker then reads a freed node.\<close>

theorem spurious_wakeup_use_after_free:
  "\<exists>s i. reach pool_starts (pool_step True) s \<and> i < POOLSIZE \<and> p_worker s i = W_fault"
proof -
  let ?w = "set_worker 0 W_lock pool_start"
  let ?s1 = "?w\<lparr>p_main := M_push 7, p_accepted := {#7#}\<rparr>"
  let ?s2 = "?s1\<lparr>p_main := M_locked 7, p_owner := Some (Thread Main)\<rparr>"
  let ?s3 = "?s2\<lparr>p_main := M_loop, p_owner := None, p_stack := push 7 no_requests\<rparr>"
  let ?s4 = "?s3\<lparr>p_quit := Q_wait, p_handler := Some Main, p_running := False\<rparr>"
  let ?s5 = "?s4\<lparr>p_quit := Q_free, p_signalled := False, p_exitOwner := Some Handler\<rparr>"
  let ?st = "(push 7 no_requests)\<lparr>snodes := \<lambda>_. None\<rparr>"
  let ?s6 = "?s5\<lparr>p_quit := Q_freed, p_stack := ?st\<rparr>"
  let ?s7 = "set_worker 0 W_test (?s6\<lparr>p_owner := Some (Thread (Worker 0))\<rparr>)"
  let ?R = "reach pool_starts (pool_step True)"
  note def = pool_start_def runs_def
  have q0: "worker_step 0 pool_start ?w" using again [of 0 pool_start] by (simp add: def)
  have q1: "main_step ?w ?s1" using accept [of ?w 7] by (simp add: def)
  have q2: "main_step ?s1 ?s2" using push_lock [of ?s1 7] by (simp add: def)
  have q3: "main_step ?s2 ?s3" using push_unlock [of ?s2 7] by (simp add: def)
  have "?R ?s3" by (rule reach_main [OF reach_main [OF reach_main [OF reach_worker [OF reach_start_state _ q0] q1] q2] q3]) simp
  then have r4: "?R ?s4" by (rule reach_wait) (simp_all add: def)
  have q5: "quit_step True ?s4 ?s5" using woken [of ?s4 True] by (simp add: def)
  have "freeAll_stack (push 7 no_requests) 1 = Some ?st"
    by (simp add: freeAll_stack.simps push_def no_requests_def free_stack_node_def fun_eq_iff)
  then have q6: "quit_step True ?s5 ?s6" using freeAll [of ?s5 ?st True] by (simp add: def push_def no_requests_def)
  have q7: "worker_step 0 ?s6 ?s7" using lock [of 0 ?s6] by (simp add: def)
  have "stackEmpty ?st = None" by (simp add: stackEmpty_def push_def no_requests_def)
  then have q8: "worker_step 0 ?s7 (set_worker 0 W_fault ?s7)" using test_fault [of 0 ?s7] by (simp add: def)
  from reach_worker [OF reach_worker [OF reach_handler [OF reach_handler [OF r4 q5] q6] _ q7] _ q8]
  show ?thesis by (intro exI [of _ "set_worker 0 W_fault ?s7"] exI [of _ 0]) simp
qed

end
