(* ===== verification/Pool_Live.thy ===== *)
theory Pool_Live
  imports Pool_Props
begin

text \<open>
  The shutdown can always be completed when SIGINT interrupts the main thread outside of the section
  that \<open>push\<close> locks: from every state of such a shutdown there is an execution to the end.
\<close>

section \<open>States of such a shutdown\<close>












section \<open>The mutex becomes free\<close>





section \<open>The handler comes to its wait\<close>






section \<open>The workers end\<close>











section \<open>The end\<close>





end
