(* ===== verification/Sharing.thy ===== *)
theory Sharing
  imports Worker_Spec
begin

text \<open>
  Two workers and one cache: what happens to a response that a worker is about to send from the cache
  when another worker stores one in between. \<open>cacheable\<close> returns a pointer into the cache, and
  \<open>cacheLock\<close> is only held inside of \<open>putKey\<close>.
\<close>

section \<open>The pointer that cacheable returns\<close>

lemma cacheable_hit:
  assumes "cacheable zone now h r UID = Some (HIT, p, lg)"
  obtains c n where "get h (URI r) = Some c" "c \<noteq> 0" "nodes h c = Some n" "p = nval n" "strs h p \<noteq> None"
  using assms by (auto simp: cacheable_def elim!: bind_SomeE split: if_splits option.splits)

lemma send_cached_live: "send_cached p w = None \<longleftrightarrow> strs (w_cache w) p = None"
proof (cases "strs (w_cache w) p")
  case (Some v)
  obtain rc m c where "writeall (w_client w) (v @ [NUL]) (length v) = Some (rc, m, c)"
    using writeall_spec [of "length v" "v @ [NUL]" "w_client w"] by auto
  with Some show ?thesis by (simp add: send_cached_def)
qed (simp add: send_cached_def)

lemma send_cached_client:
  "strs h p = strs (w_cache w) p \<Longrightarrow> map_option w_client (send_cached p (w\<lparr>w_cache := h\<rparr>)) = map_option w_client (send_cached p w)"
  by (cases "strs (w_cache w) p"; cases "writeall (w_client w) (the (strs (w_cache w) p) @ [NUL]) (length (the (strs (w_cache w) p)))")
    (auto simp: send_cached_def)

section \<open>Property\<close>

text \<open>C16: between the decision that a response is served from the cache and its sending, another worker may
  store a response: if it is one under another URI the client gets the same bytes as without it; if it
  is one under the same URI the bytes are freed, and the worker sends freed memory.\<close>

theorem cached_response_freed:
  assumes "cache_ok (w_cache w)" "cache_key (URI r)" "cache_key k"
    and "cacheable zone now (w_cache w) r UID = Some (HIT, p, lg)"
  shows "\<exists>h'. store_entry (w_cache w) k e = Some h' \<and> cache_ok h' \<and>
    (if k = URI r then send_cached p (w\<lparr>w_cache := h'\<rparr>) = None
     else send_cached p w \<noteq> None \<and>
       map_option w_client (send_cached p (w\<lparr>w_cache := h'\<rparr>)) = map_option w_client (send_cached p w))"
proof -
  obtain c n where c: "get (w_cache w) (URI r) = Some c" "c \<noteq> 0" "nodes (w_cache w) c = Some n"
    and p: "p = nval n" "strs (w_cache w) p \<noteq> None" using assms(4) by (rule cacheable_hit)
  obtain h' where h': "store_entry (w_cache w) k e = Some h'"
    "strs h' p = (if k = URI r then None else strs (w_cache w) p)"
    using store_blocks [OF assms(1,3,2) c, of e] p by auto
  then have "cache_ok h'" using store_then_get_lookup [OF assms(1,3), of e] by auto
  then show ?thesis using h' p(2)
    by (cases "k = URI r") (simp_all add: send_cached_live send_cached_client)
qed

definition lasting_page :: entry where
  "lasting_page = \<lparr>e_val = ''HTTP/1.1 200 OK'', e_host = ''h'', e_needs = 0, e_expiry = None, e_etag = None\<rparr>"

theorem cached_response_freed_witness:
  "\<exists>h p lg h'. store_entry empty_cache ''/'' lasting_page = Some h \<and>
    cacheable 0 1700000000 h sample_req ''7'' = Some (HIT, p, lg) \<and>
    store_entry h ''/'' lasting_page = Some h' \<and>
    send_cached p \<lparr>w_cache = h', w_logs = [], w_client = quiet_client, w_closed = 0, w_open = 0, w_server = None\<rparr> = None"
proof -
  have u: "URI sample_req = ''/''" by (simp add: sample_req_def)
  obtain h where h: "store_entry empty_cache ''/'' lasting_page = Some h" "cache_ok h"
    "get_entry h ''/'' = Some (Some lasting_page)"
    using store_then_get_lookup [OF cache_ok_empty cache_key_root, of lasting_page]
    by (auto simp: view_empty merge_entry_def)
  have v: "cache_view h (URI sample_req) = Some lasting_page" using get_entry_view [OF h(2) cache_key_root] h(3) by (simp add: u)
  have d: "decision 1700000000 (Some lasting_page) = HIT" "printable_expiry (Some lasting_page)"
    by (simp_all add: decision_def expired_at_def lasting_page_def printable_expiry_def)
  obtain c where c: "getCurrentTime 1700000000 = Some c"
    using gmtime_defined [of 1700000000] by (auto simp: getCurrentTime_def)
  have k: "cache_key (URI sample_req)" by (simp add: u cache_key_root)
  obtain p lg where hit: "cacheable 0 1700000000 h sample_req ''7'' = Some (HIT, p, lg)"
    using cacheable_decides [OF h(2) k c, of "''7''" 0] d by (auto simp: v)
  let ?w = "\<lparr>w_cache = h, w_logs = [], w_client = quiet_client, w_closed = 0, w_open = 0, w_server = None\<rparr>"
  from cached_response_freed [of ?w, OF _ k cache_key_root, of 0 1700000000 "''7''" p lg lasting_page] h(2) hit
  show ?thesis using h(1) by (auto simp: u)
qed

end
