(* ===== verification/Serve_Cache.thy ===== *)
theory Serve_Cache
  imports Closing Revalidate_Props
begin

text \<open>
  What serving a request does to the cache, on every path of \<open>serviceRequest\<close>: it stays a cache, and at
  most the entry of the URI that was asked for changes.
\<close>

section \<open>Changes of one entry\<close>

definition changes_only :: "string \<Rightarrow> heap \<Rightarrow> heap \<Rightarrow> bool" where
  "changes_only u h h' \<longleftrightarrow> (cache_ok h \<longrightarrow> cache_ok h' \<and> (\<forall>k. k \<noteq> u \<longrightarrow> cache_view h' k = cache_view h k) \<and>
     (cache_view h u \<noteq> None \<longrightarrow> cache_view h' u \<noteq> None) \<and> nodes_kept u h h')"

lemma changes_refl [simp]: "changes_only u h h"
  by (simp add: changes_only_def nodes_kept_refl)

lemma changes_trans: "changes_only u h h' \<Longrightarrow> changes_only u h' h'' \<Longrightarrow> changes_only u h h''"
  using nodes_kept_trans by (auto simp: changes_only_def)

lemma changes_dom:
  assumes "changes_only u h h'" "cache_ok h"
  shows "cache_ok h'" "dom (cache_view h) \<subseteq> dom (cache_view h')"
proof -
  have c: "cache_ok h'" "\<And>k. k \<noteq> u \<Longrightarrow> cache_view h' k = cache_view h k"
    "cache_view h u \<noteq> None \<Longrightarrow> cache_view h' u \<noteq> None" using assms by (simp_all add: changes_only_def)
  have "cache_view h' k \<noteq> None" if "cache_view h k \<noteq> None" for k
    using c(2) [of k] c(3) that by (cases "k = u") simp_all
  then show "cache_ok h'" "dom (cache_view h) \<subseteq> dom (cache_view h')" using c(1) by (auto simp: dom_def)
qed

lemma changes_store: "store_entry h u e = Some h' \<Longrightarrow> changes_only u h h'"
  using store_entry_keeps store_entry_nodes by (auto simp: changes_only_def)

lemma changes_replace:
  assumes "get h u = Some a" "a \<noteq> 0" "replace_cached h a nt v = Some h'"
  shows "changes_only u h h'"
  unfolding changes_only_def
proof
  assume "cache_ok h"
  then obtain bs where r: "rep h bs" by (auto simp: cache_ok_def)
  from r get_key [OF r assms(1)]
  show "cache_ok h' \<and> (\<forall>k. k \<noteq> u \<longrightarrow> cache_view h' k = cache_view h k) \<and> (cache_view h u \<noteq> None \<longrightarrow> cache_view h' u \<noteq> None) \<and> nodes_kept u h h'"
  proof (cases rule: rep_cases)
    case (hit b e)
    then have "b = a" using assms(1) by simp
    from replace_cached_spec [OF r hit(1-3) [unfolded this], of nt v] show ?thesis using assms(3) by auto
  next
    case miss
    then show ?thesis using assms(1,2) by simp
  qed
qed

section \<open>The parts that do not touch the cache\<close>

lemma say_cache: "say m w = Some w' \<Longrightarrow> w_cache w' = w_cache w"
  by (auto simp: say_def elim!: bind_SomeE)

lemma connect_cache: "connectToServer net r w = Some (s, w') \<Longrightarrow> w_cache w' = w_cache w"
  by (auto simp: connectToServer_def Let_def split: conn.splits)

lemma exit_cache [simp]: "w_cache (exitRequest w) = w_cache w"
  by (simp add: exitRequest_def)

lemma tunnel_cache: "tunnel_to UID srv w = Some w' \<Longrightarrow> w_cache w' = w_cache w"
  by (auto simp: tunnel_to_def Let_def elim!: bind_SomeE dest!: say_cache split: option.splits prod.splits tunnel_end.splits)

lemma forward_rest_cache: "forward_rest UID srv rq rb cb res w = Some (c, k, w') \<Longrightarrow> w_cache w' = w_cache w"
  by (auto simp: forward_rest_def Let_def elim!: bind_SomeE dest!: say_cache split: if_splits)

lemma log_cached_cache: "log_cached UID e w = Some w' \<Longrightarrow> w_cache w' = w_cache w"
  by (auto simp: log_cached_def elim!: bind_SomeE dest!: say_cache split: if_splits option.splits)

lemma send_cached_cache: "send_cached p w = Some w' \<Longrightarrow> w_cache w' = w_cache w"
  by (auto simp: send_cached_def elim!: bind_SomeE)

lemmas untouched = say_cache connect_cache tunnel_cache forward_rest_cache log_cached_cache send_cached_cache

section \<open>Forwarding and revalidation\<close>

lemma store_response_changes:
  assumes "store_response UID r cb info k w = Some w'"
  shows "changes_only (URI r) (w_cache w) (w_cache w')"
proof (cases "k = 0")
  case True
  then show ?thesis using assms by (simp add: store_response_def)
next
  case False
  then obtain e w1 where "log_cached UID e w = Some w1" "store_entry (w_cache w1) (URI r) e = Some (w_cache w')"
    using assms by (auto simp: store_response_def elim!: bind_SomeE)
  then show ?thesis using changes_store untouched by metis
qed

lemma forward_response_changes:
  "forward_response now UID r rq srv rb n w = Some w' \<Longrightarrow> changes_only (URI r) (w_cache w) (w_cache w')"
  by (auto simp: forward_response_eq Let_def elim!: bind_SomeE
      dest!: say_cache forward_rest_cache store_response_changes split: if_splits)

lemma forwardRequest_changes:
  assumes "forwardRequest net now junk r rq UID w = Some w'"
  shows "changes_only (URI r) (w_cache w) (w_cache w')"
proof -
  obtain w1 where w1: "say (UID @ '': Requesting '' @ reqLine r @ '' from '' @ host r) w = Some w1"
    using assms by (auto simp: forwardRequest_eq elim!: bind_SomeE)
  obtain s w2 where w2: "connectToServer net r w1 = Some (s, w2)"
    using assms w1 by (auto simp: forwardRequest_eq elim!: bind_SomeE)
  have c: "w_cache w2 = w_cache w" using say_cache [OF w1] connect_cache [OF w2] by simp
  show ?thesis using assms w1 w2 c
    by (auto simp: forwardRequest_eq Let_def elim!: bind_SomeE
        dest!: tunnel_cache forward_response_changes split: option.splits if_splits sum.splits)
qed

lemma answer_cache:
  assumes "revalidation_answer a srv b n w = Some (k, w')"
  shows "w_cache w' = w_cache w \<or> k = 1 \<and> (\<exists>nt v. replace_cached (w_cache w) a nt v = Some (w_cache w'))"
  using assms by (auto simp: revalidation_answer_eq Let_def elim!: bind_SomeE split: if_splits) blast+

lemma getRevalidation_changes:
  assumes "getRevalidation net r u w = Some (k, w')"
  shows "changes_only u (w_cache w) (w_cache w')"
proof -
  obtain a where a: "get (w_cache w) u = Some a" using assms by (auto simp: getRevalidation_eq elim!: bind_SomeE)
  have "w_cache w' = w_cache w \<or> a \<noteq> 0 \<and> (\<exists>nt v. replace_cached (w_cache w) a nt v = Some (w_cache w'))"
    using assms a
    by (auto simp: getRevalidation_eq Let_def elim!: bind_SomeE dest!: connect_cache answer_cache
        split: if_splits option.splits sum.splits)
  then show ?thesis using changes_replace [OF a] by auto
qed

section \<open>Serving\<close>

lemma serve_decided_changes:
  assumes "serve_decided e UID r rq res p w = Some w'"
  shows "changes_only (URI r) (w_cache w) (w_cache w')"
proof (cases res)
  case REVALIDATE
  obtain w1 k w2 where w1: "say (UID @ '': in cache, requires validation'') w = Some w1"
    and w2: "getRevalidation (e_net e) r (URI r) w1 = Some (k, w2)"
    using assms REVALIDATE by (auto simp: serve_decided_def elim!: bind_SomeE)
  have "changes_only (URI r) (w_cache w) (w_cache w2)"
    using getRevalidation_changes [OF w2] say_cache [OF w1] by simp
  moreover have "changes_only (URI r) (w_cache w2) (w_cache w')" using assms REVALIDATE w1 w2
    by (auto simp: serve_decided_def elim!: bind_SomeE dest!: send_cached_cache forwardRequest_changes split: if_splits)
  ultimately show ?thesis by (rule changes_trans)
qed (use assms in \<open>auto simp: serve_decided_def elim!: bind_SomeE
  dest!: say_cache send_cached_cache forwardRequest_changes split: if_splits\<close>)

lemma serve_parsed_changes:
  "serve_parsed e UID r rq w = Some w' \<Longrightarrow> changes_only (URI r) (w_cache w) (w_cache w')"
  by (auto simp: serve_parsed_def elim!: bind_SomeE dest!: serve_decided_changes)

lemma receive_cache:
  "receive e t n w = Some (Inl w') \<Longrightarrow> w_cache w' = w_cache w"
  "receive e t n w = Some (Inr (UID, r, rq, w')) \<Longrightarrow> w_cache w' = w_cache w"
  by (auto simp: receive_def Let_def elim!: bind_SomeE split: sum.splits option.splits)

lemma receive_server:
  "receive e t n w = Some (Inl w') \<Longrightarrow> w_server w' = w_server w"
  "receive e t n w = Some (Inr (UID, r, rq, w')) \<Longrightarrow> w_server w' = w_server w"
  by (auto simp: receive_def exitRequest_def Let_def elim!: bind_SomeE split: sum.splits option.splits)

text \<open>The request that a worker reads and parses, if it gets that far.\<close>

definition requested :: "env \<Rightarrow> int \<Rightarrow> int \<Rightarrow> world \<Rightarrow> ReqInfo option" where
  "requested e threadId requestsServiced w = (case receive e threadId requestsServiced w of
       Some (Inr (UID, req, request, w)) \<Rightarrow> Some req
     | _ \<Rightarrow> None)"

lemma serve_request_changes:
  assumes "serve_request e t n w = Some w'"
  shows "case requested e t n w of None \<Rightarrow> w_cache w' = w_cache w | Some r \<Rightarrow> changes_only (URI r) (w_cache w) (w_cache w')"
proof -
  obtain r where r: "receive e t n w = Some r" using assms by (auto simp: serve_request_def elim!: bind_SomeE)
  show ?thesis
  proof (cases r)
    case (Inl w1)
    then show ?thesis using assms r receive_cache(1) [of e t n w w1] by (simp add: serve_request_def requested_def)
  next
    case (Inr p)
    obtain UID q rq w1 where p: "p = (UID, q, rq, w1)" by (cases p) auto
    have "receive e t n w = Some (Inr (UID, q, rq, w1))" using r Inr p by simp
    moreover from this have "serve_parsed e UID q rq w1 = Some w'" using assms by (simp add: serve_request_def)
    ultimately show ?thesis using receive_cache(2) serve_parsed_changes by (fastforce simp: requested_def)
  qed
qed

lemma serve_request_keeps:
  assumes "cache_ok (w_cache w)" "serve_request e t n w = Some w'"
  shows "cache_ok (w_cache w') \<and> dom (cache_view (w_cache w)) \<subseteq> dom (cache_view (w_cache w')) \<and>
    (\<forall>k. k \<notin> URI ` set_option (requested e t n w) \<longrightarrow> cache_view (w_cache w') k = cache_view (w_cache w) k)"
proof (cases "requested e t n w")
  case None
  then show ?thesis using serve_request_changes [OF assms(2)] assms(1) by simp
next
  case (Some r)
  then have c: "changes_only (URI r) (w_cache w) (w_cache w')" using serve_request_changes [OF assms(2)] by simp
  then show ?thesis using changes_dom [OF c assms(1)] Some assms(1) by (auto simp: changes_only_def)
qed

section \<open>Property\<close>

text \<open>C3: whatever the client sends, the server answers and the sockets do: a request that is served without
  a fault leaves the cache well-formed (every chain ends, every node is in the bucket of its key and
  owns its blocks alone), evicts nothing, and changes no entry but the one of the URI it asks for.\<close>

theorem serve_keeps_cache:
  assumes "cache_ok (w_cache w)" "serve_request e t n w = Some w'"
  shows "cache_ok (w_cache w') \<and> dom (cache_view (w_cache w)) \<subseteq> dom (cache_view (w_cache w')) \<and>
    (\<forall>k. k \<notin> URI ` set_option (requested e t n w) \<longrightarrow> cache_view (w_cache w') k = cache_view (w_cache w) k)"
  by (rule serve_request_keeps [OF assms])

theorem serve_keeps_cache_witness:
  "\<exists>w. serve_request (sample_env (sample_net (page_text 60 ''hello'')) 1700000000) 1 7
      (sample_world (sample_client ''/'' ''a'')) = Some w \<and> cache_ok (w_cache w)"
proof -
  obtain w where w: "serve_request (sample_env (sample_net (page_text 60 ''hello'')) 1700000000) 1 7
      (sample_world (sample_client ''/'' ''a'')) = Some w" by (rule sample_served)
  have "cache_ok (w_cache (sample_world (sample_client ''/'' ''a'')))" by (simp add: sample_world_def cache_ok_empty)
  from serve_keeps_cache [OF this w] w show ?thesis by blast
qed

end
