(* ===== verification/Jobs.thy ===== *)
theory Jobs
  imports Serve_Cache
begin

text \<open>
  \<open>serviceRequest\<close> in pieces: between two of them other workers may change the cache. A worker works on
  the cache when it looks its URI up, when it reads the tag for a revalidation, when it replaces the
  tag, when it puts a response, and when it sends a cached one; all its waiting for the client and the
  server lies between. What it keeps in its variables meanwhile is a \<open>looked\<close>.
\<close>

section \<open>The pieces\<close>

text \<open>
  What is left to do: all that follows \<open>cacheable\<close>; the answer of the server to a revalidation; the new
  tag, then the new text for a node; to send the cached response after a 304; to forward the request; to
  store what was forwarded.
\<close>

datatype job =
    J_decided cacheResult nat
  | J_asked nat sock cbuf nat nat
  | J_relayed nat "string option" string
  | J_tagged nat string
  | J_send nat
  | J_forward
  | J_fetched fetched

record looked =
  lk_UID :: string
  lk_req :: ReqInfo
  lk_request :: cbuf
  lk_job :: job

definition look_up :: "env \<Rightarrow> int \<Rightarrow> int \<Rightarrow> world \<Rightarrow> (looked option \<times> world) option" where
  "look_up e threadId requestsServiced w = do {
     r \<leftarrow> receive e threadId requestsServiced w;
     (case r of
        Inl w \<Rightarrow> Some (None, w)
      | Inr (UID, req, request, w) \<Rightarrow> do {
          (cacheRes, cachedData, lg) \<leftarrow> cacheable (e_zone e) (e_now e) (w_cache w) req UID;
          Some (Some \<lparr>lk_UID = UID, lk_req = req, lk_request = request, lk_job = J_decided cacheRes cachedData\<rparr>,
            w\<lparr>w_logs := w_logs w @ lg\<rparr>) }) }"

text \<open>After \<open>getRevalidation\<close> has returned.\<close>

definition revalidated :: "int \<Rightarrow> nat \<Rightarrow> world \<Rightarrow> job option \<times> world" where
  "revalidated revalidationResult cachedData w =
     (if revalidationResult = 0 then (Some (J_send cachedData), w)
      else if revalidationResult > 0 then (None, exitRequest w)
      else if revalidationResult = REVALIDATION_INFO_MISSING then (Some J_forward, w)
      else (None, exitRequest w))"

fun job_step :: "env \<Rightarrow> string \<Rightarrow> ReqInfo \<Rightarrow> cbuf \<Rightarrow> job \<Rightarrow> world \<Rightarrow> (job option \<times> world) option" where
  "job_step e UID req request (J_decided HIT cachedData) w = do {
     w \<leftarrow> say (UID @ '': in cache, valid'') w;
     w \<leftarrow> send_cached cachedData w;
     Some (None, exitRequest w) }"
| "job_step e UID req request (J_decided REVALIDATE cachedData) w = do {
     w \<leftarrow> say (UID @ '': in cache, requires validation'') w;
     (r, w) \<leftarrow> ask_server (e_net e) req (URI req) w;
     (case r of
        Inl k \<Rightarrow> Some (revalidated k cachedData w)
      | Inr (node, srv, hdrs, totalRead) \<Rightarrow> Some (Some (J_asked node srv hdrs totalRead cachedData), w)) }"
| "job_step e UID req request (J_decided MISS cachedData) w = do {
     w \<leftarrow> say (UID @ '': not in cache'') w;
     Some (Some J_forward, w) }"
| "job_step e UID req request (J_decided EXPIRED cachedData) w = Some (Some J_forward, w)"
| "job_step e UID req request (J_asked node srv hdrs totalRead cachedData) w = do {
     (r, w) \<leftarrow> relay_answer srv hdrs totalRead w;
     (case r of
        Inl k \<Rightarrow> Some (revalidated k cachedData w)
      | Inr (newETag, v) \<Rightarrow> Some (Some (J_relayed node newETag v), w)) }"
| "job_step e UID req request (J_relayed node newETag v) w = do {
     h \<leftarrow> set_tag (w_cache w) node newETag;
     Some (Some (J_tagged node v), w\<lparr>w_cache := h\<rparr>) }"
| "job_step e UID req request (J_tagged node v) w = do {
     h \<leftarrow> put_back (w_cache w) node v;
     Some (revalidated 1 0 (w\<lparr>w_cache := h\<rparr>)) }"
| "job_step e UID req request (J_send cachedData) w = do {
     w \<leftarrow> send_cached cachedData w;
     Some (None, exitRequest w) }"
| "job_step e UID req request J_forward w = do {
     (r, w) \<leftarrow> forward_fetch (e_net e) (e_now e) (e_junk e) req request UID w;
     Some (map_option J_fetched r, w) }"
| "job_step e UID req request (J_fetched r) w = do {
     w \<leftarrow> forward_end UID req (Some r) w;
     Some (None, w) }"

definition act :: "env \<Rightarrow> looked \<Rightarrow> world \<Rightarrow> (looked option \<times> world) option" where
  "act e l w = do {
     (j, w) \<leftarrow> job_step e (lk_UID l) (lk_req l) (lk_request l) (lk_job l) w;
     Some (map_option (\<lambda>j. l\<lparr>lk_job := j\<rparr>) j, w) }"

section \<open>The pieces and the whole\<close>

text \<open>One after the other, in the same environment and without other steps in between, the pieces are the
  whole. Four are enough after the lookup.\<close>

primrec act_all :: "nat \<Rightarrow> env \<Rightarrow> looked option \<Rightarrow> world \<Rightarrow> world option" where
  "act_all 0 e l w = (if l = None then Some w else None)"
| "act_all (Suc n) e l w = (case l of None \<Rightarrow> Some w | Some l \<Rightarrow> do { (l, w) \<leftarrow> act e l w; act_all n e l w })"

lemma act_all_None [simp]: "act_all n e None w = Some w"
  by (cases n) simp_all

definition go_on :: "nat \<Rightarrow> env \<Rightarrow> looked \<Rightarrow> job option \<times> world \<Rightarrow> world option" where
  "go_on n e l r = (case r of (j, w) \<Rightarrow> act_all n e (map_option (\<lambda>j. l\<lparr>lk_job := j\<rparr>) j) w)"

lemma act_all_job:
  "act_all (Suc n) e (Some (l\<lparr>lk_job := j\<rparr>)) w = job_step e (lk_UID l) (lk_req l) (lk_request l) j w \<bind> go_on n e l"
  by (cases "job_step e (lk_UID l) (lk_req l) (lk_request l) j w") (auto simp: act_def go_on_def)

lemma go_on_simps [simp]:
  "go_on n e l (None, w) = Some w" "go_on n e l (Some j, w) = act_all n e (Some (l\<lparr>lk_job := j\<rparr>)) w"
  by (simp_all add: go_on_def)

lemma go_on_forward:
  "act_all (Suc (Suc n)) e (Some (l\<lparr>lk_job := J_forward\<rparr>)) w =
    forwardRequest (e_net e) (e_now e) (e_junk e) (lk_req l) (lk_request l) (lk_UID l) w"
proof -
  have "go_on (Suc n) e l (map_option J_fetched r, w) = forward_end (lk_UID l) (lk_req l) r w" for r w
    by (cases r) (auto simp: act_all_job simp del: act_all.simps split: Option.bind_splits)
  then show ?thesis
    by (auto simp: act_all_job forwardRequest_def simp del: act_all.simps split: Option.bind_splits)
qed

definition after_revalidation :: "env \<Rightarrow> looked \<Rightarrow> nat \<Rightarrow> int \<Rightarrow> world \<Rightarrow> world option" where
  "after_revalidation e l p k w =
     (if k = 0 then do { w \<leftarrow> send_cached p w; Some (exitRequest w) }
      else if k > 0 then Some (exitRequest w)
      else if k = REVALIDATION_INFO_MISSING
      then forwardRequest (e_net e) (e_now e) (e_junk e) (lk_req l) (lk_request l) (lk_UID l) w
      else Some (exitRequest w))"

lemma go_on_revalidated: "go_on (Suc (Suc n)) e l (revalidated k p w) = after_revalidation e l p k w"
proof -
  have "act_all (Suc (Suc n)) e (Some (l\<lparr>lk_job := J_send p\<rparr>)) w = do { w \<leftarrow> send_cached p w; Some (exitRequest w) }"
    by (auto simp: act_all_job simp del: act_all.simps split: Option.bind_splits)
  then show ?thesis by (simp add: revalidated_def after_revalidation_def go_on_forward del: act_all.simps)
qed

lemma go_on_relayed:
  "act_all (Suc (Suc n)) e (Some (l\<lparr>lk_job := J_relayed node t v\<rparr>)) w =
    do { h \<leftarrow> replace_cached (w_cache w) node t v; Some (exitRequest (w\<lparr>w_cache := h\<rparr>)) }"
  by (auto simp: act_all_job replace_cached_def revalidated_def simp del: act_all.simps split: Option.bind_splits)

lemma go_on_asked:
  "act_all (Suc (Suc (Suc n))) e (Some (l\<lparr>lk_job := J_asked node srv hdrs k p\<rparr>)) w =
    do { (r, w) \<leftarrow> revalidation_answer node srv hdrs k w; after_revalidation e l p r w }"
proof (cases "relay_answer srv hdrs k w")
  case None
  then show ?thesis by (simp add: act_all_job revalidation_answer_def del: act_all.simps)
next
  case (Some r)
  then obtain s v where r: "relay_answer srv hdrs k w = Some (s, v)" by (cases r) simp
  have one: "after_revalidation e l p 1 w = Some (exitRequest w)" for w by (simp add: after_revalidation_def)
  show ?thesis
  proof (cases s)
    case (Inl c)
    then show ?thesis using r by (simp add: act_all_job revalidation_answer_def go_on_revalidated del: act_all.simps)
  next
    case (Inr tv)
    then obtain t x where "s = Inr (t, x)" by (cases tv) simp
    then show ?thesis using r
      by (cases "replace_cached (w_cache v) node t x")
        (simp_all add: act_all_job [where j = "J_asked node srv hdrs k p"] revalidation_answer_def go_on_relayed one del: act_all.simps)
  qed
qed

lemma decided_jobs:
  "act_all (Suc (Suc (Suc (Suc n)))) e (Some (l\<lparr>lk_job := J_decided res p\<rparr>)) w =
    serve_decided e (lk_UID l) (lk_req l) (lk_request l) res p w"
proof (cases res)
  case HIT
  then show ?thesis by (auto simp: act_all_job serve_decided_def simp del: act_all.simps split: Option.bind_splits)
next
  case REVALIDATE
  have "serve_decided e (lk_UID l) (lk_req l) (lk_request l) res p w = do {
      w \<leftarrow> say (lk_UID l @ '': in cache, requires validation'') w;
      (r, w) \<leftarrow> getRevalidation (e_net e) (lk_req l) (URI (lk_req l)) w;
      after_revalidation e l p r w }"
    by (simp add: REVALIDATE serve_decided_def after_revalidation_def)
  also have "\<dots> = act_all (Suc (Suc (Suc (Suc n)))) e (Some (l\<lparr>lk_job := J_decided res p\<rparr>)) w"
  proof (cases "say (lk_UID l @ '': in cache, requires validation'') w")
    case (Some w1)
    show ?thesis
    proof (cases "ask_server (e_net e) (lk_req l) (URI (lk_req l)) w1")
      case None
      then show ?thesis using Some by (simp add: REVALIDATE act_all_job getRevalidation_def del: act_all.simps)
    next
      case (Some r)
      then obtain s v where r: "ask_server (e_net e) (lk_req l) (URI (lk_req l)) w1 = Some (s, v)" by (cases r) simp
      then show ?thesis
      proof (cases s)
        case (Inl c)
        then show ?thesis using r \<open>say _ _ = Some w1\<close>
          by (simp add: REVALIDATE act_all_job getRevalidation_def go_on_revalidated del: act_all.simps)
      next
        case (Inr q)
        then obtain a srv hdrs k where "s = Inr (a, srv, hdrs, k)" by (cases q) simp
        then show ?thesis using r \<open>say _ _ = Some w1\<close>
          by (simp add: REVALIDATE act_all_job [where n = "Suc (Suc (Suc n))"] getRevalidation_def go_on_asked del: act_all.simps)
      qed
    qed
  qed (simp add: REVALIDATE act_all_job del: act_all.simps)
  finally show ?thesis by simp
next
  case MISS
  then show ?thesis
    by (auto simp: act_all_job [where j = "J_decided MISS p"] serve_decided_def go_on_forward simp del: act_all.simps
        split: Option.bind_splits)
next
  case EXPIRED
  then show ?thesis
    by (auto simp: act_all_job [where j = "J_decided EXPIRED p"] serve_decided_def go_on_forward simp del: act_all.simps)
qed

lemma serve_request_jobs:
  "serve_request e t n w = do { (l, w) \<leftarrow> look_up e t n w; act_all 4 e l w }"
proof -
  have "serve_parsed e UID r rq w = do {
      (res, p, lg) \<leftarrow> cacheable (e_zone e) (e_now e) (w_cache w) r UID;
      act_all 4 e (Some \<lparr>lk_UID = UID, lk_req = r, lk_request = rq, lk_job = J_decided res p\<rparr>) (w\<lparr>w_logs := w_logs w @ lg\<rparr>) }"
    for UID r rq w
    using decided_jobs [where n = 0 and e = e and l = "\<lparr>lk_UID = UID, lk_req = r, lk_request = rq, lk_job = J_forward\<rparr>"]
    by (auto simp: serve_parsed_def numeral_eq_Suc simp del: act_all.simps split: Option.bind_splits)
  then show ?thesis
    by (auto simp: serve_request_def look_up_def simp del: act_all.simps split: Option.bind_splits sum.splits)
qed

section \<open>What a piece does to the cache and to the connection\<close>

text \<open>The node that is kept for a revalidation, from the request to the server to \<open>put\<close>. All pieces
  but the first of them get it from an earlier one: it has to be the node of the URI all the time.\<close>

fun job_node :: "job \<Rightarrow> nat option" where
  "job_node (J_asked a srv hdrs k p) = Some a"
| "job_node (J_relayed a t v) = Some a"
| "job_node (J_tagged a v) = Some a"
| "job_node _ = None"

definition job_ok :: "heap \<Rightarrow> looked \<Rightarrow> bool" where
  "job_ok h l \<longleftrightarrow> (\<forall>a. job_node (lk_job l) = Some a \<longrightarrow> get h (URI (lk_req l)) = Some a \<and> a \<noteq> 0)"

text \<open>The pieces that write to the cache.\<close>

fun stores :: "job \<Rightarrow> bool" where
  "stores (J_relayed a t v) = True"
| "stores (J_tagged a v) = True"
| "stores (J_fetched (cacheBuff, info, canCache)) = (canCache \<noteq> 0)"
| "stores _ = False"

text \<open>Those that do not leave it as it is. The connection is closed once, when nothing remains to be done.\<close>

lemma say_kept: "say m w = Some w' \<Longrightarrow> w_cache w' = w_cache w \<and> w_closed w' = w_closed w"
  by (simp add: say_cache say_books)

lemma send_cached_kept: "send_cached p w = Some w' \<Longrightarrow> w_cache w' = w_cache w \<and> w_closed w' = w_closed w"
  by (simp add: send_cached_cache send_cached_books)

lemma connect_kept: "connectToServer net r w = Some (s, w') \<Longrightarrow> w_cache w' = w_cache w \<and> w_closed w' = w_closed w"
  by (simp add: connect_cache connect_books)

lemma tunnel_kept: "tunnel_to UID srv w = Some w' \<Longrightarrow> w_cache w' = w_cache w \<and> w_closed w' = Suc (w_closed w)"
  by (simp add: tunnel_cache tunnel_books)

lemma forward_rest_kept:
  "forward_rest UID srv rq rb cb res w = Some (c, k, w') \<Longrightarrow> w_cache w' = w_cache w \<and> w_closed w' = w_closed w"
  by (simp add: forward_rest_cache forward_rest_books)

lemma forward_body_kept:
  assumes "forward_body now UID r rq srv rb n w = Some (f, w')"
  shows "w_cache w' = w_cache w \<and> w_closed w' = w_closed w + (if f = None then 1 else 0)"
  using assms
  by (auto simp: forward_body_def Let_def elim!: bind_SomeE dest!: say_kept forward_rest_kept split: if_splits)

lemma forward_fetch_kept:
  assumes "forward_fetch net now junk r rq UID w = Some (f, w')"
  shows "w_cache w' = w_cache w \<and> w_closed w' = w_closed w + (if f = None then 1 else 0)"
proof -
  obtain w1 where w1: "say (UID @ '': Requesting '' @ reqLine r @ '' from '' @ host r) w = Some w1"
    using assms by (auto simp: forward_fetch_def elim!: bind_SomeE)
  obtain s w2 where w2: "connectToServer net r w1 = Some (s, w2)"
    using assms w1 by (auto simp: forward_fetch_def elim!: bind_SomeE)
  have c: "w_cache w2 = w_cache w" "w_closed w2 = w_closed w" using say_kept [OF w1] connect_kept [OF w2] by simp_all
  show ?thesis using assms w1 w2 c
    by (auto simp: forward_fetch_def Let_def elim!: bind_SomeE
        dest!: tunnel_kept forward_body_kept split: option.splits if_splits sum.splits)
qed

lemma ask_server_kept:
  assumes "ask_server net r u w = Some (q, w')"
  shows "w_cache w' = w_cache w \<and> w_closed w' = w_closed w \<and>
    (\<forall>a srv hdrs k. q = Inr (a, srv, hdrs, k) \<longrightarrow> get (w_cache w) u = Some a \<and> a \<noteq> 0)"
  using assms
  by (auto simp: ask_server_def Let_def elim!: bind_SomeE dest!: connect_kept split: if_splits option.splits sum.splits)

lemma relay_answer_kept:
  "relay_answer srv hdrs k w = Some (q, w') \<Longrightarrow> w_cache w' = w_cache w \<and> w_closed w' = w_closed w"
  by (auto simp: relay_answer_def Let_def elim!: bind_SomeE split: if_splits)

lemma revalidated_kept:
  assumes "revalidated k p w = (j, w')"
  shows "w_cache w' = w_cache w \<and> w_closed w' = w_closed w + (if j = None then 1 else 0) \<and> (j = None \<or> job_node (the j) = None)"
  using assms by (auto simp: revalidated_def split: if_splits)

lemma forward_end_kept:
  assumes "forward_end UID r (Some f) w = Some w'"
  shows "changes_only (URI r) (w_cache w) (w_cache w') \<and> w_closed w' = Suc (w_closed w) \<and>
    (\<not> stores (J_fetched f) \<longrightarrow> w_cache w' = w_cache w)"
proof -
  obtain cb info k where f: "f = (cb, info, k)" by (cases f) auto
  obtain w1 where w1: "store_response UID r cb info k w = Some w1" "w' = exitRequest w1"
    using assms f by (auto elim!: bind_SomeE)
  show ?thesis using store_response_changes [OF w1(1)] store_response_books [OF w1(1)] w1 f
    by (auto simp: store_response_def)
qed

lemma job_step_kept:
  assumes "job_step e UID r rq j w = Some (j', w')"
  shows "w_closed w' = w_closed w + (if j' = None then 1 else 0)" (is ?closed)
    "\<not> stores j \<longrightarrow> w_cache w' = w_cache w" (is ?cache)
    "\<forall>b a. j' = Some b \<longrightarrow> job_node b = Some a \<longrightarrow> job_node j = Some a \<or> get (w_cache w) (URI r) = Some a \<and> a \<noteq> 0" (is ?node)
proof -
  have "?closed \<and> ?cache \<and> ?node"
  proof (cases j)
    case (J_decided res p)
    show ?thesis
      using assms J_decided
      by (cases res) (auto elim!: bind_SomeE dest!: say_kept send_cached_kept ask_server_kept revalidated_kept split: sum.splits if_splits)
  next
    case (J_asked a srv hdrs k p)
    then show ?thesis using assms
      by (auto elim!: bind_SomeE dest!: relay_answer_kept revalidated_kept split: sum.splits if_splits)
  next
    case (J_relayed a t v)
    then show ?thesis using assms by (auto elim!: bind_SomeE)
  next
    case (J_tagged a v)
    then show ?thesis using assms by (auto simp: revalidated_def elim!: bind_SomeE)
  next
    case (J_send p)
    then show ?thesis using assms by (auto elim!: bind_SomeE dest!: send_cached_kept)
  next
    case J_forward
    then show ?thesis using assms by (auto elim!: bind_SomeE dest!: forward_fetch_kept)
  next
    case (J_fetched f)
    then have "forward_end UID r (Some f) w = Some w'" "j' = None" using assms by (auto elim!: bind_SomeE)
    then show ?thesis using forward_end_kept [of UID r f w w'] J_fetched by simp
  qed
  then show ?closed ?cache ?node by simp_all
qed

text \<open>Those that write find their node, whatever was done to the cache meanwhile, and change its entry only.\<close>

lemma write_at_node:
  assumes "cache_ok h" "get h u = Some a" "a \<noteq> 0"
    and spec: "\<And>bs e. rep h bs \<Longrightarrow> a \<in> cells bs \<Longrightarrow> keystr h a = Some u \<Longrightarrow> entry_of h a = Some e \<Longrightarrow>
      \<exists>h'. f h = Some h' \<and> cache_ok h' \<and> cache_view h' = (cache_view h)(u \<mapsto> g e) \<and> nodes_kept u h h'"
  shows "\<exists>h'. f h = Some h' \<and> changes_only u h h' \<and> cache_view h' u = map_option g (cache_view h u)"
proof -
  obtain bs where r: "rep h bs" using assms(1) by (auto simp: cache_ok_def)
  from r get_key [OF r assms(2)] show ?thesis
  proof (cases rule: rep_cases)
    case (hit b e)
    then have "b = a" using assms(2) by simp
    then have "cache_view h u = Some e" using view_iff [OF r] hit(1-3) by blast
    then show ?thesis using spec [OF r] hit(1-3) \<open>b = a\<close> by (fastforce simp: changes_only_def)
  next
    case miss
    then show ?thesis using assms(2,3) by simp
  qed
qed

definition with_tag :: "string option \<Rightarrow> entry \<Rightarrow> entry" where
  "with_tag t e = (case t of None \<Rightarrow> e | Some x \<Rightarrow> e\<lparr>e_etag := Some x\<rparr>)"

lemma tag_written:
  assumes "cache_ok h" "get h u = Some a" "a \<noteq> 0"
  shows "\<exists>h'. set_tag h a t = Some h' \<and> changes_only u h h' \<and> cache_view h' u = map_option (with_tag t) (cache_view h u)"
proof (rule write_at_node [OF assms])
  fix bs e assume a: "rep h bs" "a \<in> cells bs" "keystr h a = Some u" "entry_of h a = Some e"
  have "e\<lparr>e_etag := (case t of None \<Rightarrow> e_etag e | Some x \<Rightarrow> Some x)\<rparr> = with_tag t e"
    by (simp add: with_tag_def split: option.split)
  then obtain h' where h': "set_tag h a t = Some h'" "rep h' bs" "cache_view h' = (cache_view h)(u \<mapsto> with_tag t e)" "nodes_kept u h h'"
    using set_tag_spec [OF a, of t] by metis
  moreover have "cache_ok h'" using h'(2) rep_brk [OF h'(2) a(2)] by (auto simp: cache_ok_def)
  ultimately show "\<exists>h'. set_tag h a t = Some h' \<and> cache_ok h' \<and> cache_view h' = (cache_view h)(u \<mapsto> with_tag t e) \<and> nodes_kept u h h'"
    by blast
qed

lemma value_written:
  assumes "cache_ok h" "get h u = Some a" "a \<noteq> 0"
  shows "\<exists>h'. put_back h a v = Some h' \<and> changes_only u h h' \<and>
    cache_view h' u = map_option (\<lambda>e. e\<lparr>e_val := v\<rparr>) (cache_view h u)"
  by (rule write_at_node [OF assms]) (use put_back_spec in blast)

text \<open>Two workers that revalidate the same entry: the tag that remains may be that of one server answer and
  the text that of the other.\<close>

lemma answers_cross:
  assumes "cache_ok h" "get h u = Some a" "a \<noteq> 0" "cache_view h u = Some e"
  shows "\<exists>h'. (do { h \<leftarrow> set_tag h a (Some t1); h \<leftarrow> set_tag h a (Some t2); h \<leftarrow> put_back h a v2; put_back h a v1 }) = Some h' \<and>
    cache_view h' u = Some (e\<lparr>e_val := v1, e_etag := Some t2\<rparr>)"
proof -
  have on: "cache_ok h' \<and> get h' u = Some a" if "changes_only u h h'" "cache_ok h" "get h u = Some a" for h h'
    using that node_stays [of u h h' u a] assms(3) by (simp add: changes_only_def)
  obtain h1 where h1: "set_tag h a (Some t1) = Some h1" "cache_ok h1 \<and> get h1 u = Some a"
    "cache_view h1 u = Some (with_tag (Some t1) e)" using tag_written [OF assms(1-3), of "Some t1"] on assms(1,2,4) by auto
  obtain h2 where h2: "set_tag h1 a (Some t2) = Some h2" "cache_ok h2 \<and> get h2 u = Some a"
    "cache_view h2 u = Some (with_tag (Some t2) (with_tag (Some t1) e))"
    using tag_written [of h1 u a "Some t2"] on h1(2,3) assms(3) by auto
  obtain h3 where h3: "put_back h2 a v2 = Some h3" "cache_ok h3 \<and> get h3 u = Some a"
    "cache_view h3 u = Some ((with_tag (Some t2) (with_tag (Some t1) e))\<lparr>e_val := v2\<rparr>)"
    using value_written [of h2 u a v2] on h2(2,3) assms(3) by auto
  obtain h4 where "put_back h3 a v1 = Some h4"
    "cache_view h4 u = Some ((with_tag (Some t2) (with_tag (Some t1) e))\<lparr>e_val := v2\<rparr>\<lparr>e_val := v1\<rparr>)"
    using value_written [of h3 u a v1] h3(2,3) assms(3) by auto
  then show ?thesis using h1(1) h2(1) h3(1) by (simp add: with_tag_def)
qed

lemma act_step:
  assumes "act e l w = Some (l', w')"
  obtains j' where "job_step e (lk_UID l) (lk_req l) (lk_request l) (lk_job l) w = Some (j', w')"
    "l' = map_option (\<lambda>j. l\<lparr>lk_job := j\<rparr>) j'"
  using assms by (auto simp: act_def elim!: bind_SomeE)

lemma act_closes: "act e l w = Some (l', w') \<Longrightarrow> w_closed w' = w_closed w + (if l' = None then 1 else 0)"
  by (erule act_step) (simp add: job_step_kept(1))

lemma act_reads: "act e l w = Some (l', w') \<Longrightarrow> \<not> stores (lk_job l) \<Longrightarrow> w_cache w' = w_cache w"
  by (erule act_step) (simp add: job_step_kept(2))

lemma act_changes:
  assumes "act e l w = Some (l', w')" "cache_ok (w_cache w)" "job_ok (w_cache w) l"
  shows "changes_only (URI (lk_req l)) (w_cache w) (w_cache w')"
proof (cases "stores (lk_job l)")
  case True
  obtain j' where j: "job_step e (lk_UID l) (lk_req l) (lk_request l) (lk_job l) w = Some (j', w')"
    by (rule act_step [OF assms(1)])
  note at = assms(3) [unfolded job_ok_def]
  show ?thesis
  proof (cases "lk_job l")
    case (J_relayed a t v)
    then show ?thesis using tag_written [OF assms(2), of "URI (lk_req l)" a t] at j by (auto elim!: bind_SomeE)
  next
    case (J_tagged a v)
    then show ?thesis using value_written [OF assms(2), of "URI (lk_req l)" a v] at j
      by (auto simp: revalidated_def elim!: bind_SomeE)
  next
    case (J_fetched f)
    then have "forward_end (lk_UID l) (lk_req l) (Some f) w = Some w'" using j by (auto elim!: bind_SomeE)
    then show ?thesis using forward_end_kept by blast
  qed (use True in simp_all)
next
  case False
  then show ?thesis using act_reads [OF assms(1)] by simp
qed

text \<open>The node stays the one of the URI, whatever other workers do.\<close>

lemma job_ok_stays:
  assumes "changes_only u h h'" "cache_ok h" "job_ok h l"
  shows "job_ok h' l"
  using assms node_stays [of u h h'] by (simp add: job_ok_def changes_only_def)

lemma act_job_ok:
  assumes "act e l w = Some (Some l', w')" "cache_ok (w_cache w)" "job_ok (w_cache w) l"
  shows "job_ok (w_cache w') l' \<and> lk_req l' = lk_req l"
proof -
  obtain j' where "job_step e (lk_UID l) (lk_req l) (lk_request l) (lk_job l) w = Some (j', w')"
    "Some l' = map_option (\<lambda>j. l\<lparr>lk_job := j\<rparr>) j'" by (rule act_step [OF assms(1)])
  then obtain j where j: "job_step e (lk_UID l) (lk_req l) (lk_request l) (lk_job l) w = Some (Some j, w')" "l' = l\<lparr>lk_job := j\<rparr>"
    by (cases j') simp_all
  have "job_ok (w_cache w) l'" using job_step_kept(3) [OF j(1)] assms(3) j(2) by (auto simp: job_ok_def)
  then show ?thesis using job_ok_stays [OF act_changes [OF assms] assms(2)] j(2) by simp
qed

text \<open>To write the tag and the text never faults.\<close>

lemma act_writes:
  assumes "cache_ok (w_cache w)" "job_ok (w_cache w) l" "lk_job l = J_relayed a t v \<or> lk_job l = J_tagged a v"
  shows "act e l w \<noteq> None"
  using assms(3)
proof
  assume j: "lk_job l = J_relayed a t v"
  then obtain h where "set_tag (w_cache w) a t = Some h"
    using tag_written [OF assms(1), of "URI (lk_req l)" a t] assms(2) by (auto simp: job_ok_def)
  then show ?thesis using j by (simp add: act_def)
next
  assume j: "lk_job l = J_tagged a v"
  then obtain h where "put_back (w_cache w) a v = Some h"
    using value_written [OF assms(1), of "URI (lk_req l)" a v] assms(2) by (auto simp: job_ok_def)
  then show ?thesis using j by (simp add: act_def revalidated_def)
qed

end
