(* ===== verification/Proxy.thy ===== *)
theory Proxy
  imports Jobs Pool_Live
begin

text \<open>
  The whole proxy: the threads of the pool, and what a worker does with its connection. In the pool that
  is a single step which closes the connection; here it is the code of \<open>serviceRequest\<close>, piece by piece,
  on the shared cache, in an environment (network, clock) that is different for every piece. All the
  other threads, also workers that store responses and replace tags, may do any number of steps between
  two pieces.
\<close>

section \<open>The system\<close>

text \<open>\<open>px_server\<close> is the socket to the server of each worker, \<open>px_looked\<close> what it has still to do.\<close>

record proxy =
  px_pool :: pool
  px_cache :: heap
  px_logs :: "string list"
  px_conns :: "int \<Rightarrow> sock"
  px_closed :: nat
  px_open :: nat
  px_server :: "nat \<Rightarrow> sock option"
  px_looked :: "nat \<Rightarrow> looked option"

definition proxy_start :: "(int \<Rightarrow> sock) \<Rightarrow> proxy" where
  "proxy_start conns = \<lparr>px_pool = pool_start, px_cache = empty_cache, px_logs = [], px_conns = conns,
     px_closed = 0, px_open = 0, px_server = (\<lambda>_. None), px_looked = (\<lambda>_. None)\<rparr>"

definition proxy_starts :: "proxy \<Rightarrow> bool" where
  "proxy_starts x \<longleftrightarrow> x = proxy_start (px_conns x)"

text \<open>What worker \<open>i\<close> sees, which serves \<open>fd\<close>.\<close>

definition world_of :: "proxy \<Rightarrow> nat \<Rightarrow> int \<Rightarrow> world" where
  "world_of x i fd = \<lparr>w_cache = px_cache x, w_logs = px_logs x, w_client = px_conns x fd, w_closed = px_closed x,
     w_open = px_open x, w_server = px_server x i\<rparr>"

text \<open>What it leaves after a piece. \<open>fd\<close> was closed as often as the code has called \<open>close\<close>, and the
  worker returns to its loop when \<open>serviceRequest\<close> returns, that is, when nothing remains to be done.\<close>

definition after_work :: "proxy \<Rightarrow> nat \<Rightarrow> int \<Rightarrow> world \<Rightarrow> looked option \<Rightarrow> proxy" where
  "after_work x i fd w l = (
     let s = px_pool x;
         s = s\<lparr>p_closed := p_closed s + replicate_mset (w_closed w - px_closed x) fd\<rparr>
     in \<lparr>px_pool = (if l = None then set_worker i W_loop s else s),
       px_cache = w_cache w, px_logs = w_logs w, px_conns = (px_conns x)(fd := w_client w),
       px_closed = w_closed w, px_open = w_open w,
       px_server = (px_server x)(i := if l = None then None else w_server w), px_looked = (px_looked x)(i := l)\<rparr>)"

lemma after_work_fields [simp]:
  "px_cache (after_work x i fd w l) = w_cache w" "px_looked (after_work x i fd w l) = (px_looked x)(i := l)"
  "px_closed (after_work x i fd w l) = w_closed w" "px_conns (after_work x i fd w l) = (px_conns x)(fd := w_client w)"
  by (simp_all add: after_work_def Let_def)

lemma world_of_fields [simp]:
  "w_cache (world_of x i fd) = px_cache x" "w_closed (world_of x i fd) = px_closed x"
  "w_client (world_of x i fd) = px_conns x fd"
  by (simp_all add: world_of_def)

text \<open>
  A connection that is accepted comes with a new peer. The number in the identifier of a request is the
  number of requests that the worker had served before it took this one. The threads that do not serve
  do the steps of the pool.
\<close>

inductive proxy_step :: "bool \<Rightarrow> proxy \<Rightarrow> proxy \<Rightarrow> bool" for spurious :: bool where
  accepted: "main_step (px_pool x) q \<Longrightarrow> p_accepted q = add_mset fd (p_accepted (px_pool x)) \<Longrightarrow>
    proxy_step spurious x (x\<lparr>px_pool := q, px_conns := (px_conns x)(fd := c)\<rparr>)"
| looks: "i < POOLSIZE \<Longrightarrow> runs (Worker i) (px_pool x) \<Longrightarrow> p_worker (px_pool x) i = W_serve fd \<Longrightarrow> px_looked x i = None \<Longrightarrow>
    look_up e t (int (p_count (px_pool x) i - 1)) (world_of x i fd) = Some (l, w) \<Longrightarrow>
    proxy_step spurious x (after_work x i fd w l)"
| acts: "i < POOLSIZE \<Longrightarrow> runs (Worker i) (px_pool x) \<Longrightarrow> p_worker (px_pool x) i = W_serve fd \<Longrightarrow> px_looked x i = Some k \<Longrightarrow>
    act e k (world_of x i fd) = Some (l, w) \<Longrightarrow> proxy_step spurious x (after_work x i fd w l)"
| other: "pool_step spurious (px_pool x) q \<Longrightarrow> p_accepted q = p_accepted (px_pool x) \<Longrightarrow>
    p_closed q = p_closed (px_pool x) \<Longrightarrow> proxy_step spurious x (x\<lparr>px_pool := q\<rparr>)"

section \<open>The pool and the cache\<close>

lemma main_closed: "main_step s t \<Longrightarrow> p_closed t = p_closed s"
  by (erule main_step.cases) simp_all

lemma receive_keeps:
  "receive e t n w = Some (Inl w') \<Longrightarrow> w_cache w' = w_cache w \<and> w_closed w' = Suc (w_closed w)"
  "receive e t n w = Some (Inr (UID, r, rq, w')) \<Longrightarrow> w_cache w' = w_cache w \<and> w_closed w' = w_closed w"
  by (simp_all add: receive_cache receive_books)

lemma look_up_keeps:
  assumes "look_up e t n w = Some (l, w')"
  shows "w_cache w' = w_cache w" "w_closed w' = w_closed w + (if l = None then 1 else 0)"
    "l = Some k \<Longrightarrow> \<exists>res p. lk_job k = J_decided res p"
  using assms
  by (auto simp: look_up_def elim!: bind_SomeE dest!: receive_keeps split: sum.splits)

text \<open>The work of a worker, piece by piece, is that of the pool: nothing, until the piece with which it
  ends closes the connection.\<close>

lemma work_step:
  assumes "i < POOLSIZE" "runs (Worker i) (px_pool x)" "p_worker (px_pool x) i = W_serve fd"
    and "w_closed w = px_closed x + (if l = None then 1 else 0)"
  shows "pool_step spurious (px_pool x) (px_pool (after_work x i fd w l)) \<or> px_pool (after_work x i fd w l) = px_pool x"
proof (cases l)
  case None
  have "worker_step i (px_pool x) (px_pool (after_work x i fd w l))"
    using serve [OF assms(2,3)] assms(4) None by (simp add: after_work_def Let_def)
  then show ?thesis using pool_step.worker [OF assms(1)] by blast
qed (use assms(4) in \<open>simp add: after_work_def Let_def\<close>)

interpretation proxy: simulation proxy_starts "proxy_step spurious" pool_starts "pool_step spurious" px_pool for spurious
proof
  show "proxy_starts x \<Longrightarrow> pool_starts (px_pool x)" for x
    by (auto simp: proxy_starts_def proxy_start_def pool_starts_def dest: arg_cong [where f = px_pool])
  show "pool_step spurious (px_pool x) (px_pool y) \<or> px_pool y = px_pool x" if "proxy_step spurious x y" for x y
    using that
  proof (cases rule: proxy_step.cases)
    case (accepted q fd c)
    then show ?thesis using pool_step.main by simp
  next
    case (looks i fd e t l w)
    then show ?thesis using work_step [OF looks(2-4)] look_up_keeps(2) [OF looks(6)] by simp
  next
    case (acts i fd k e l w)
    then show ?thesis using work_step [OF acts(2-4)] act_closes [OF acts(6)] by simp
  qed simp
qed

definition proxy_inv :: "proxy \<Rightarrow> bool" where
  "proxy_inv x \<longleftrightarrow> cache_ok (px_cache x) \<and> px_closed x = size (p_closed (px_pool x)) \<and>
     (\<forall>i l. px_looked x i = Some l \<longrightarrow> job_ok (px_cache x) l)"

lemma proxy_step_cache:
  assumes "proxy_step spurious x y" "proxy_inv x"
  shows "cache_ok (px_cache y) \<and> dom (cache_view (px_cache x)) \<subseteq> dom (cache_view (px_cache y)) \<and>
    (\<forall>i l. px_looked y i = Some l \<longrightarrow> job_ok (px_cache y) l)"
  using assms(1)
proof (cases rule: proxy_step.cases)
  case (looks i fd e t l w)
  have "w_cache w = px_cache x" using look_up_keeps(1) [OF looks(6)] by simp
  moreover have "job_ok h k" if "l = Some k" for h k using look_up_keeps(3) [OF looks(6) that] by (auto simp: job_ok_def)
  ultimately show ?thesis using looks(1) assms(2) by (auto simp: proxy_inv_def)
next
  case (acts i fd k e l w)
  have ok: "cache_ok (px_cache x)" "job_ok (px_cache x) k" using assms(2) acts(5) by (simp_all add: proxy_inv_def)
  have ch: "changes_only (URI (lk_req k)) (px_cache x) (w_cache w)" using act_changes [OF acts(6)] ok by simp
  have "job_ok (w_cache w) m" if "px_looked y j = Some m" for j m
  proof (cases "j = i")
    case True
    then show ?thesis using act_job_ok [of e k "world_of x i fd" m w] acts that ok by simp
  next
    case False
    then show ?thesis using job_ok_stays [OF ch ok(1)] assms(2) acts(1) that by (simp add: proxy_inv_def)
  qed
  then show ?thesis using changes_dom [OF ch ok(1)] acts(1) by simp
qed (use assms(2) in \<open>auto simp: proxy_inv_def\<close>)

lemma work_closed: "size (p_closed (px_pool (after_work x i fd w l))) = size (p_closed (px_pool x)) + (w_closed w - px_closed x)"
  by (simp add: after_work_def Let_def)

lemma proxy_step_closed:
  assumes "proxy_step spurious x y" "px_closed x = size (p_closed (px_pool x))"
  shows "px_closed y = size (p_closed (px_pool y))"
  using assms
  by (cases rule: proxy_step.cases; use main_closed look_up_keeps(2) act_closes in \<open>fastforce simp: work_closed\<close>)

interpretation proxy_cache: invariant_system proxy_starts "proxy_step spurious" proxy_inv for spurious
proof
  show "proxy_inv x" if start: "proxy_starts x" for x
  proof -
    obtain conns where "x = proxy_start conns" using start unfolding proxy_starts_def by blast
    then show ?thesis by (simp add: proxy_inv_def proxy_start_def pool_start_def cache_ok_empty)
  qed
  show "proxy_inv y" if "proxy_inv x" "proxy_step spurious x y" for x y
    using proxy_step_cache [OF that(2,1)] proxy_step_closed [OF that(2)] that(1) by (simp add: proxy_inv_def)
qed

lemma proxy_monotone:
  assumes "steps (proxy_step spurious) x y" "proxy_inv x"
  shows "proxy_inv y \<and> dom (cache_view (px_cache x)) \<subseteq> dom (cache_view (px_cache y))"
  using assms
proof (induction rule: steps.induct)
  case (steps_step x y z)
  then show ?case using proxy_step_cache [OF steps_step(1,4)] proxy_cache.inv_step [OF steps_step(4,1)] by blast
qed simp

section \<open>A worker that is not disturbed\<close>

text \<open>With no other step between its pieces, a worker does what \<open>serve_request\<close> says.\<close>

lemma after_work_twice:
  assumes "px_closed x \<le> w_closed w" "w_closed w \<le> w_closed v"
  shows "after_work (after_work x i fd w (Some k)) i fd v l = after_work x i fd v l"
proof -
  have "w_closed v - px_closed x = (w_closed w - px_closed x) + (w_closed v - w_closed w)" using assms by simp
  then show ?thesis by (simp add: after_work_def Let_def multiset_eq_iff)
qed

lemma world_after_work: "world_of (after_work x i fd w (Some k)) i fd = w"
  by (simp add: world_of_def after_work_def Let_def)

lemma acts_alone:
  assumes i: "i < POOLSIZE" "runs (Worker i) (px_pool x)" "p_worker (px_pool x) i = W_serve fd"
    and "act_all n e l w = Some v" "px_closed x \<le> w_closed w"
  shows "steps (proxy_step spurious) (after_work x i fd w l) (after_work x i fd v None)"
  using assms(4,5)
proof (induction n arbitrary: l w)
  case 0
  then show ?case by (simp add: steps_refl split: if_splits)
next
  case (Suc n)
  show ?case
  proof (cases l)
    case None
    then show ?thesis using Suc(2) by (simp add: steps_refl)
  next
    case (Some k)
    let ?y = "after_work x i fd w (Some k)"
    obtain m u where u: "act e k w = Some (m, u)" "act_all n e m u = Some v"
      using Suc(2) Some by (auto elim!: bind_SomeE)
    have "proxy_step spurious ?y (after_work ?y i fd u m)"
      by (rule acts [OF i(1)]) (use i u(1) in \<open>simp_all add: world_after_work, simp_all add: after_work_def runs_def Let_def\<close>)
    moreover have "after_work ?y i fd u m = after_work x i fd u m"
      using after_work_twice [OF Suc(3)] act_closes [OF u(1)] by simp
    moreover have "steps (proxy_step spurious) (after_work x i fd u m) (after_work x i fd v None)"
      using Suc(1) [OF u(2)] Suc(3) act_closes [OF u(1)] by simp
    ultimately show ?thesis using Some by (metis steps_step)
  qed
qed

lemma served_alone:
  assumes i: "i < POOLSIZE" "runs (Worker i) (px_pool x)" "p_worker (px_pool x) i = W_serve fd" "px_looked x i = None"
    and w: "serve_request e t (int (p_count (px_pool x) i - 1)) (world_of x i fd) = Some w"
  shows "steps (proxy_step spurious) x (after_work x i fd w None)"
proof -
  obtain l u where l: "look_up e t (int (p_count (px_pool x) i - 1)) (world_of x i fd) = Some (l, u)"
    "act_all 4 e l u = Some w"
    using w by (auto simp: serve_request_jobs simp del: act_all.simps elim!: bind_SomeE)
  have "proxy_step spurious x (after_work x i fd u l)" using looks [OF i l(1)] .
  moreover have "steps (proxy_step spurious) (after_work x i fd u l) (after_work x i fd w None)"
    using acts_alone [OF i(1-3) l(2)] look_up_keeps(2) [OF l(1)] by simp
  ultimately show ?thesis by (rule steps_step)
qed

section \<open>Properties\<close>

text \<open>C2: the proxy, with the code of the workers in place of the single step of the pool, does what the
  pool does: every execution of it is one of the pool (a worker closes its connection once, with the piece
  after which it returns to its loop), so that what holds of the pool holds of it; the cache that the
  workers share is well-formed in all its states and no entry is ever evicted. The lookups and stores of
  different workers, and the three times that a revalidation works on the cache (to read the old tag, to
  write the new one and to put the response, with the network in between), may come in any order: the
  node that a revalidation has found at the first time stays the node of its URI, and neither of the
  other two faults.\<close>

theorem proxy_refines_pool:
  assumes "reach proxy_starts (proxy_step spurious) x" "steps (proxy_step spurious) x y"
  shows "reach pool_starts (pool_step spurious) (px_pool y) \<and> cache_ok (px_cache y) \<and>
    px_closed y = size (p_closed (px_pool y)) \<and> dom (cache_view (px_cache x)) \<subseteq> dom (cache_view (px_cache y)) \<and>
    (\<forall>i l a. px_looked y i = Some l \<longrightarrow> job_node (lk_job l) = Some a \<longrightarrow>
      get (px_cache y) (URI (lk_req l)) = Some a \<and> a \<noteq> 0 \<and>
      (stores (lk_job l) \<longrightarrow> (\<forall>e fd. act e l (world_of y i fd) \<noteq> None)))"
proof -
  have y: "reach proxy_starts (proxy_step spurious) y" by (rule reach_steps [OF assms(2,1)])
  have i: "proxy_inv y \<and> dom (cache_view (px_cache x)) \<subseteq> dom (cache_view (px_cache y))"
    by (rule proxy_monotone [OF assms(2) proxy_cache.inv_reach [OF assms(1)]])
  have "get (px_cache y) (URI (lk_req l)) = Some a \<and> a \<noteq> 0 \<and>
      (stores (lk_job l) \<longrightarrow> (\<forall>e fd. act e l (world_of y j fd) \<noteq> None))"
    if l: "px_looked y j = Some l" "job_node (lk_job l) = Some a" for j l a
  proof -
    have ok: "job_ok (px_cache y) l" using i l(1) by (simp add: proxy_inv_def)
    have "act e l (world_of y j fd) \<noteq> None" if "stores (lk_job l)" for e fd
    proof (cases "lk_job l")
      case (J_relayed b t v)
      then show ?thesis using act_writes [of "world_of y j fd" l b t v e] ok i by (simp add: proxy_inv_def)
    next
      case (J_tagged b v)
      then show ?thesis using act_writes [of "world_of y j fd" l b None v e] ok i by (simp add: proxy_inv_def)
    qed (use that l(2) in simp_all)
    then show ?thesis using ok l(2) by (simp add: job_ok_def)
  qed
  then show ?thesis using proxy.reach_abs [OF y] i by (simp add: proxy_inv_def)
qed

text \<open>A first connection, up to the point at which a worker serves it.\<close>

definition first_served :: pool where
  "first_served = (set_worker 0 (W_serve 7) pool_start)\<lparr>p_stack := snd (the (take_request (push 7 no_requests))),
     p_accepted := {#7#}, p_count := (\<lambda>_. 0)(0 := 1)\<rparr>"

lemma proxy_other:
  "reach S (proxy_step b) x \<Longrightarrow> pool_step b (px_pool x) q \<Longrightarrow> p_accepted q = p_accepted (px_pool x) \<Longrightarrow>
    p_closed q = p_closed (px_pool x) \<Longrightarrow> reach S (proxy_step b) (x\<lparr>px_pool := q\<rparr>)"
  by (rule reach_step, assumption) (rule proxy_step.other)

lemma push_taken: "take_request (push 7 no_requests) = Some (7, snd (the (take_request (push 7 no_requests))))"
  by (simp add: take_request_def pop_def stackEmpty_def push_def no_requests_def free_stack_node_def)

lemma reach_first_served:
  "reach proxy_starts (proxy_step False) ((proxy_start (\<lambda>_. c))\<lparr>px_pool := first_served\<rparr>)"
proof -
  let ?x = "proxy_start (\<lambda>_. c)"
  let ?s1 = "pool_start\<lparr>p_main := M_push 7, p_accepted := {#7#}\<rparr>"
  let ?s2 = "?s1\<lparr>p_main := M_locked 7, p_owner := Some (Thread Main)\<rparr>"
  let ?s3 = "?s2\<lparr>p_main := M_loop, p_owner := None, p_stack := push 7 no_requests\<rparr>"
  let ?s4 = "set_worker 0 W_lock ?s3"
  let ?s5 = "set_worker 0 W_test (?s4\<lparr>p_owner := Some (Thread (Worker 0))\<rparr>)"
  let ?s6 = "set_worker 0 W_check ?s5"
  let ?st = "snd (the (take_request (push 7 no_requests)))"
  let ?s7 = "set_worker 0 (W_serve 7) (?s6\<lparr>p_stack := ?st, p_owner := None,
      p_count := (p_count ?s6)(0 := p_count ?s6 0 + 1)\<rparr>)"
  let ?R = "\<lambda>q. reach proxy_starts (proxy_step False) (?x\<lparr>px_pool := q\<rparr>)"
  note def = pool_start_def runs_def
  have acc: "main_step pool_start ?s1" using accept [of pool_start 7] by (simp add: def)
  have "reach proxy_starts (proxy_step False) ?x" by (rule reach_start) (simp add: proxy_starts_def proxy_start_def)
  moreover have "proxy_step False ?x (?x\<lparr>px_pool := ?s1, px_conns := (px_conns ?x)(7 := c)\<rparr>)"
    using acc by (intro proxy_step.accepted) (simp_all add: proxy_start_def pool_start_def)
  moreover have "?x\<lparr>px_pool := ?s1, px_conns := (px_conns ?x)(7 := c)\<rparr> = ?x\<lparr>px_pool := ?s1\<rparr>"
    by (simp add: proxy_start_def fun_upd_idem)
  ultimately have r1: "?R ?s1" by (metis reach_step)
  have next_step: "?R q \<Longrightarrow> pool_step False q q' \<Longrightarrow> p_accepted q' = p_accepted q \<Longrightarrow> p_closed q' = p_closed q \<Longrightarrow> ?R q'" for q q'
    using proxy_other [of proxy_starts False "?x\<lparr>px_pool := q\<rparr>" q'] by simp
  have q2: "pool_step False ?s1 ?s2" using push_lock [of ?s1 7] by (intro pool_step.main) (simp add: def)
  have q3: "pool_step False ?s2 ?s3" using push_unlock [of ?s2 7] by (intro pool_step.main) (simp add: def)
  have q4: "pool_step False ?s3 ?s4" using again [of 0 ?s3] by (intro pool_step.worker [of 0]) (simp_all add: def)
  have q5: "pool_step False ?s4 ?s5" using lock [of 0 ?s4] by (intro pool_step.worker [of 0]) (simp_all add: def)
  have "stackEmpty (push 7 no_requests) = Some False" by (simp add: stackEmpty_def push_def no_requests_def)
  then have q6: "pool_step False ?s5 ?s6" using ready [of 0 ?s5 False] by (intro pool_step.worker [of 0]) (simp_all add: def)
  have q7: "pool_step False ?s6 ?s7" using push_taken take [of 0 ?s6 7 ?st] by (intro pool_step.worker [of 0]) (simp_all add: def)
  have r3: "?R ?s3" by (rule next_step [OF next_step [OF r1 q2] q3]) simp_all
  have r5: "?R ?s5" by (rule next_step [OF next_step [OF r3 q4] q5]) simp_all
  have "?R ?s7" by (rule next_step [OF next_step [OF r5 q6] q7]) simp_all
  moreover have "?s7 = first_served" by (simp add: first_served_def pool_start_def fun_eq_iff)
  ultimately show ?thesis by simp
qed

lemma runs_first: "runs (Worker 0) first_served" "p_worker first_served 0 = W_serve 7" "p_count first_served 0 = 1"
  by (simp_all add: first_served_def runs_def pool_start_def)

theorem proxy_refines_pool_witness:
  "\<exists>y::proxy. reach pool_starts (pool_step False) (px_pool y) \<and> p_closed (px_pool y) = {#7#} \<and> px_closed y = 1 \<and>
    cache_ok (px_cache y)"
proof -
  let ?c = "sample_client ''/'' ''a''"
  let ?x = "(proxy_start (\<lambda>_. ?c))\<lparr>px_pool := first_served\<rparr>"
  have world: "world_of ?x 0 7 = sample_world ?c" by (simp add: world_of_def proxy_start_def sample_world_def)
  have n: "int (p_count (px_pool ?x) 0 - 1) = 0" by (simp add: runs_first)
  obtain w where w: "serve_request (sample_env (sample_net (page_text 60 ''hello'')) 1700000000) 1 0
      (sample_world ?c) = Some w" using sample_served_at [OF sample_UID(3) [symmetric]] by blast
  have "w_closed w = 1" using serve_request_books [OF w] by (simp add: sample_world_def)
  then have c: "p_closed (px_pool (after_work ?x 0 7 w None)) = {#7#}" "px_closed (after_work ?x 0 7 w None) = 1"
    by (simp_all add: after_work_def first_served_def pool_start_def proxy_start_def)
  have "steps (proxy_step False) ?x (after_work ?x 0 7 w None)"
    by (rule served_alone [OF _ _ _ _ w [folded world n]]) (simp_all add: runs_first POOLSIZE_def proxy_start_def)
  from proxy_refines_pool [OF reach_first_served this] c show ?thesis by blast
qed

end
