(* ===== verification/Races.thy ===== *)
theory Races
  imports Proxy Sharing
begin

text \<open>
  A worker that has found a response in the cache, and what the other workers do until it sends it: the
  pointer that it holds stays good as long as none of them writes to the entry of the same URI, that is,
  stores a response for it or replaces it after a revalidation. \<open>cached_response_freed\<close> is what happens
  if one does.
\<close>

section \<open>The response that was found\<close>

lemma hit_response:
  assumes ok: "cache_ok h" and hit: "cacheable zone now h r UID = Some (HIT, p, lg)"
  obtains en where "cache_view h (URI r) = Some en" "response_at h (URI r) p" "strs h p = Some (e_val en)"
proof -
  obtain c n where c: "get h (URI r) = Some c" "c \<noteq> 0" "nodes h c = Some n" "p = nval n"
    using hit by (rule cacheable_hit)
  obtain bs where r: "rep h bs" using ok by (auto simp: cache_ok_def)
  from r get_key [OF r c(1)] show ?thesis
  proof (cases rule: rep_cases)
    case (hit a e)
    then have "a = c" using c(1) by simp
    then have "response_at h (URI r) p" using r hit c(3,4) by (auto simp: response_at_def)
    moreover have "strs h p = Some (e_val e)"
      using hit(3) c(3,4) \<open>a = c\<close> by (auto simp: entry_of_def contents_def elim!: bind_SomeE)
    ultimately show ?thesis using hit(6) that by blast
  next
    case miss
    then show ?thesis using c by simp
  qed
qed

lemma look_up_found:
  assumes "look_up e t n w = Some (Some l, w')" "lk_job l = J_decided res p"
  shows "length (lk_UID l) < 30 \<and>
    (\<exists>lg. cacheable (e_zone e) (e_now e) (w_cache w) (lk_req l) (lk_UID l) = Some (res, p, lg))"
  using assms
  by (auto simp: look_up_def receive_def sprintf_def Let_def elim!: bind_SomeE split: sum.splits option.splits if_splits)

lemma looked_up_by:
  assumes "proxy_step spurious x y" "px_looked x i = None" "px_looked y i = Some l" "lk_job l = J_decided res p"
  obtains e :: env and lg where "px_cache y = px_cache x" "length (lk_UID l) < 30"
    "cacheable (e_zone e) (e_now e) (px_cache x) (lk_req l) (lk_UID l) = Some (res, p, lg)"
  using assms
proof (cases rule: proxy_step.cases)
  case (looks j fd e t l' w)
  then have l: "l' = Some l" using assms(2,3) by (auto split: if_splits)
  show ?thesis using look_up_found [OF looks(6) [unfolded l] assms(4)] look_up_keeps(1) [OF looks(6)] looks(1) that
    by fastforce
qed (use assms in \<open>auto split: if_splits\<close>)

section \<open>Steps that leave it alone\<close>

text \<open>Worker \<open>i\<close> does nothing, and no other does a piece that writes to the entry of \<open>u\<close>.\<close>

definition clear_of :: "string \<Rightarrow> nat \<Rightarrow> proxy \<Rightarrow> proxy \<Rightarrow> bool" where
  "clear_of u i x y \<longleftrightarrow> px_looked y i = px_looked x i \<and>
     (\<forall>j<POOLSIZE. case px_looked x j of None \<Rightarrow> True
        | Some l \<Rightarrow> px_looked y j = Some l \<or> \<not> stores (lk_job l) \<or> URI (lk_req l) \<noteq> u)"

lemma act_done:
  assumes "act e l w = Some (l', w')" "stores (lk_job l)"
  shows "l' \<noteq> Some l"
  using assms by (cases "lk_job l") (auto simp: act_def revalidated_def elim!: bind_SomeE dest: arg_cong [where f = lk_job])

lemma clear_step:
  assumes "proxy_step spurious x y" "clear_of u i x y" "proxy_inv x" "response_at (px_cache x) u p"
  shows "response_at (px_cache y) u p \<and> strs (px_cache y) p = strs (px_cache x) p"
  using assms(1)
proof (cases rule: proxy_step.cases)
  case (looks j fd e t l w)
  then show ?thesis using assms(4) look_up_keeps(1) [OF looks(6)] by simp
next
  case (acts j fd k e l w)
  have "px_looked y j = l" using acts(1) by simp
  then have "\<not> stores (lk_job k) \<or> URI (lk_req k) \<noteq> u"
    using assms(2) acts(2,5) act_done [OF acts(6)] by (auto simp: clear_of_def)
  then show ?thesis
  proof
    assume "\<not> stores (lk_job k)"
    then show ?thesis using act_reads [OF acts(6)] acts(1) assms(4) by simp
  next
    assume u: "URI (lk_req k) \<noteq> u"
    have "nodes_kept (URI (lk_req k)) (px_cache x) (w_cache w)"
      using act_changes [OF acts(6)] assms(3) acts(5) by (simp add: changes_only_def proxy_inv_def)
    then show ?thesis using response_kept assms(4) u acts(1) by simp
  qed
qed (use assms(4) in simp_all)

lemma clear_steps:
  assumes "steps (\<lambda>a b. proxy_step spurious a b \<and> clear_of u i a b) x y"
    and "proxy_inv x" "response_at (px_cache x) u p"
  shows "strs (px_cache y) p = strs (px_cache x) p \<and> px_looked y i = px_looked x i"
  using assms
proof (induction rule: steps.induct)
  case (steps_step x y z)
  then have "proxy_inv y" using proxy_cache.inv_step by blast
  moreover have "response_at (px_cache y) u p \<and> strs (px_cache y) p = strs (px_cache x) p"
    using clear_step steps_step by blast
  moreover have "px_looked y i = px_looked x i" using steps_step(1) by (simp add: clear_of_def)
  ultimately show ?case using steps_step.IH by simp
qed simp

lemma act_hit:
  assumes "lk_job l = J_decided HIT p" "length (lk_UID l) < 30" "strs (w_cache w) p = Some v" "wr (w_client w) = []"
  shows "\<exists>w'. act e l w = Some (None, w') \<and> sent (w_client w') = sent (w_client w) @ v"
  using assms send_cached_accepts [of _ p v]
  by (simp add: act_def say_Some MAX_LOG_LINE_LEN_def exitRequest_def)

section \<open>Property\<close>

text \<open>C15: a worker that decided to serve a request from the cache sends the response that was in the cache
  when it looked, however many steps the main thread and the other workers take in between (they may
  accept, look up, forward, revalidate and store), as long as none of them writes to the entry of the
  same URI. The invariant \<open>proxy_inv\<close> holds in all the states that the proxy can reach.\<close>

theorem pending_hit_served:
  assumes "proxy_inv x0" "proxy_step spurious x0 x" "px_looked x0 i = None" "px_looked x i = Some l"
    and "lk_job l = J_decided HIT p" "steps (\<lambda>a b. proxy_step spurious a b \<and> clear_of (URI (lk_req l)) i a b) x y"
    and "wr (px_conns y fd) = []"
  shows "\<exists>en w. cache_view (px_cache x0) (URI (lk_req l)) = Some en \<and> px_looked y i = Some l \<and>
    act e l (world_of y i fd) = Some (None, w) \<and> sent (w_client w) = sent (px_conns y fd) @ e_val en"
proof -
  obtain zone now lg where c: "px_cache x = px_cache x0" "length (lk_UID l) < 30"
    "cacheable zone now (px_cache x0) (lk_req l) (lk_UID l) = Some (HIT, p, lg)"
    using looked_up_by [OF assms(2-5)] by metis
  have ok: "cache_ok (px_cache x0)" "proxy_inv x"
    using assms(1) proxy_cache.inv_step [OF assms(1,2)] by (simp_all add: proxy_inv_def)
  obtain en where en: "cache_view (px_cache x0) (URI (lk_req l)) = Some en"
    "response_at (px_cache x0) (URI (lk_req l)) p" "strs (px_cache x0) p = Some (e_val en)"
    by (rule hit_response [OF ok(1) c(3)])
  have "strs (px_cache y) p = Some (e_val en) \<and> px_looked y i = Some l"
    using clear_steps [OF assms(6) ok(2)] assms(4) c(1) en(2,3) by simp
  then show ?thesis using act_hit [OF assms(5) c(2), of "world_of y i fd" "e_val en"] assms(7) en(1) by simp
qed

text \<open>A lookup that finds a page, and a connection that is accepted before the worker goes on.\<close>

definition page_cache :: heap where
  "page_cache = the (store_entry empty_cache ''/'' lasting_page)"

definition before_lookup :: proxy where
  "before_lookup = (proxy_start (\<lambda>_. sample_client ''/'' ''b''))\<lparr>px_pool := first_served, px_cache := page_cache\<rparr>"

lemma page_cache_ok: "cache_ok page_cache" "cache_view page_cache ''/'' = Some lasting_page"
proof -
  obtain h where h: "store_entry empty_cache ''/'' lasting_page = Some h" "cache_ok h"
    "get_entry h ''/'' = Some (Some lasting_page)"
    using store_then_get_lookup [OF cache_ok_empty cache_key_root, of lasting_page] by (auto simp: view_empty merge_entry_def)
  then show "cache_ok page_cache" "cache_view page_cache ''/'' = Some lasting_page"
    using get_entry_view [OF h(2) cache_key_root] by (simp_all add: page_cache_def)
qed

lemma sample_look_up:
  obtains l w p where "look_up (sample_env (\<lambda>_ _. SocketError) 1700000000) 1 0 (world_of before_lookup 0 7) = Some (Some l, w)"
    "lk_job l = J_decided HIT p" "URI (lk_req l) = ''/''" "wr (w_client w) = []" "sent (w_client w) = []"
proof -
  let ?e = "sample_env (\<lambda>_ _. SocketError) 1700000000" and ?w = "world_of before_lookup 0 7"
  have w: "w_client ?w = sample_client ''/'' ''b''" "w_cache ?w = page_cache"
    by (simp_all add: before_lookup_def proxy_start_def)
  have "asks ?e ''10'' ''/'' ''b'' [] (w_client ?w)" using sample_asks unfolding w(1) by simp
  then have a: "good_call ''GET'' ''/'' ''b'' []" "env_ok ?e ''10'' ''GET'' ''/'' ''b''"
    "delivers 10 (rx (w_client ?w)) (call_text ''GET'' ''/'' ''b'' [])" by (simp_all add: asks_def)
  obtain k lg where r: "receive ?e 1 0 ?w = Some (Inr (''10'', call_info ''GET'' ''/'' ''b'',
      call_text ''GET'' ''/'' ''b'' [] @ NUL # NUL # replicate k NUL,
      ?w\<lparr>w_client := (w_client ?w)\<lparr>rx := snd (delivered 10 (rx (w_client ?w)))\<rparr>, w_logs := w_logs ?w @ lg\<rparr>))"
    using receive_call [OF a(1,3,2) sample_UID(3) [symmetric]] by blast
  have u: "URI (call_info ''GET'' ''/'' ''b'') = ''/''" by (simp add: call_info_def)
  obtain c where c: "getCurrentTime (e_now ?e) = Some c" using env_clock(1) [OF a(2)] by blast
  have d: "decision (e_now ?e) (Some lasting_page) = HIT" "printable_expiry (Some lasting_page)"
    by (simp_all add: decision_def expired_at_def lasting_page_def printable_expiry_def)
  obtain p lg2 where hit: "cacheable (e_zone ?e) (e_now ?e) page_cache (call_info ''GET'' ''/'' ''b'') ''10'' = Some (HIT, p, lg2)"
    using cacheable_decides [OF page_cache_ok(1) _ c, of "call_info ''GET'' ''/'' ''b''" "''10''" "e_zone ?e"] d cache_key_root
    by (auto simp: u page_cache_ok(2))
  have px: "px_cache before_lookup = page_cache" "px_conns before_lookup 7 = sample_client ''/'' ''b''"
    by (simp_all add: before_lookup_def proxy_start_def)
  let ?r = "call_info ''GET'' ''/'' ''b''" and ?w1 = "?w\<lparr>w_client := (w_client ?w)\<lparr>rx := snd (delivered 10 (rx (w_client ?w)))\<rparr>, w_logs := w_logs ?w @ lg\<rparr>"
  let ?l = "\<lparr>lk_UID = ''10'', lk_req = ?r, lk_request = call_text ''GET'' ''/'' ''b'' [] @ NUL # NUL # replicate k NUL,
    lk_job = J_decided HIT p\<rparr>"
  have "look_up ?e 1 0 ?w = Some (Some ?l, ?w1\<lparr>w_logs := w_logs ?w1 @ lg2\<rparr>)"
    using hit by (simp add: look_up_def r px)
  then show ?thesis by (rule that) (simp_all add: u px sample_client_def)
qed

theorem pending_hit_served_witness:
  "\<exists>x y :: proxy. \<exists>l w. proxy_step False before_lookup x \<and> px_looked x 0 = Some l \<and> proxy_step False x y \<and>
     p_accepted (px_pool y) = {#7, 9#} \<and>
     act (sample_env (\<lambda>_ _. SocketError) 1700000000) l (world_of y 0 7) = Some (None, w) \<and> sent (w_client w) = ''HTTP/1.1 200 OK''"
proof -
  let ?e = "sample_env (\<lambda>_ _. SocketError) 1700000000" and ?x0 = before_lookup
  obtain l w p where l: "look_up ?e 1 0 (world_of ?x0 0 7) = Some (Some l, w)"
    "lk_job l = J_decided HIT p" "URI (lk_req l) = ''/''" "wr (w_client w) = []" "sent (w_client w) = []" by (rule sample_look_up)
  have x0: "px_pool ?x0 = first_served" "proxy_inv ?x0" "px_looked ?x0 0 = None" "cache_view (px_cache ?x0) ''/'' = Some lasting_page"
    by (simp_all add: before_lookup_def proxy_start_def page_cache_ok proxy_inv_def, simp_all add: first_served_def pool_start_def)
  define x where "x = after_work ?x0 0 7 w (Some l)"
  have n: "int (p_count (px_pool ?x0) 0 - 1) = 0" by (simp add: x0 runs_first)
  have s1: "proxy_step False ?x0 x" unfolding x_def
    by (rule proxy_step.looks [OF _ _ _ x0(3), unfolded n, OF _ _ _ l(1)]) (simp_all add: POOLSIZE_def x0(1) runs_first)
  have "px_pool x = first_served" using look_up_keeps(2) [OF l(1)]
    by (simp add: x_def after_work_def x0(1) Let_def)
  define q where "q = first_served\<lparr>p_main := M_push 9, p_accepted := {#7, 9#}\<rparr>"
  have "main_step first_served q"
    using accept [of first_served 9] by (simp add: q_def first_served_def pool_start_def runs_def add_mset_commute)
  define y where "y = x\<lparr>px_pool := q, px_conns := (px_conns x)(9 := quiet_client)\<rparr>"
  have s2: "proxy_step False x y" unfolding y_def
    by (rule proxy_step.accepted) (use \<open>main_step first_served q\<close> \<open>px_pool x = first_served\<close> in \<open>simp_all add: q_def first_served_def add_mset_commute\<close>)
  have "clear_of (URI (lk_req l)) 0 x y"
    by (simp add: clear_of_def y_def split: option.split)
  then have "steps (\<lambda>a b. proxy_step False a b \<and> clear_of (URI (lk_req l)) 0 a b) x y"
    using s2 by (intro steps_step [OF _ steps_refl]) simp
  moreover have "px_looked x 0 = Some l" "wr (px_conns y 7) = []" "sent (px_conns y 7) = []"
    using l(4,5) by (simp_all add: x_def y_def)
  ultimately obtain v where "act ?e l (world_of y 0 7) = Some (None, v)" "sent (w_client v) = e_val lasting_page"
    using pending_hit_served [OF x0(2) s1 x0(3) _ l(2), of y 7 ?e] x0(4) l(3) by auto
  moreover have "p_accepted (px_pool y) = {#7, 9#}" by (simp add: y_def q_def)
  ultimately show ?thesis using s1 s2 \<open>px_looked x 0 = Some l\<close> by (auto simp: lasting_page_def)
qed

end
