(* ===== verification/Startup.thy ===== *)
theory Startup
  imports Logging Cacheable Pool
begin

text \<open>
  The start of the proxy: \<open>main\<close> of \<^verbatim>\<open>threadPool.c\<close> up to the loop that accepts connections, with
  \<open>spawnThreads\<close>, and \<open>initlogging\<close> of \<^verbatim>\<open>logging.c\<close> with the logger up to its first message.

  What the system calls return is a parameter. \<open>error\<close> is declared nowhere in \<^verbatim>\<open>threadPool.c\<close>: the
  calls of \<open>error\<close> with a single string reach the function of that name in the C library, which takes
  at least three arguments. Their behaviour is undefined.
\<close>

section \<open>The operating system\<close>

text \<open>The results of the calls. \<open>os_bind\<close> and \<open>os_fopen\<close> depend on the effective user, \<open>os_seteuid\<close>
  on it and on the user it is asked for; \<open>os_thread 0\<close> is the logger, the others are the pool.\<close>

record os =
  os_daemon :: int
  os_thread :: "nat \<Rightarrow> int"
  os_socket :: int
  os_bind :: "nat \<Rightarrow> int"
  os_seteuid :: "nat \<Rightarrow> nat \<Rightarrow> int"
  os_fopen :: "nat \<Rightarrow> bool"

section \<open>The state\<close>

datatype bpc = B_daemon | B_logger | B_push | B_signal | B_cache | B_spawn nat | B_socket | B_bind | B_drop
  | B_listen | B_accept | B_exit int | B_undefined

datatype npc = N_none | N_fopen | N_file bool | N_written | N_fault

record boot =
  b_main :: bpc
  b_logger :: npc
  b_logs :: logs
  b_uid :: nat
  b_euid :: nat
  b_handler :: bool
  b_cache :: "heap option"
  b_threads :: "nat list"
  b_listenfd :: int
  b_binder :: "nat option"
  b_listens :: bool

definition boot_init :: "nat \<Rightarrow> nat \<Rightarrow> boot" where
  "boot_init uid euid = \<lparr>b_main = B_daemon, b_logger = N_none, b_logs = no_logs, b_uid = uid, b_euid = euid,
     b_handler = False, b_cache = None, b_threads = [], b_listenfd = 0, b_binder = None, b_listens = False\<rparr>"

section \<open>The threads\<close>

text \<open>\<open>initlogging\<close>: what it returns, and whether the logger runs then.\<close>

definition initlogging :: "int \<Rightarrow> int \<times> npc" where
  "initlogging rc = (if rc \<noteq> 0 then (-1, N_none) else (0, N_fopen))"

text \<open>One round of the loop of \<open>spawnThreads\<close>. The result of \<open>pthread_create\<close> is not looked at.\<close>

definition spawn_thread :: "os \<Rightarrow> nat \<Rightarrow> boot \<Rightarrow> boot" where
  "spawn_thread os i s = (if os_thread os (Suc i) = 0 then s\<lparr>b_threads := b_threads s @ [i]\<rparr> else s)"

text \<open>The statements of \<open>main\<close>.\<close>

definition main_next :: "os \<Rightarrow> boot \<Rightarrow> boot" where
  "main_next os s = (case b_main s of
       B_daemon \<Rightarrow> s\<lparr>b_main := if os_daemon os < 0 then B_exit 1 else B_logger\<rparr>
     | B_logger \<Rightarrow> s\<lparr>b_main := B_push, b_logger := snd (initlogging (os_thread os 0))\<rparr>
     | B_push \<Rightarrow> s\<lparr>b_main := B_signal, b_logs := logpush ''logger started..'' (b_logs s)\<rparr>
     | B_signal \<Rightarrow> s\<lparr>b_main := B_cache, b_handler := True\<rparr>
     | B_cache \<Rightarrow> s\<lparr>b_main := B_spawn 0, b_cache := Some empty_cache\<rparr>
     | B_spawn i \<Rightarrow> (if i < POOLSIZE then (spawn_thread os i s)\<lparr>b_main := B_spawn (Suc i)\<rparr> else s\<lparr>b_main := B_socket\<rparr>)
     | B_socket \<Rightarrow> s\<lparr>b_main := if os_socket os < 0 then B_undefined else B_bind, b_listenfd := os_socket os\<rparr>
     | B_bind \<Rightarrow> (if os_bind os (b_euid s) \<noteq> 0 then s\<lparr>b_main := B_undefined\<rparr>
         else s\<lparr>b_main := B_drop, b_binder := Some (b_euid s)\<rparr>)
     | B_drop \<Rightarrow> s\<lparr>b_main := B_listen,
         b_euid := if os_seteuid os (b_euid s) (b_uid s) = 0 then b_uid s else b_euid s\<rparr>
     | B_listen \<Rightarrow> s\<lparr>b_main := B_accept, b_listens := True\<rparr>
     | _ \<Rightarrow> s)"

definition boot_ended :: "bpc \<Rightarrow> bool" where
  "boot_ended pc \<longleftrightarrow> (case pc of B_accept \<Rightarrow> True | B_exit c \<Rightarrow> True | B_undefined \<Rightarrow> True | _ \<Rightarrow> False)"

text \<open>
  The logger opens its file and waits for the first message, which is written to the file also if it
  could not be opened. What follows is the \<open>logger_step\<close> of the theory \<open>Logging\<close>.
\<close>

inductive boot_step :: "os \<Rightarrow> boot \<Rightarrow> boot \<Rightarrow> bool" for os :: os where
  main: "\<not> boot_ended (b_main s) \<Longrightarrow> boot_step os s (main_next os s)"
| accept_error: "b_main s = B_accept \<Longrightarrow> boot_step os s (s\<lparr>b_main := B_undefined\<rparr>)"
| opened: "b_main s \<notin> range B_exit \<union> {B_undefined} \<Longrightarrow> b_logger s = N_fopen \<Longrightarrow>
    boot_step os s (s\<lparr>b_logger := N_file (os_fopen os (b_euid s))\<rparr>)"
| written: "b_main s \<notin> range B_exit \<union> {B_undefined} \<Longrightarrow> b_logger s = N_file True \<Longrightarrow> \<not> queueEmpty (b_logs s) \<Longrightarrow>
    write_round (b_logs s) = Some (l, q) \<Longrightarrow> boot_step os s (s\<lparr>b_logger := N_written, b_logs := q\<rparr>)"
| null_file: "b_main s \<notin> range B_exit \<union> {B_undefined} \<Longrightarrow> b_logger s = N_file False \<Longrightarrow> \<not> queueEmpty (b_logs s) \<Longrightarrow>
    write_round (b_logs s) = Some (l, q) \<Longrightarrow> boot_step os s (s\<lparr>b_logger := N_fault, b_logs := q\<rparr>)"

inductive boot_starts :: "nat \<Rightarrow> nat \<Rightarrow> boot \<Rightarrow> bool" for uid euid :: nat where
  "boot_starts uid euid (boot_init uid euid)"

section \<open>What holds on the way\<close>

definition started :: "os \<Rightarrow> nat \<Rightarrow> nat list" where
  "started os n = filter (\<lambda>i. os_thread os (Suc i) = 0) [0..<n]"

definition dropped :: "os \<Rightarrow> nat \<Rightarrow> nat \<Rightarrow> nat" where
  "dropped os uid euid = (if os_seteuid os euid uid = 0 then uid else euid)"

text \<open>The rights of the process, then what is set up, at each of the statements.\<close>

definition rights_inv :: "os \<Rightarrow> nat \<Rightarrow> nat \<Rightarrow> boot \<Rightarrow> bool" where
  "rights_inv os uid euid s \<longleftrightarrow> b_uid s = uid \<and> (b_binder s \<noteq> None \<longrightarrow> os_bind os euid = 0) \<and>
     (b_main s \<notin> range B_exit \<union> {B_daemon} \<longrightarrow> 0 \<le> os_daemon os) \<and>
     (b_listens s \<or> b_main s \<in> {B_bind, B_drop, B_listen} \<longrightarrow> 0 \<le> os_socket os) \<and> (case b_main s of
       B_drop \<Rightarrow> b_euid s = euid \<and> b_binder s = Some euid \<and> \<not> b_listens s
     | B_listen \<Rightarrow> b_euid s = dropped os uid euid \<and> b_binder s = Some euid \<and> \<not> b_listens s
     | B_accept \<Rightarrow> b_euid s = dropped os uid euid \<and> b_binder s = Some euid \<and> b_listens s
     | B_undefined \<Rightarrow> (if b_listens s then b_euid s = dropped os uid euid \<and> b_binder s = Some euid
         else b_euid s = euid \<and> b_binder s = None \<and> (os_socket os < 0 \<or> os_bind os euid \<noteq> 0))
     | B_exit c \<Rightarrow> b_euid s = euid \<and> b_binder s = None \<and> \<not> b_listens s \<and> os_daemon os < 0 \<and> c = 1
     | _ \<Rightarrow> b_euid s = euid \<and> b_binder s = None \<and> \<not> b_listens s)"

definition setup_inv :: "os \<Rightarrow> boot \<Rightarrow> bool" where
  "setup_inv os s \<longleftrightarrow> (case b_main s of
       B_cache \<Rightarrow> b_handler s \<and> b_threads s = []
     | B_spawn i \<Rightarrow> b_handler s \<and> b_cache s = Some empty_cache \<and> i \<le> POOLSIZE \<and> b_threads s = started os i
     | B_exit c \<Rightarrow> True
     | B_undefined \<Rightarrow> True
     | pc \<Rightarrow> if pc \<in> {B_daemon, B_logger, B_push, B_signal} then b_threads s = []
         else b_handler s \<and> b_cache s = Some empty_cache \<and> b_threads s = started os POOLSIZE)"

lemma started_simps: "started os 0 = []"
  "started os (Suc n) = (if os_thread os (Suc n) = 0 then started os n @ [n] else started os n)"
  by (simp_all add: started_def)

lemma rights_main: "rights_inv os uid euid s \<Longrightarrow> rights_inv os uid euid (main_next os s)"
  by (cases "b_main s") (auto simp: rights_inv_def main_next_def spawn_thread_def dropped_def)

lemma setup_main: "setup_inv os s \<Longrightarrow> setup_inv os (main_next os s)"
  by (cases "b_main s") (auto simp: setup_inv_def main_next_def spawn_thread_def started_simps)

interpretation startup: invariant_system "boot_starts uid euid" "boot_step os"
  "\<lambda>s. rights_inv os uid euid s \<and> setup_inv os s" for os uid euid
proof
  show "rights_inv os uid euid s \<and> setup_inv os s" if "boot_starts uid euid s" for s
    using that by (auto simp: boot_starts.simps rights_inv_def setup_inv_def boot_init_def)
  show "rights_inv os uid euid t \<and> setup_inv os t" if "rights_inv os uid euid s \<and> setup_inv os s" "boot_step os s t" for s t
    using that(2)
  proof (cases rule: boot_step.cases)
    case main
    then show ?thesis using that(1) rights_main setup_main by blast
  next
    case accept_error
    then show ?thesis using that(1) by (auto simp: rights_inv_def setup_inv_def)
  qed (use that(1) in \<open>auto simp: rights_inv_def setup_inv_def split: bpc.splits\<close>)
qed

section \<open>The start comes to an end\<close>

fun to_go :: "bpc \<Rightarrow> nat" where
  "to_go B_daemon = 20"
| "to_go B_logger = 19"
| "to_go B_push = 18"
| "to_go B_signal = 17"
| "to_go B_cache = 16"
| "to_go (B_spawn i) = 5 + (POOLSIZE - i)"
| "to_go B_socket = 4"
| "to_go B_bind = 3"
| "to_go B_drop = 2"
| "to_go B_listen = 1"
| "to_go _ = 0"

lemma to_go_ended: "to_go pc = 0 \<longleftrightarrow> boot_ended pc"
  by (cases pc) (simp_all add: boot_ended_def)

lemma main_progress: "\<not> boot_ended (b_main s) \<Longrightarrow> to_go (b_main (main_next os s)) < to_go (b_main s)"
  by (cases "b_main s") (auto simp: boot_ended_def main_next_def spawn_thread_def POOLSIZE_def)

lemma main_ends:
  "\<exists>n \<le> to_go (b_main s). boot_ended (b_main ((main_next os ^^ n) s)) \<and> steps (boot_step os) s ((main_next os ^^ n) s)"
proof (induction "to_go (b_main s)" arbitrary: s rule: less_induct)
  case less
  show ?case
  proof (cases "boot_ended (b_main s)")
    case True
    then show ?thesis by (intro exI [of _ 0]) (simp add: steps_refl)
  next
    case False
    note p = main_progress [OF False, of os]
    obtain n where n: "n \<le> to_go (b_main (main_next os s))"
      "boot_ended (b_main ((main_next os ^^ n) (main_next os s)))"
      "steps (boot_step os) (main_next os s) ((main_next os ^^ n) (main_next os s))" using less [OF p] by blast
    have "steps (boot_step os) s ((main_next os ^^ Suc n) s)"
      using steps_step [OF boot_step.main [OF False] n(3)] by (simp add: funpow_swap1)
    then show ?thesis using n p by (intro exI [of _ "Suc n"]) (simp add: funpow_swap1)
  qed
qed

lemma main_next_accepts: "(b_listens s \<longrightarrow> b_main s = B_accept) \<Longrightarrow>
    b_listens (main_next os s) \<longrightarrow> b_main (main_next os s) = B_accept"
  by (cases "b_main s") (simp_all add: main_next_def spawn_thread_def)

lemma main_accepts: "(b_listens s \<longrightarrow> b_main s = B_accept) \<Longrightarrow>
    b_listens ((main_next os ^^ n) s) \<longrightarrow> b_main ((main_next os ^^ n) s) = B_accept"
  by (induction n) (simp_all add: main_next_accepts)

text \<open>After \<open>logpush\<close> the main thread leaves the logger and its queue alone.\<close>

lemma main_next_logger:
  assumes "to_go (b_main s) < 18"
  shows "b_logger (main_next os s) = b_logger s \<and> b_logs (main_next os s) = b_logs s \<and>
    to_go (b_main (main_next os s)) < 18"
  using assms by (cases "b_main s") (auto simp: main_next_def spawn_thread_def POOLSIZE_def)

lemma main_leaves_logger:
  assumes "to_go (b_main s) < 18"
  shows "b_logger ((main_next os ^^ n) s) = b_logger s \<and> b_logs ((main_next os ^^ n) s) = b_logs s \<and>
    to_go (b_main ((main_next os ^^ n) s)) < 18"
proof (induction n)
  case (Suc n)
  then show ?case using main_next_logger [of "(main_next os ^^ n) s" os] by simp
qed (use assms in simp)

text \<open>The state in which the start ends.\<close>

lemma main_reaches:
  assumes "reach (boot_starts uid euid) (boot_step os) s" "b_listens s \<longrightarrow> b_main s = B_accept"
  shows "\<exists>n \<le> to_go (b_main s). let t = (main_next os ^^ n) s in reach (boot_starts uid euid) (boot_step os) t \<and>
    b_main t = (if os_daemon os < 0 then B_exit 1 else if os_socket os < 0 \<or> os_bind os euid \<noteq> 0 then B_undefined
      else B_accept)"
proof -
  obtain n where n: "n \<le> to_go (b_main s)" "boot_ended (b_main ((main_next os ^^ n) s))"
    "steps (boot_step os) s ((main_next os ^^ n) s)" using main_ends by blast
  let ?s = "(main_next os ^^ n) s"
  have r: "reach (boot_starts uid euid) (boot_step os) ?s" by (rule reach_steps [OF n(3) assms(1)])
  from startup.inv_reach [OF this] have inv: "rights_inv os uid euid ?s" by blast
  have "b_listens ?s \<longrightarrow> b_main ?s = B_accept" by (rule main_accepts [OF assms(2)])
  then have "b_main ?s = (if os_daemon os < 0 then B_exit 1
      else if os_socket os < 0 \<or> os_bind os euid \<noteq> 0 then B_undefined else B_accept)"
    using n(2) inv by (cases "b_main ?s") (auto simp: rights_inv_def boot_ended_def)
  then show ?thesis using n(1) r by (auto simp: Let_def)
qed

text \<open>The system calls of \<open>main\<close> succeed, for a program that belongs to root.\<close>

definition start_succeeds :: "os \<Rightarrow> nat \<Rightarrow> bool" where
  "start_succeeds os uid \<longleftrightarrow> 0 \<le> os_daemon os \<and> os_thread os 0 = 0 \<and> 0 \<le> os_socket os \<and> os_bind os 0 = 0 \<and>
     os_seteuid os 0 uid = 0"

definition logger_created :: "os \<Rightarrow> nat \<Rightarrow> boot" where
  "logger_created os uid = (boot_init uid 0)\<lparr>b_main := B_signal, b_logger := N_fopen,
     b_logs := logpush ''logger started..'' no_logs\<rparr>"

lemma logger_created_reach:
  assumes "start_succeeds os uid"
  shows "reach (boot_starts uid 0) (boot_step os) (logger_created os uid)"
proof -
  let ?s0 = "boot_init uid 0"
  let ?s1 = "?s0\<lparr>b_main := B_logger\<rparr>"
  let ?s2 = "?s0\<lparr>b_main := B_push, b_logger := N_fopen\<rparr>"
  let ?R = "reach (boot_starts uid 0) (boot_step os)"
  have go: "?R s \<Longrightarrow> \<not> boot_ended (b_main s) \<Longrightarrow> main_next os s = t \<Longrightarrow> ?R t" for s t
    using boot_step.main reach_step by metis
  have "?R ?s0" by (simp add: reach_start boot_starts.intros)
  then have "?R ?s1" by (rule go) (use assms in \<open>simp_all add: boot_init_def boot_ended_def main_next_def start_succeeds_def\<close>)
  then have "?R ?s2" by (rule go) (use assms in \<open>simp_all add: boot_init_def boot_ended_def main_next_def start_succeeds_def initlogging_def\<close>)
  then show ?thesis by (rule go) (simp_all add: boot_init_def boot_ended_def main_next_def logger_created_def)
qed

lemma first_message: "\<exists>q. \<not> queueEmpty (logpush ''logger started..'' no_logs) \<and>
    write_round (logpush ''logger started..'' no_logs) = Some (Some ''logger started..'', q)"
proof -
  have q: "queued (logpush ''logger started..'' no_logs) ([] @ [''logger started..''])"
    using queued_push [OF queued_empty, of "''logger started..''"] by simp
  have "fits_buffer ''logger started..''" by (simp add: fits_buffer_def LOG_BUFFER_def)
  from write_round_queued [OF q this] queueEmpty_queued [OF q] show ?thesis by auto
qed

lemma reaches_accept:
  assumes "reach (boot_starts uid 0) (boot_step os) s" "start_succeeds os uid" "to_go (b_main s) < 18" "\<not> b_listens s"
  obtains t where "reach (boot_starts uid 0) (boot_step os) t" "b_main t = B_accept" "b_logger t = b_logger s"
    "b_logs t = b_logs s" "b_euid t = uid"
proof -
  obtain n where n: "reach (boot_starts uid 0) (boot_step os) ((main_next os ^^ n) s)"
    "b_main ((main_next os ^^ n) s) = B_accept"
    using main_reaches [OF assms(1)] assms(2,4) by (auto simp: Let_def start_succeeds_def split: if_splits)
  have "b_euid ((main_next os ^^ n) s) = uid"
    using startup.inv_reach [OF n(1)] n(2) assms(2) by (simp add: rights_inv_def dropped_def start_succeeds_def)
  then show ?thesis using that n main_leaves_logger [OF assms(3)] by blast
qed

section \<open>Properties\<close>

text \<open>C19: when the proxy accepts connections, its socket was bound with the rights it was started with, the
  handler of the interrupt and the cache are in place, and \<open>main\<close> has tried to start all threads of
  the pool; from \<open>listen\<close> on it has the rights of the user who started it, unless the call of \<open>seteuid\<close>
  failed, which is not noticed.\<close>

theorem rights_of_running_proxy:
  assumes "reach (boot_starts uid euid) (boot_step os) s"
  shows "(b_main s = B_accept \<longrightarrow> b_listens s \<and> b_handler s \<and> b_cache s = Some empty_cache \<and>
      b_threads s = filter (\<lambda>i. os_thread os (Suc i) = 0) [0..<POOLSIZE]) \<and>
    (b_listens s \<longrightarrow> b_binder s = Some euid \<and> os_bind os euid = 0 \<and>
      b_euid s = (if os_seteuid os euid uid = 0 then uid else euid))"
  using startup.inv_reach [OF assms]
  by (cases "b_main s") (auto simp: rights_inv_def setup_inv_def started_def dropped_def)

text \<open>C28: the start ends after at most 20 statements: the proxy accepts connections, or it has exited as it
  could not become a daemon, or, when there is no socket or the port cannot be bound, what happens is undefined.\<close>

theorem start_ends:
  "\<exists>n. n \<le> 20 \<and> b_main ((main_next os ^^ n) (boot_init uid euid)) =
      (if os_daemon os < 0 then B_exit 1
       else if os_socket os < 0 then B_undefined else if os_bind os euid = 0 then B_accept else B_undefined)"
proof -
  have "reach (boot_starts uid euid) (boot_step os) (boot_init uid euid)" by (simp add: reach_start boot_starts.intros)
  from main_reaches [OF this] show ?thesis by (auto simp: boot_init_def Let_def cong: if_cong)
qed

text \<open>C27: whether the log file can be opened is a race: for a program of root that another user starts,
  and a file that only root may open, the same calls succeed in one order, and in another \<open>main\<close> has
  given up the rights of root before the logger opens the file; the logger then writes its first message to \<open>NULL\<close>.\<close>

theorem log_file_race:
  assumes "start_succeeds os uid" "uid \<noteq> 0" "\<And>u. os_fopen os u \<longleftrightarrow> u = 0"
  shows "(\<exists>s. reach (boot_starts uid 0) (boot_step os) s \<and> b_main s = B_accept \<and> b_logger s = N_written) \<and>
    (\<exists>s. reach (boot_starts uid 0) (boot_step os) s \<and> b_main s = B_accept \<and> b_logger s = N_fault)"
proof
  let ?s = "logger_created os uid" and ?R = "reach (boot_starts uid 0) (boot_step os)"
  have r: "?R ?s" by (rule logger_created_reach [OF assms(1)])
  have s: "b_main ?s = B_signal" "b_logger ?s = N_fopen" "b_euid ?s = 0" "\<not> b_listens ?s"
    "b_logs ?s = logpush ''logger started..'' no_logs" by (simp_all add: logger_created_def boot_init_def)
  obtain q where q: "\<not> queueEmpty (b_logs ?s)" "write_round (b_logs ?s) = Some (Some ''logger started..'', q)"
    using first_message s(5) by auto
  let ?a = "?s\<lparr>b_logger := N_file True\<rparr>" and ?b = "?s\<lparr>b_logger := N_written, b_logs := q\<rparr>"
  have "boot_step os ?s ?a" using boot_step.opened [of ?s os] s assms(3) by auto
  moreover have "boot_step os ?a ?b" using boot_step.written [of ?a] q s by auto
  ultimately have "?R ?b" using r by (meson reach_step)
  from reaches_accept [OF this assms(1)] s
  show "\<exists>s. ?R s \<and> b_main s = B_accept \<and> b_logger s = N_written" by auto
  obtain t where t: "?R t" "b_main t = B_accept" "b_logger t = N_fopen" "b_logs t = b_logs ?s" "b_euid t = uid"
    using reaches_accept [OF r assms(1)] s by auto
  let ?c = "t\<lparr>b_logger := N_file False\<rparr>" and ?d = "t\<lparr>b_logger := N_fault, b_logs := q\<rparr>"
  have "boot_step os t ?c" using boot_step.opened [of t os] t assms(2,3) by auto
  moreover have "boot_step os ?c ?d" using boot_step.null_file [of ?c] q t by auto
  ultimately have "?R ?d" using t(1) by (meson reach_step)
  then show "\<exists>s. ?R s \<and> b_main s = B_accept \<and> b_logger s = N_fault" using t(2) by (intro exI [of _ ?d]) simp
qed

definition root_os :: os where
  "root_os = \<lparr>os_daemon = 0, os_thread = (\<lambda>_. 0), os_socket = 3, os_bind = (\<lambda>u. if u = 0 then 0 else -1),
     os_seteuid = (\<lambda>e u. 0), os_fopen = (\<lambda>u. u = 0)\<rparr>"

lemma root_succeeds: "start_succeeds root_os 1000"
  by (simp add: start_succeeds_def root_os_def)

theorem log_file_race_witness:
  "\<exists>s. reach (boot_starts 1000 0) (boot_step root_os) s \<and> b_main s = B_accept \<and> b_logger s = N_fault"
  using log_file_race [OF root_succeeds] by (simp add: root_os_def)

lemma root_running: "\<exists>s. reach (boot_starts 1000 0) (boot_step root_os) s \<and> b_main s = B_accept \<and> b_logger s = N_fopen"
proof -
  have "\<not> b_listens (logger_created root_os 1000)" "to_go (b_main (logger_created root_os 1000)) < 18"
    "b_logger (logger_created root_os 1000) = N_fopen" by (simp_all add: logger_created_def boot_init_def)
  then show ?thesis using reaches_accept [OF logger_created_reach [OF root_succeeds] root_succeeds] by metis
qed

theorem rights_of_running_proxy_witness:
  "\<exists>s::boot. b_main s = B_accept \<and> b_euid s = 1000 \<and> b_binder s = Some 0 \<and> b_threads s = [0..<10]"
proof -
  obtain s where s: "reach (boot_starts 1000 0) (boot_step root_os) s" "b_main s = B_accept" using root_running by blast
  from rights_of_running_proxy [OF s(1)] s(2) show ?thesis
    by (intro exI [of _ s]) (simp add: root_os_def POOLSIZE_def)
qed

end
