(* ===== verification/ParseTime.thy ===== *)
theory ParseTime
  imports Timeparse
begin

text \<open>
  \<open>parseTime\<close> and \<open>printTime\<close> of \<^verbatim>\<open>timeparse.c\<close>: the time of an HTTP header, read with \<open>strptime\<close>
  by the format \<^verbatim>\<open>"%a, %d %b %Y %H:%M:%S %Z"\<close>. The fields that \<open>strptime\<close> does not set keep what
  the block had when \<open>malloc\<close> returned it, which is an argument. A field is written when its part of
  the text was read, also when a later part fails; \<open>parseTime\<close> does not look at the result.
\<close>

section \<open>strptime\<close>

definition wday_full :: "string list" where
  "wday_full = [''Sunday'', ''Monday'', ''Tuesday'', ''Wednesday'', ''Thursday'', ''Friday'', ''Saturday'']"

definition mon_full :: "string list" where
  "mon_full = [''January'', ''February'', ''March'', ''April'', ''May'', ''June'', ''July'', ''August'',
     ''September'', ''October'', ''November'', ''December'']"

text \<open>A name in full or abbreviated, in any case: its index, and what follows.\<close>

fun match_name :: "(string \<times> string) list \<Rightarrow> int \<Rightarrow> string \<Rightarrow> (int \<times> string) option" where
  "match_name [] i s = None"
| "match_name ((full, ab) # ns) i s =
     (if strncaseeq s full (length full) then Some (i, drop (length full) s)
      else if strncaseeq s ab (length ab) then Some (i, drop (length ab) s)
      else match_name ns (i + 1) s)"

text \<open>A number of at most \<open>n\<close> digits after white space; a digit that would lead beyond \<open>hi\<close> is not read.\<close>

fun more_digits :: "nat \<Rightarrow> int \<Rightarrow> int \<Rightarrow> string \<Rightarrow> int \<times> string" where
  "more_digits n hi v [] = (v, [])"
| "more_digits n hi v (c # s) =
     (if 0 < n \<and> v * 10 \<le> hi \<and> isdigit c then more_digits (n - 1) hi (v * 10 + digit_val c) s else (v, c # s))"

definition get_number :: "int \<Rightarrow> int \<Rightarrow> nat \<Rightarrow> string \<Rightarrow> (int \<times> string) option" where
  "get_number lo hi n s = (case dropWhile isspace s of
       [] \<Rightarrow> None
     | c # s \<Rightarrow> if isdigit c
         then (let (v, s) = more_digits (n - 1) hi (digit_val c) s in if lo \<le> v \<and> v \<le> hi then Some (v, s) else None)
         else None)"

type_synonym field = "tm \<times> string \<Rightarrow> (tm \<times> string) option"

definition f_char :: "char \<Rightarrow> field" where
  "f_char c = (\<lambda>(t, s). case s of [] \<Rightarrow> None | c' # s' \<Rightarrow> if c' = c then Some (t, s') else None)"

definition f_space :: field where
  "f_space = (\<lambda>(t, s). Some (t, dropWhile isspace s))"

definition f_name :: "string list \<Rightarrow> string list \<Rightarrow> (int \<Rightarrow> tm \<Rightarrow> tm) \<Rightarrow> field" where
  "f_name full ab upd = (\<lambda>(t, s). map_option (\<lambda>(i, s'). (upd i t, s')) (match_name (zip full ab) 0 s))"

definition f_number :: "int \<Rightarrow> int \<Rightarrow> nat \<Rightarrow> (int \<Rightarrow> tm \<Rightarrow> tm) \<Rightarrow> field" where
  "f_number lo hi n upd = (\<lambda>(t, s). map_option (\<lambda>(v, s'). (upd v t, s')) (get_number lo hi n s))"

text \<open>The zone is skipped: it changes nothing.\<close>

definition f_zone :: field where
  "f_zone = (\<lambda>(t, s). Some (t, dropWhile (\<lambda>c. \<not> isspace c) (dropWhile isspace s)))"

definition http_format :: "field list" where
  "http_format = [f_name wday_full wday_names (\<lambda>v t. t\<lparr>tm_wday := v\<rparr>), f_char COMMA, f_space,
     f_number 1 31 2 (\<lambda>v t. t\<lparr>tm_mday := v\<rparr>), f_space, f_name mon_full mon_names (\<lambda>v t. t\<lparr>tm_mon := v\<rparr>), f_space,
     f_number 0 9999 4 (\<lambda>v t. t\<lparr>tm_year := v - 1900\<rparr>), f_space,
     f_number 0 23 2 (\<lambda>v t. t\<lparr>tm_hour := v\<rparr>), f_char COLON, f_number 0 59 2 (\<lambda>v t. t\<lparr>tm_min := v\<rparr>), f_char COLON,
     f_number 0 61 2 (\<lambda>v t. t\<lparr>tm_sec := v\<rparr>), f_space, f_zone]"

fun run_format :: "field list \<Rightarrow> tm \<times> string \<Rightarrow> tm \<times> bool" where
  "run_format [] st = (fst st, True)"
| "run_format (f # fs) st = (case f st of None \<Rightarrow> (fst st, False) | Some st' \<Rightarrow> run_format fs st')"

definition day_of_year :: "tm \<Rightarrow> int" where
  "day_of_year t = days_of_civil (tm_year t + 1900) (tm_mon t + 1) (tm_mday t) - days_of_civil (tm_year t + 1900) 1 1"

text \<open>When all of the text was read, the day of the year is computed from the date.\<close>

definition strptime_http :: "string \<Rightarrow> tm \<Rightarrow> tm \<times> bool" where
  "strptime_http s t = (let (t, ok) = run_format http_format (t, s)
     in if ok then (t\<lparr>tm_yday := day_of_year t\<rparr>, True) else (t, False))"

section \<open>The functions of the program\<close>

definition parseTime :: "tm \<Rightarrow> string \<Rightarrow> tm" where
  "parseTime block timeStr = fst (strptime_http timeStr block)"

definition printTime :: "tm \<Rightarrow> string" where
  "printTime tmm = concat (map (\<lambda>(l, v). l @ [SP] @ show_int v @ [LF])
     [(''wday'', tm_wday tmm), (''mday'', tm_mday tmm), (''mon'', tm_mon tmm), (''yr'', tm_year tmm),
      (''hr'', tm_hour tmm), (''min'', tm_min tmm), (''sec'', tm_sec tmm)])"

section \<open>Numbers as they are written\<close>

definition digit :: "int \<Rightarrow> char" where
  "digit v = char_of (48 + nat v)"

lemma digit_props:
  assumes "0 \<le> v" "v < 10"
  shows "isdigit (digit v)" "digit_val (digit v) = v" "\<not> isspace (digit v)"
proof -
  have "of_char (digit v) = 48 + nat v" using assms by (simp add: digit_def)
  then show "isdigit (digit v)" "digit_val (digit v) = v" "\<not> isspace (digit v)"
    using assms by (auto simp: isdigit_def digit_val_def isspace_def Let_def)
qed

lemma show_int_digit: "0 \<le> v \<Longrightarrow> v < 10 \<Longrightarrow> show_int v = [digit v]"
  by (simp add: show_int_def nat_digits.simps digit_def nat_less_iff)

lemma show_int_more: "10 \<le> v \<Longrightarrow> show_int v = show_int (v div 10) @ [digit (v mod 10)]"
  by (simp add: show_int_def nat_digits.simps [of "nat v"] digit_def nat_div_distrib nat_mod_distrib nat_less_iff)

lemma pad_digits:
  assumes "0 \<le> v" "0 < k"
  shows "pad_left (Suc k) (CHR ''0'') (show_int v) = pad_left k (CHR ''0'') (show_int (v div 10)) @ [digit (v mod 10)]"
proof (cases "v < 10")
  case True
  have "digit 0 = CHR ''0''" by code_simp
  then show ?thesis using assms True by (cases k) (simp_all add: pad_left_def show_int_digit replicate_append_same)
next
  case False
  then show ?thesis by (simp add: pad_left_def show_int_more)
qed

lemma pad_one: "0 \<le> v \<Longrightarrow> v < 10 \<Longrightarrow> pad_left (Suc 0) (CHR ''0'') (show_int v) = [digit v]"
  by (simp add: pad_left_def show_int_digit)

lemma two_digits:
  assumes "0 \<le> v" "v < 100"
  shows "pad_left 2 (CHR ''0'') (show_int v) = [digit (v div 10), digit (v mod 10)]"
proof -
  have "0 \<le> v div 10" "v div 10 < 10" using assms by simp_all
  then show ?thesis using pad_digits [of v 1] pad_one [of "v div 10"] assms by (simp add: numeral_2_eq_2)
qed

lemma four_digits:
  assumes "0 \<le> v" "v < 10000"
  shows "pad_left 4 (CHR ''0'') (show_int v) =
    [digit (v div 1000), digit (v div 100 mod 10), digit (v div 10 mod 10), digit (v mod 10)]"
proof -
  have d: "0 \<le> v div 100" "v div 100 < 100" using assms by simp_all
  have "pad_left 4 (CHR ''0'') (show_int v) =
      pad_left 2 (CHR ''0'') (show_int (v div 10 div 10)) @ [digit (v div 10 mod 10), digit (v mod 10)]"
    using pad_digits [of v 3] pad_digits [of "v div 10" 2] assms by (simp add: numeral_eq_Suc)
  also have "v div 10 div 10 = v div 100" by (simp add: zdiv_zmult2_eq [symmetric])
  also note two_digits [OF d]
  also have "v div 100 div 10 = v div 1000" by (simp add: zdiv_zmult2_eq [symmetric])
  finally show ?thesis by simp
qed

lemma read_two:
  assumes "lo \<le> v" "0 \<le> v" "v \<le> hi" "v < 100"
  shows "get_number lo hi 2 (pad_left 2 (CHR ''0'') (show_int v) @ r) = Some (v, r)"
proof -
  have d: "0 \<le> v div 10" "v div 10 < 10" "0 \<le> v mod 10" "v mod 10 < 10" "v div 10 * 10 \<le> hi"
    "v div 10 * 10 + v mod 10 = v" using assms by simp_all
  show ?thesis
    using digit_props [OF d(1,2)] digit_props [OF d(3,4)] assms d(5,6)
    by (cases r) (simp_all add: two_digits get_number_def)
qed

lemma four_read:
  assumes "0 \<le> a" "a < 10" "0 \<le> b" "b < 10" "0 \<le> c" "c < 10" "0 \<le> d" "d < 10"
  shows "get_number 0 9999 4 (digit a # digit b # digit c # digit d # r) = Some (((a * 10 + b) * 10 + c) * 10 + d, r)"
proof -
  have p: "0 \<le> a * 10 + b" "a * 10 + b \<le> 99" using assms by simp_all
  then have q: "0 \<le> (a * 10 + b) * 10 + c" "(a * 10 + b) * 10 + c \<le> 999"
    using assms(5,6) by simp_all
  have m: "a * 10 \<le> 9999" "(a * 10 + b) * 10 \<le> 9999" "((a * 10 + b) * 10 + c) * 10 \<le> 9999"
    "((a * 10 + b) * 10 + c) * 10 + d \<le> 9999" "0 \<le> ((a * 10 + b) * 10 + c) * 10 + d"
    using assms p q by simp_all
  have "more_digits 3 9999 a (digit b # digit c # digit d # r) = (((a * 10 + b) * 10 + c) * 10 + d, r)"
    using m(1-3) digit_props(1,2) [OF assms(3,4)] digit_props(1,2) [OF assms(5,6)] digit_props(1,2) [OF assms(7,8)]
    by (cases r) simp_all
  then show ?thesis using digit_props [OF assms(1,2)] m(4,5) by (simp add: get_number_def)
qed

lemma read_four:
  assumes "0 \<le> v" "v \<le> 9999"
  shows "get_number 0 9999 4 (pad_left 4 (CHR ''0'') (show_int v) @ r) = Some (v, r)"
proof -
  have q: "v div 1000 = v div 100 div 10" "v div 100 = v div 10 div 10" by (simp_all add: zdiv_zmult2_eq [symmetric])
  have e: "((v div 1000 * 10 + v div 100 mod 10) * 10 + v div 10 mod 10) * 10 + v mod 10 = v" unfolding q by simp
  have "0 \<le> v div 1000" "v div 1000 < 10" using assms by simp_all
  from four_read [OF this, of "v div 100 mod 10" "v div 10 mod 10" "v mod 10" r, unfolded e]
  have "get_number 0 9999 4 (digit (v div 1000) # digit (v div 100 mod 10) # digit (v div 10 mod 10) # digit (v mod 10) # r) =
      Some (v, r)" by simp
  moreover have "v < 10000" using assms(2) by simp
  ultimately show ?thesis using four_digits [OF assms(1)] by simp
qed

section \<open>Dates as HTTP writes them\<close>

text \<open>The date of RFC 1123.\<close>

definition http_date :: "tm \<Rightarrow> string" where
  "http_date t = name_of wday_names (tm_wday t) @ [COMMA, SP] @ pad_left 2 (CHR ''0'') (show_int (tm_mday t)) @ [SP]
     @ name_of mon_names (tm_mon t) @ [SP] @ pad_left 4 (CHR ''0'') (show_int (tm_year t + 1900)) @ [SP]
     @ pad_left 2 (CHR ''0'') (show_int (tm_hour t)) @ [COLON] @ pad_left 2 (CHR ''0'') (show_int (tm_min t)) @ [COLON]
     @ pad_left 2 (CHR ''0'') (show_int (tm_sec t)) @ '' GMT''"

lemma below_7: "0 \<le> i \<Longrightarrow> i \<le> 6 \<Longrightarrow> i = 0 \<or> i = 1 \<or> i = 2 \<or> i = 3 \<or> i = 4 \<or> i = 5 \<or> i = (6::int)"
  by presburger

lemma below_12: "0 \<le> i \<Longrightarrow> i \<le> 11 \<Longrightarrow> i = 0 \<or> i = 1 \<or> i = 2 \<or> i = 3 \<or> i = 4 \<or> i = 5 \<or>
    i = 6 \<or> i = 7 \<or> i = 8 \<or> i = 9 \<or> i = 10 \<or> i = (11::int)"
  by presburger

text \<open>The comparison of a prefix, byte for byte.\<close>

fun starts_with :: "string \<Rightarrow> string \<Rightarrow> bool" where
  "starts_with s [] = True"
| "starts_with [] (b # t) = False"
| "starts_with (a # s) (b # t) = (if tolower a = tolower b then starts_with s t else False)"

lemma strncaseeq_starts: "strncaseeq s t (length t) = starts_with s t"
  by (induction s t rule: starts_with.induct) (auto simp: strncaseeq_def)

lemma match_name_Cons:
  "match_name ((full, ab) # ns) i s =
     (if starts_with s full then Some (i, drop (length full) s)
      else if starts_with s ab then Some (i, drop (length ab) s) else match_name ns (i + 1) s)"
  by (simp add: strncaseeq_starts)

lemma read_wday:
  assumes "0 \<le> i" "i \<le> 6"
  shows "match_name (zip wday_full wday_names) 0 (name_of wday_names i @ COMMA # r) = Some (i, COMMA # r)"
  using below_7 [OF assms]
  by (elim disjE) (simp_all add: name_of_def wday_names_def wday_full_def match_name_Cons tolower_def del: match_name.simps(2))

lemma read_mon:
  assumes "0 \<le> i" "i \<le> 11"
  shows "match_name (zip mon_full mon_names) 0 (name_of mon_names i @ SP # r) = Some (i, SP # r)"
  using below_12 [OF assms]
  by (elim disjE) (simp_all add: name_of_def mon_names_def mon_full_def match_name_Cons tolower_def del: match_name.simps(2))

lemma blanks: "isspace SP" "\<not> isspace (CHR ''G'')" "\<not> isspace (CHR ''M'')" "\<not> isspace (CHR ''T'')"
  by (simp_all add: isspace_def)

lemma skip_number:
  "0 \<le> v \<Longrightarrow> v < 100 \<Longrightarrow> dropWhile isspace (pad_left 2 (CHR ''0'') (show_int v) @ r) = pad_left 2 (CHR ''0'') (show_int v) @ r"
  "0 \<le> v \<Longrightarrow> v < 10000 \<Longrightarrow> dropWhile isspace (pad_left 4 (CHR ''0'') (show_int v) @ r) = pad_left 4 (CHR ''0'') (show_int v) @ r"
  using digit_props(3) [of "v div 10"] digit_props(3) [of "v div 1000"] by (simp_all add: two_digits four_digits)

lemma skip_mon:
  assumes "0 \<le> i" "i \<le> 11"
  shows "dropWhile isspace (name_of mon_names i @ r) = name_of mon_names i @ r"
  using below_12 [OF assms] by (elim disjE) (simp_all add: name_of_def mon_names_def isspace_def)

text \<open>The fields, on the text of a date.\<close>

lemma field_steps:
  "f_char c (t, c # s) = Some (t, s)"
  "f_space (t, SP # s) = Some (t, dropWhile isspace s)"
  "0 \<le> i \<Longrightarrow> i \<le> 6 \<Longrightarrow> f_name wday_full wday_names upd (t, name_of wday_names i @ COMMA # s) = Some (upd i t, COMMA # s)"
  "0 \<le> i \<Longrightarrow> i \<le> 11 \<Longrightarrow> f_name mon_full mon_names upd (t, name_of mon_names i @ SP # s) = Some (upd i t, SP # s)"
  "lo \<le> v \<Longrightarrow> 0 \<le> v \<Longrightarrow> v \<le> hi \<Longrightarrow> v < 100 \<Longrightarrow>
    f_number lo hi 2 upd (t, pad_left 2 (CHR ''0'') (show_int v) @ s) = Some (upd v t, s)"
  "0 \<le> v \<Longrightarrow> v \<le> 9999 \<Longrightarrow> f_number 0 9999 4 upd (t, pad_left 4 (CHR ''0'') (show_int v) @ s) = Some (upd v t, s)"
  by (simp_all add: f_char_def f_space_def blanks f_name_def read_wday read_mon f_number_def read_two read_four)

lemma gmtime_yday: "gmtime x = Some c \<Longrightarrow> tm_yday c = day_of_year c"
  using days_of_civil_inverse(1) [of "x div 86400"]
  by (auto simp: gmtime_def Let_def day_of_year_def int_of_bits_def split: prod.splits if_splits)

lemma date_read:
  assumes "0 \<le> tm_sec c \<and> tm_sec c \<le> 59" "0 \<le> tm_min c \<and> tm_min c \<le> 59" "0 \<le> tm_hour c \<and> tm_hour c \<le> 23"
    and "1 \<le> tm_mday c \<and> tm_mday c \<le> 31" "0 \<le> tm_mon c \<and> tm_mon c \<le> 11" "0 \<le> tm_wday c \<and> tm_wday c \<le> 6"
    and "0 \<le> tm_year c + 1900 \<and> tm_year c + 1900 \<le> 9999"
  shows "run_format http_format (t, http_date c) =
    (c\<lparr>tm_yday := tm_yday t, tm_isdst := tm_isdst t\<rparr>, True)"
proof -
  have g: "f_zone (t, ''GMT'') = Some (t, [])" for t
    by (simp add: f_zone_def blanks)
  show ?thesis unfolding http_format_def http_date_def using assms
    by (cases c, cases t) (simp add: field_steps g skip_number skip_mon blanks)
qed

section \<open>Properties\<close>

text \<open>C26: \<open>parseTime\<close> reads back every time that is written as an HTTP date, in all fields but the flag for
  daylight saving, which keeps what was in the block.\<close>

theorem http_date_round_trip:
  assumes "gmtime x = Some c" "0 \<le> tm_year c + 1900" "tm_year c + 1900 \<le> 9999"
  shows "parseTime block (http_date c) = c\<lparr>tm_isdst := tm_isdst block\<rparr>"
proof -
  note b = gmtime_SomeD [OF assms(1)]
  have "run_format http_format (block, http_date c) = (c\<lparr>tm_yday := tm_yday block, tm_isdst := tm_isdst block\<rparr>, True)"
    using b(2-7) assms(2,3) by (intro date_read) simp_all
  then show ?thesis using gmtime_yday [OF assms(1)]
    by (simp add: parseTime_def strptime_http_def day_of_year_def)
qed

theorem http_date_round_trip_witness:
  "\<exists>c. gmtime 1255 = Some c \<and> http_date c = ''Thu, 01 Jan 1970 00:20:55 GMT'' \<and>
    parseTime (c\<lparr>tm_hour := 77\<rparr>) ''Thu, 01 Jan 1970 00:20:55 GMT'' = c"
proof -
  define c where "c = the (gmtime 1255)"
  have c: "gmtime 1255 = Some c" "http_date c = ''Thu, 01 Jan 1970 00:20:55 GMT''" "tm_year c = 70"
    unfolding c_def by code_simp+
  from http_date_round_trip [OF c(1), of "c\<lparr>tm_hour := 77\<rparr>"] c show ?thesis by simp
qed

text \<open>A text that does not start with the name of a day, as \<^verbatim>\<open>Expires: 0\<close>, is not noticed: what \<open>parseTime\<close>
  returns is the block as \<open>malloc\<close> gave it.\<close>

lemma no_date_no_time:
  assumes "match_name (zip wday_full wday_names) 0 s = None"
  shows "parseTime block s = block"
  using assms by (simp add: parseTime_def strptime_http_def http_format_def f_name_def)

lemma expires_zero: "parseTime block ''0'' = block"
  by (rule no_date_no_time) code_simp

end
