(* ===== verification/Sample_Net.thy ===== *)
theory Sample_Net
  imports Sockets
begin

text \<open>
  The network programs in \<^verbatim>\<open>sockets\<close> and \<^verbatim>\<open>extra\<close>, on which the proxy was tried out: servers that greet every
  client (\<^verbatim>\<open>sockets/httpServer.c\<close>, and with a thread per connection \<^verbatim>\<open>extra/httpServer.c\<close>) or log what it
  sends (\<^verbatim>\<open>extra/httpServerMod.c\<close>), and clients that send a request (\<^verbatim>\<open>sockets/httpClient.c\<close>,
  \<^verbatim>\<open>client2.c\<close>) or read the time of day (\<^verbatim>\<open>sockets/client.c\<close>). A program ends with an exit status, after
  the lines that it printed; the texts of \<open>perror\<close> are without what the system adds.
\<close>

section \<open>The greeting server\<close>

definition greeting :: string where
  "greeting = ''Booyakasha Bounty!'' @ [CR, LF, CR, LF]"

text \<open>The greeting is written once, whatever \<open>write\<close> makes of it, and the connection is closed.\<close>

definition greet :: "sock \<Rightarrow> sock \<times> string list" where
  "greet c = (case swrite c greeting of
       (None, c) \<Rightarrow> (c, [''Unable to write to client''])
     | (Some n, c) \<Rightarrow> (c, []))"

text \<open>The loop, on what \<open>accept\<close> returns: the exit status, the lines printed and the connections closed.
  At the end of the list the server waits for the next client.\<close>

fun accept_loop :: "sock option list \<Rightarrow> int option \<times> string list \<times> sock list" where
  "accept_loop [] = (None, [], [])"
| "accept_loop (None # cs) = (Some 0, [''Unable to accept connection''], [])"
| "accept_loop (Some c # cs) =
     (let (c, out) = greet c; (e, con, closed) = accept_loop cs
      in (e, ''Connection received!'' # out @ con, c # closed))"

definition server_start :: "int \<Rightarrow> int \<Rightarrow> (int option \<times> string list) option" where
  "server_start listenfd bound =
     (if listenfd < 0 then Some (Some 0, [''ERROR opening listening socket''])
      else if bound \<noteq> 0 then Some (Some 0, [''Unable to bind'']) else None)"

definition httpServer :: "int \<Rightarrow> int \<Rightarrow> sock option list \<Rightarrow> int option \<times> string list \<times> sock list" where
  "httpServer listenfd bound cs = (case server_start listenfd bound of
       Some (e, con) \<Rightarrow> (e, con, [])
     | None \<Rightarrow> (let (e, con, closed) = accept_loop cs
         in (e, (''Listening on socket of fd '' @ show_int listenfd) # con, closed)))"

lemma greet_sent:
  "\<exists>k. sent (fst (greet c)) = sent c @ take k greeting" "wr c = [] \<Longrightarrow> sent (fst (greet c)) = sent c @ greeting"
proof -
  obtain r c' where w: "swrite c greeting = (r, c')" by fastforce
  show "\<exists>k. sent (fst (greet c)) = sent c @ take k greeting"
    using swrite_Some(2) [of c greeting _ c'] swrite_None [of c greeting c'] w
    by (cases r) (auto simp: greet_def intro: exI [of _ 0])
  show "wr c = [] \<Longrightarrow> sent (fst (greet c)) = sent c @ greeting" by (simp add: greet_def swrite_def)
qed

text \<open>All connections before the first error of \<open>accept\<close> are greeted and closed, in their order.\<close>

lemma accept_loop_serves:
  "accept_loop cs = (e, con, closed) \<Longrightarrow>
    closed = map (fst \<circ> greet \<circ> the) (takeWhile (\<lambda>c. c \<noteq> None) cs) \<and> e = (if None \<in> set cs then Some 0 else None)"
  by (induction cs arbitrary: e con closed rule: accept_loop.induct) (auto split: prod.splits)

section \<open>A thread for every connection\<close>

text \<open>The descriptor is handed to the thread in a block of its own, which the thread frees.\<close>

record served =
  sv_holders :: "nat \<Rightarrow> int option"
  sv_conns :: "int \<Rightarrow> sock"
  sv_open :: "int set"
  sv_brk :: nat

definition spawn :: "int \<Rightarrow> sock \<Rightarrow> served \<Rightarrow> nat \<times> served" where
  "spawn connfd c s = (let fdHolder = sv_brk s in
     (fdHolder, s\<lparr>sv_holders := (sv_holders s)(fdHolder \<mapsto> connfd), sv_conns := (sv_conns s)(connfd := c),
       sv_open := insert connfd (sv_open s), sv_brk := fdHolder + 1\<rparr>))"

definition greet_thread :: "nat \<Rightarrow> served \<Rightarrow> served option" where
  "greet_thread connFdHolder s = do {
     connFd \<leftarrow> sv_holders s connFdHolder;
     Some (s\<lparr>sv_holders := (sv_holders s)(connFdHolder := None),
       sv_conns := (sv_conns s)(connFd := fst (greet (sv_conns s connFd))), sv_open := sv_open s - {connFd}\<rparr>) }"

fun greet_threads :: "nat list \<Rightarrow> served \<Rightarrow> served option" where
  "greet_threads [] s = Some s"
| "greet_threads (p # ps) s = do { s \<leftarrow> greet_thread p s; greet_threads ps s }"

text \<open>The threads share nothing: in whatever order they run, no block is used after it was freed, and each of
  their connections is greeted once and closed.\<close>

definition own_holders :: "served \<Rightarrow> nat set \<Rightarrow> bool" where
  "own_holders s P \<longleftrightarrow> P \<subseteq> dom (sv_holders s) \<and> inj_on (sv_holders s) P"

definition fds_of :: "served \<Rightarrow> nat set \<Rightarrow> int set" where
  "fds_of s P = {fd. \<exists>p\<in>P. sv_holders s p = Some fd}"

lemma threads_serve:
  assumes "distinct ps" "own_holders s (set ps)"
  shows "greet_threads ps s = Some (s\<lparr>sv_holders := (\<lambda>p. if p \<in> set ps then None else sv_holders s p),
    sv_conns := (\<lambda>fd. if fd \<in> fds_of s (set ps) then fst (greet (sv_conns s fd)) else sv_conns s fd),
    sv_open := sv_open s - fds_of s (set ps)\<rparr>)"
  using assms
proof (induction ps arbitrary: s)
  case Nil
  then show ?case by (simp add: fds_of_def)
next
  case (Cons p ps)
  obtain fd where fd: "sv_holders s p = Some fd" using Cons.prems(2) by (auto simp: own_holders_def)
  let ?t = "s\<lparr>sv_holders := (sv_holders s)(p := None),
       sv_conns := (sv_conns s)(fd := fst (greet (sv_conns s fd))), sv_open := sv_open s - {fd}\<rparr>"
  have t: "greet_thread p s = Some ?t" using fd by (simp add: greet_thread_def)
  have own: "own_holders ?t (set ps)" using Cons.prems by (auto simp: own_holders_def inj_on_def)
  have not: "fd \<notin> fds_of ?t (set ps)"
    using Cons.prems fd by (auto simp: fds_of_def own_holders_def inj_on_def)
  have fds: "fds_of s (set (p # ps)) = insert fd (fds_of ?t (set ps))"
    using Cons.prems(1) fd by (auto simp: fds_of_def)
  define F where "F = fds_of ?t (set ps)"
  have "(\<lambda>q. if q \<in> set ps then None else sv_holders ?t q) = (\<lambda>q. if q \<in> set (p # ps) then None else sv_holders s q)"
    "(\<lambda>x. if x \<in> F then fst (greet (sv_conns ?t x)) else sv_conns ?t x) =
      (\<lambda>x. if x \<in> insert fd F then fst (greet (sv_conns s x)) else sv_conns s x)"
    "sv_open ?t - F = sv_open s - insert fd F" using not by (auto simp: F_def)
  then show ?case using t Cons.IH [OF _ own] Cons.prems(1) unfolding fds F_def [symmetric] by simp
qed

lemma spawn_own:
  assumes "own_holders s P" "\<forall>p\<in>P. p < sv_brk s" "fds_of s P \<subseteq> sv_open s" "fd \<notin> sv_open s" "spawn fd c s = (q, t)"
  shows "own_holders t (insert q P)" "\<forall>p\<in>insert q P. p < sv_brk t" "fds_of t (insert q P) \<subseteq> sv_open t"
proof -
  have t: "q = sv_brk s" "sv_holders t = (sv_holders s)(q \<mapsto> fd)" "sv_brk t = q + 1" "sv_open t = insert fd (sv_open s)"
    using assms(5) by (auto simp: spawn_def Let_def)
  have q: "q \<notin> P" using assms(2) t(1) by auto
  have "\<forall>p\<in>P. sv_holders s p \<noteq> Some fd" using assms(3,4) by (auto simp: fds_of_def)
  then show "own_holders t (insert q P)" using assms(1) q by (auto simp: own_holders_def t(2) inj_on_def)
  show "\<forall>p\<in>insert q P. p < sv_brk t" using assms(2) t(1,3) by auto
  show "fds_of t (insert q P) \<subseteq> sv_open t" using assms(3) q by (auto simp: fds_of_def t(2,4))
qed

text \<open>The loop of \<open>main\<close>, with the blocks that were handed to the threads. \<open>pthread_create\<close> succeeds.\<close>

fun spawn_loop :: "(int \<times> sock) option list \<Rightarrow> served \<Rightarrow> int option \<times> nat list \<times> served" where
  "spawn_loop [] s = (None, [], s)"
| "spawn_loop (None # cs) s = (Some 0, [], s)"
| "spawn_loop (Some (connfd, c) # cs) s =
     (let (p, s) = spawn connfd c s; (e, ps, s) = spawn_loop cs s in (e, p # ps, s))"

definition no_clients :: served where
  "no_clients = \<lparr>sv_holders = (\<lambda>_. None), sv_conns = (\<lambda>_. \<lparr>rx = [], wr = [], sent = []\<rparr>), sv_open = {}, sv_brk = 1\<rparr>"

definition threaded_server :: "int \<Rightarrow> int \<Rightarrow> (int \<times> sock) option list \<Rightarrow> int option \<times> nat list \<times> served" where
  "threaded_server listenfd bound cs = (case server_start listenfd bound of
       Some (e, con) \<Rightarrow> (e, [], no_clients)
     | None \<Rightarrow> spawn_loop cs no_clients)"

lemma spawn_loop_own:
  assumes "spawn_loop (map Some cs) s = (e, ps, t)" "distinct (map fst cs)" "fst ` set cs \<inter> sv_open s = {}"
    and "own_holders s P" "\<forall>p\<in>P. p < sv_brk s" "fds_of s P \<subseteq> sv_open s"
  shows "own_holders t (P \<union> set ps) \<and> distinct ps \<and> set ps \<subseteq> {sv_brk s..} \<and>
    fds_of t (set ps) = fst ` set cs \<and> (\<forall>fd c. (fd, c) \<in> set cs \<longrightarrow> sv_conns t fd = c) \<and>
    (\<forall>p<sv_brk s. sv_holders t p = sv_holders s p) \<and> (\<forall>fd. fd \<notin> fst ` set cs \<longrightarrow> sv_conns t fd = sv_conns s fd)"
  using assms
proof (induction cs arbitrary: s e ps t P)
  case Nil
  then show ?case by (simp add: fds_of_def)
next
  case (Cons x cs)
  obtain fd c where x: "x = (fd, c)" by fastforce
  obtain p s1 where s1: "spawn fd c s = (p, s1)" by fastforce
  obtain e' qs t' where qs: "spawn_loop (map Some cs) s1 = (e', qs, t')" by (metis prod_cases3)
  have eq: "e = e'" "ps = p # qs" "t = t'" using Cons.prems(1) by (simp_all add: x s1 qs)
  have st: "p = sv_brk s" "sv_holders s1 = (sv_holders s)(p \<mapsto> fd)" "sv_brk s1 = p + 1" "sv_open s1 = insert fd (sv_open s)"
    "sv_conns s1 = (sv_conns s)(fd := c)" using s1 by (auto simp: spawn_def Let_def)
  have new: "fd \<notin> sv_open s" "fd \<notin> fst ` set cs" using Cons.prems(2,3) by (auto simp: x)
  note own = spawn_own [OF Cons.prems(4-6) new(1) s1]
  have "fst ` set cs \<inter> sv_open s1 = {}" using Cons.prems(3) new(2) by (auto simp: st(4) x)
  then have ih: "own_holders t (insert p P \<union> set qs)" "distinct qs" "set qs \<subseteq> {sv_brk s1..}"
    "fds_of t (set qs) = fst ` set cs" "\<forall>fd c. (fd, c) \<in> set cs \<longrightarrow> sv_conns t fd = c"
    "\<forall>p<sv_brk s1. sv_holders t p = sv_holders s1 p" "\<forall>fd. fd \<notin> fst ` set cs \<longrightarrow> sv_conns t fd = sv_conns s1 fd"
    using Cons.IH [OF qs [folded eq(3)] _ _ own] Cons.prems(2) by auto
  have "sv_holders t p = Some fd" using ih(6) st(2,3) by simp
  then have "fds_of t (set (p # qs)) = insert fd (fds_of t (set qs))" by (auto simp: fds_of_def)
  moreover have "p \<notin> set qs" "set qs \<subseteq> {sv_brk s..}" using ih(3) st(1,3) by auto
  moreover have "\<forall>q<sv_brk s. sv_holders t q = sv_holders s q" using ih(6) st(1-3) by auto
  moreover have "sv_conns t fd = c" using ih(7) new(2) st(5) by simp
  ultimately show ?case using ih new(2) st(1,5) unfolding eq(2) x by auto
qed

text \<open>The threaded server, for as long as \<open>accept\<close> succeeds: in whatever order the threads run to their end,
  all of them find their block, and every client is greeted once.\<close>

lemma threaded_server_greets:
  assumes "threaded_server listenfd bound (map Some cs) = (e, ps, s)" "0 \<le> listenfd" "bound = 0"
    and "distinct (map fst cs)" "set qs = set ps" "distinct qs"
  shows "\<exists>t. greet_threads qs s = Some t \<and> (\<forall>fd c. (fd, c) \<in> set cs \<longrightarrow> sv_conns t fd = fst (greet c) \<and> fd \<notin> sv_open t)"
proof -
  have "spawn_loop (map Some cs) no_clients = (e, ps, s)"
    using assms(1-3) by (simp add: threaded_server_def server_start_def)
  from spawn_loop_own [OF this assms(4), of "{}"] have s: "own_holders s (set ps)" "fds_of s (set ps) = fst ` set cs"
    "\<forall>fd c. (fd, c) \<in> set cs \<longrightarrow> sv_conns s fd = c" by (simp_all add: no_clients_def own_holders_def fds_of_def)
  have "own_holders s (set qs)" using s(1) assms(5) by simp
  from threads_serve [OF assms(6) this] show ?thesis using s(2,3) unfolding assms(5) by force
qed

section \<open>The logging server\<close>

definition MOD_BUFSIZE :: nat where "MOD_BUFSIZE = 10000"

text \<open>\<open>log\<close> empties the file before it writes to it; without a file the process exits.\<close>

definition log_file :: "bool \<Rightarrow> string \<Rightarrow> string + int" where
  "log_file opened msg = (if opened then Inl msg else Inr 1)"

text \<open>One read into a block that \<open>malloc\<close> returned with the content \<open>block\<close>. The text ends at the
  first NUL, wherever it comes from. Nothing is sent.\<close>

definition mod_thread :: "bool \<Rightarrow> cbuf \<Rightarrow> sock \<Rightarrow> ((string + int) \<times> sock) option" where
  "mod_thread opened block c = (case sread MOD_BUFSIZE (rx c) of (rd, r) \<Rightarrow> do {
     stringbuffer \<leftarrow> (case rd of None \<Rightarrow> Some block | Some d \<Rightarrow> store_bytes block 0 d);
     msg \<leftarrow> cstr stringbuffer 0;
     Some (log_file opened msg, c\<lparr>rx := r\<rparr>) })"

text \<open>\<open>main\<close> is the one of the threaded server, with this thread.\<close>

definition mod_server :: "int \<Rightarrow> int \<Rightarrow> (int \<times> sock) option list \<Rightarrow> int option \<times> nat list \<times> served" where
  "mod_server = threaded_server"

lemma mod_thread_logs:
  assumes "sread MOD_BUFSIZE (rx c) = (Some d, r)" "length block = MOD_BUFSIZE" "NUL \<notin> set d"
  shows "mod_thread True block c = (if NUL \<in> set (drop (length d) block)
    then Some (Inl (d @ takeWhile (\<lambda>c. c \<noteq> NUL) (drop (length d) block)), c\<lparr>rx := r\<rparr>) else None)"
proof -
  have st: "store_bytes block 0 d = Some (d @ drop (length d) block)"
    using sread_data(1) [OF assms(1)] assms(2) by (simp add: store_bytes_def)
  show ?thesis
  proof (cases "NUL \<in> set (drop (length d) block)")
    case True
    then obtain u v where u: "drop (length d) block = u @ NUL # v" "NUL \<notin> set u" by (rule split_list_at)
    have "cstr (d @ u @ NUL # v) 0 = Some (d @ u)"
      using cstr_at [of "d @ u" "[]" v] assms(3) u(2) by simp
    moreover have "takeWhile (\<lambda>c. c \<noteq> NUL) (u @ NUL # v) = u" using u(2) by (simp add: takeWhile_append takeWhile_id_notin)
    ultimately show ?thesis using assms(1) st by (simp add: mod_thread_def u(1) log_file_def)
  next
    case False
    then have "cstr (d @ drop (length d) block) 0 = None"
      using assms(3) by (simp add: cstr_def strlen_def takeWhile_id_notin)
    then show ?thesis using False assms(1) st by (simp add: mod_thread_def)
  qed
qed

section \<open>The clients\<close>

definition CLI_BUFSIZE :: nat where "CLI_BUFSIZE = 1024"

definition client_request :: "string \<Rightarrow> string" where
  "client_request hostname = ''GET / HTTP 1.0'' @ [CR, LF] @ ''Host: '' @ hostname @ [CR, LF, CR, LF]"

text \<open>What is done with the connected socket: the request is written once, one read of the answer fills
  the cleared buffer, and the text in it is printed. The buffer has no byte more than the read may fill.\<close>

definition echo :: "string \<Rightarrow> sock \<Rightarrow> ((int \<times> string list) \<times> sock) option" where
  "echo line s = do {
     buf \<leftarrow> sprintf CLI_BUFSIZE line;
     let s = snd (swrite s buf);
     (case sread CLI_BUFSIZE (rx s) of
        (None, r) \<Rightarrow> Some ((0, [''ERROR reading from socket'']), s\<lparr>rx := r\<rparr>)
      | (Some d, r) \<Rightarrow> do {
          buf \<leftarrow> store_bytes (replicate CLI_BUFSIZE NUL) 0 d;
          t \<leftarrow> cstr buf 0;
          Some ((0, [''Echo from server: '' @ t]), s\<lparr>rx := r\<rparr>) }) }"

text \<open>\<open>main\<close> of the two clients; \<open>client2.c\<close> asks for a fixed host. The name service and the network
  are parameters; the port is cut to 16 bits. A result is an exit status and the lines printed.\<close>

definition http_client :: "(string \<Rightarrow> string) \<Rightarrow> (string \<Rightarrow> bool) \<Rightarrow> (string \<Rightarrow> int \<Rightarrow> sock option) \<Rightarrow> int \<Rightarrow> string list
    \<Rightarrow> (int \<times> string list) option" where
  "http_client req resolves net sockfd argv =
     (if length argv \<noteq> 3 then Some (0, [''usage: '' @ hd argv @ '' <hostname> <port>''])
      else (let hostname = argv ! 1; portno = atoi (argv ! 2) in
        if sockfd < 0 then Some (0, [''ERROR opening socket''])
        else if \<not> resolves hostname then Some (0, [''ERROR, no such host as '' @ hostname])
        else (case net hostname (portno mod 2 ^ 16) of
            None \<Rightarrow> Some (0, [''ERROR connecting''])
          | Some s \<Rightarrow> do {
              (r, s) \<leftarrow> echo (req hostname) s;
              Some (fst r, ''Successfully connected!'' # snd r) })))"

definition httpClient :: "(string \<Rightarrow> bool) \<Rightarrow> (string \<Rightarrow> int \<Rightarrow> sock option) \<Rightarrow> int \<Rightarrow> string list \<Rightarrow> (int \<times> string list) option" where
  "httpClient = http_client client_request"

definition client2 :: "(string \<Rightarrow> bool) \<Rightarrow> (string \<Rightarrow> int \<Rightarrow> sock option) \<Rightarrow> int \<Rightarrow> string list \<Rightarrow> (int \<times> string list) option" where
  "client2 = http_client (\<lambda>_. client_request ''wl-10-190-70-23.wireless.duke.edu'')"

lemma echo_prints:
  assumes "length line < CLI_BUFSIZE" "sread CLI_BUFSIZE (rx s) = (Some d, r)" "NUL \<notin> set d"
  shows "echo line s = (if length d < CLI_BUFSIZE
    then Some ((0, [''Echo from server: '' @ d]), (snd (swrite s line))\<lparr>rx := r\<rparr>) else None)"
proof -
  obtain k s' where "swrite s line = (k, s')" by fastforce
  then have rx: "rx (snd (swrite s line)) = rx s"
    by (cases k) (auto dest: swrite_Some(3) swrite_None)
  have l: "length d \<le> CLI_BUFSIZE" by (rule sread_data(1) [OF assms(2)])
  then have st: "store_bytes (replicate CLI_BUFSIZE NUL) 0 d = Some (d @ replicate (CLI_BUFSIZE - length d) NUL)"
    by (simp add: store_bytes_def)
  show ?thesis
  proof (cases "length d < CLI_BUFSIZE")
    case True
    then have "replicate (CLI_BUFSIZE - length d) NUL = NUL # replicate (CLI_BUFSIZE - length d - 1) NUL"
      by (cases "CLI_BUFSIZE - length d") simp_all
    then have "cstr (d @ replicate (CLI_BUFSIZE - length d) NUL) 0 = Some d"
      using cstr_at [OF assms(3), of "[]" "replicate (CLI_BUFSIZE - length d - 1) NUL"] by simp
    then show ?thesis using True assms(1,2) st rx by (simp add: echo_def sprintf_def Let_def)
  next
    case False
    then have "cstr (d @ replicate (CLI_BUFSIZE - length d) NUL) 0 = None"
      using l assms(3) by (simp add: cstr_def strlen_def takeWhile_id_notin)
    then show ?thesis using False assms(1,2) st rx by (simp add: echo_def sprintf_def Let_def)
  qed
qed

text \<open>A name of a host of 1000 bytes is too much for the request.\<close>

lemma long_host_overflows:
  assumes "CLI_BUFSIZE \<le> length hostname + 26"
  shows "echo (client_request hostname) s = None"
  using assms by (simp add: echo_def sprintf_def client_request_def CLI_BUFSIZE_def)

definition MAXLINE :: nat where "MAXLINE = 4096"

text \<open>The client of the time service: reads into an array of one byte more, until the server closes.\<close>

function read_lines :: "ev list \<Rightarrow> (string \<times> bool) option" where
  "read_lines r = (case sread MAXLINE r of
       (None, r) \<Rightarrow> Some ([], False)
     | (Some d, r) \<Rightarrow> if d = [] then Some ([], True)
         else do {
           recvline \<leftarrow> store_bytes (replicate (MAXLINE + 1) NUL) 0 (d @ [NUL]);
           t \<leftarrow> cstr recvline 0;
           (ts, ok) \<leftarrow> read_lines r;
           Some (t @ ts, ok) })"
  by pat_completeness auto
termination
  by (relation "measure script_size") (auto dest: sread_size [OF sym])

declare read_lines.simps [simp del]

text \<open>\<open>main\<close>: the exit status and what it prints, given what \<open>inet_pton\<close> makes of the argument.\<close>

definition daytime :: "(string \<Rightarrow> int option) \<Rightarrow> (int \<Rightarrow> sock option) \<Rightarrow> int \<Rightarrow> string list \<Rightarrow> (int \<times> string) option" where
  "daytime pton net sockfd argv =
     (if length argv \<noteq> 2 \<or> sockfd < 0 then Some (1, [])
      else (case pton (argv ! 1) of
          None \<Rightarrow> Some (1, [])
        | Some ip \<Rightarrow> (let out = ''Connecting to ip address '' @ show_int ip @ ''l'' @ [LF] in
            case net ip of
              None \<Rightarrow> Some (1, out)
            | Some s \<Rightarrow> do {
                (t, ok) \<leftarrow> read_lines (rx s);
                Some (if ok then (0, out @ t @ ''Server exiting.'' @ [LF]) else (1, out @ t)) })))"

lemma read_lines_all:
  assumes "NUL \<notin> set (arrives r)" "ReadErr \<notin> set r"
  shows "read_lines r = Some (arrives r, True)"
  using assms
proof (induction r rule: read_lines.induct)
  case (1 r)
  obtain d r' where d: "sread MAXLINE r = (Some d, r')" "arrives r = d @ arrives r'" "ReadErr \<notin> set r'"
    using sread_first [OF 1(3), of MAXLINE] by (auto simp: MAXLINE_def)
  show ?case
  proof (cases "d = []")
    case True
    then show ?thesis using d sread_end [of MAXLINE r r'] by (subst read_lines.simps) (simp add: MAXLINE_def)
  next
    case False
    have l: "length d \<le> MAXLINE" by (rule sread_data(1) [OF d(1)])
    then have st: "store_bytes (replicate (MAXLINE + 1) NUL) 0 (d @ [NUL]) = Some (d @ NUL # replicate (MAXLINE - length d) NUL)"
      by (simp add: store_bytes_def)
    have c: "cstr (d @ NUL # replicate (MAXLINE - length d) NUL) 0 = Some d"
      using cstr_at [of d "[]"] 1(2) d(2) by simp
    have "read_lines r' = Some (arrives r', True)"
      using 1(1) [OF d(1) [symmetric] refl False st c] 1(2) d(2,3) by simp
    with c show ?thesis using d False st by (subst read_lines.simps) simp
  qed
qed

end
