(* ===== verification/Sample_Data.thy ===== *)
theory Sample_Data
  imports CString
begin

text \<open>
  The exercises with data: the linked list of \<^verbatim>\<open>extra/ll.c\<close>, which became the stack of requests, and the
  thread that computes a Fibonacci number in \<^verbatim>\<open>threads/threads.c\<close>.
\<close>

section \<open>The linked list\<close>

text \<open>\<open>createLL\<close> does not set \<open>next\<close>: what the block has there when \<open>malloc\<close> returns it is a part of
  the state. NULL is 0.\<close>

record LL =
  ll_val :: int
  ll_next :: nat

record ll_heap =
  cells :: "nat \<Rightarrow> LL option"
  garbage :: "nat \<Rightarrow> nat"
  ll_brk :: nat

definition createLL :: "int \<Rightarrow> ll_heap \<Rightarrow> nat \<times> ll_heap" where
  "createLL v h = (let head = ll_brk h in
     (head, h\<lparr>cells := (cells h)(head \<mapsto> \<lparr>ll_val = v, ll_next = garbage h head\<rparr>), ll_brk := head + 1\<rparr>))"

partial_function (option) ll_end :: "ll_heap \<Rightarrow> nat \<Rightarrow> nat option" where
  "ll_end h current = do {
     c \<leftarrow> cells h current;
     if ll_next c \<noteq> 0 then ll_end h (ll_next c) else Some current }"

definition addToLL :: "nat \<Rightarrow> int \<Rightarrow> ll_heap \<Rightarrow> (nat \<times> ll_heap) option" where
  "addToLL lst v h =
     (if lst = 0 then Some (createLL v h)
      else do {
        current \<leftarrow> ll_end h lst;
        let (n, h) = createLL v h;
        c \<leftarrow> cells h current;
        Some (lst, h\<lparr>cells := (cells h)(current \<mapsto> c\<lparr>ll_next := n\<rparr>)\<rparr>) })"

text \<open>The values that \<open>printLL\<close> prints.\<close>

partial_function (option) printLL :: "ll_heap \<Rightarrow> nat \<Rightarrow> int list option" where
  "printLL h current =
     (if current = 0 then Some []
      else do { c \<leftarrow> cells h current; vs \<leftarrow> printLL h (ll_next c); Some (ll_val c # vs) })"

fun is_list :: "ll_heap \<Rightarrow> nat \<Rightarrow> nat list \<Rightarrow> int list \<Rightarrow> bool" where
  "is_list h p [] [] \<longleftrightarrow> p = 0"
| "is_list h p (a # as) (v # vs) \<longleftrightarrow> p = a \<and> a \<noteq> 0 \<and>
     (\<exists>n. cells h a = Some \<lparr>ll_val = v, ll_next = n\<rparr> \<and> is_list h n as vs)"
| "is_list h p _ _ \<longleftrightarrow> False"

definition ll_ok :: "ll_heap \<Rightarrow> bool" where
  "ll_ok h \<longleftrightarrow> 0 < ll_brk h \<and> (\<forall>a\<ge>ll_brk h. cells h a = None)"

lemma is_list_dom: "is_list h p as vs \<Longrightarrow> a \<in> set as \<Longrightarrow> a \<noteq> 0 \<and> cells h a \<noteq> None"
  by (induction h p as vs rule: is_list.induct) auto

lemma is_list_cong:
  "is_list h p as vs \<Longrightarrow> (\<And>a. a \<in> set as \<Longrightarrow> cells h' a = cells h a) \<Longrightarrow> is_list h' p as vs"
  by (induction h p as vs rule: is_list.induct) auto

lemma print_list: "is_list h p as vs \<Longrightarrow> printLL h p = Some vs"
  by (induction h p as vs rule: is_list.induct) (subst printLL.simps; auto)+

lemma ll_end_list:
  "is_list h p as vs \<Longrightarrow> as \<noteq> [] \<Longrightarrow> ll_end h p = Some (last as)"
proof (induction h p as vs rule: is_list.induct)
  case (2 h p a as v vs)
  then obtain n where n: "cells h a = Some \<lparr>ll_val = v, ll_next = n\<rparr>" "is_list h n as vs" "p = a" by auto
  show ?case
  proof (cases as)
    case Nil
    then have "n = 0" using n(2) by (cases vs) auto
    then show ?thesis using n Nil by (subst ll_end.simps) simp
  next
    case (Cons b bs)
    then have "n \<noteq> 0" using n(2) by (cases vs) auto
    then show ?thesis using 2 n Cons by (subst ll_end.simps) simp
  qed
qed simp_all

lemma is_list_append:
  assumes "is_list h p as vs" "distinct as" "as \<noteq> []" "cells h' (last as) = Some (the (cells h (last as))\<lparr>ll_next := q\<rparr>)"
    and "\<And>a. a \<in> set as \<Longrightarrow> a \<noteq> last as \<Longrightarrow> cells h' a = cells h a" "is_list h' q [q] [w]"
  shows "is_list h' p (as @ [q]) (vs @ [w])"
  using assms
proof (induction h p as vs rule: is_list.induct)
  case (2 h p a as v vs)
  then obtain n where n: "cells h a = Some \<lparr>ll_val = v, ll_next = n\<rparr>" "is_list h n as vs" "p = a" "a \<noteq> 0" by auto
  show ?case
  proof (cases "as = []")
    case True
    then have "vs = []" using n(2) by (cases vs) auto
    then show ?thesis using n True 2(5,7) by simp
  next
    case False
    then have "a \<noteq> last as" using 2(3) by auto
    then have "cells h' a = cells h a" using 2(6) [of a] False by simp
    moreover have "is_list h' n (as @ [q]) (vs @ [w])" using 2(1) [OF n(2)] 2(3,5,6,7) False by auto
    ultimately show ?thesis using n by simp
  qed
qed simp_all

text \<open>Where the memory that \<open>malloc\<close> returns is zero, \<open>addToLL\<close> appends.\<close>

lemma addToLL_appends:
  assumes "is_list h p as vs" "distinct as" "ll_ok h" "garbage h (ll_brk h) = 0"
  shows "\<exists>q h'. addToLL p w h = Some (q, h') \<and> printLL h' q = Some (vs @ [w]) \<and> ll_ok h'"
proof (cases "as = []")
  case True
  then have p: "p = 0" "vs = []" using assms(1) by (cases vs; simp)+
  let ?h = "snd (createLL w h)"
  have "is_list ?h (ll_brk h) [ll_brk h] [w]" using assms(3,4) by (simp add: createLL_def Let_def ll_ok_def)
  from print_list [OF this] show ?thesis using p assms(3)
    by (simp add: addToLL_def createLL_def Let_def ll_ok_def)
next
  case False
  let ?q = "ll_brk h" and ?l = "last as"
  have l: "?l \<in> set as" using False by simp
  then obtain c where c: "cells h ?l = Some c" "?l \<noteq> 0" using is_list_dom [OF assms(1)] by blast
  have new: "?q \<notin> set as" "?q \<noteq> 0" using is_list_dom [OF assms(1), of ?q] assms(3) by (auto simp: ll_ok_def)
  have p: "p \<noteq> 0" using assms(1) False by (cases as; cases vs) auto
  let ?h = "h\<lparr>cells := (cells h)(?q \<mapsto> \<lparr>ll_val = w, ll_next = 0\<rparr>, ?l \<mapsto> c\<lparr>ll_next := ?q\<rparr>), ll_brk := ?q + 1\<rparr>"
  have "?q \<noteq> ?l" using new(1) l by metis
  then have a: "addToLL p w h = Some (p, ?h)"
    using p ll_end_list [OF assms(1) False] c assms(4) by (simp add: addToLL_def createLL_def Let_def)
  have "is_list ?h p (as @ [?q]) (vs @ [w])"
    using new \<open>?q \<noteq> ?l\<close> c by (intro is_list_append [OF assms(1,2) False]) auto
  from print_list [OF this] have "printLL ?h p = Some (vs @ [w])" .
  moreover have "ll_ok ?h" using assms(3) c by (auto simp: ll_ok_def)
  ultimately show ?thesis using a by blast
qed

text \<open>Otherwise the walk to the end, and the first \<open>printLL\<close>, follow what was in the block.\<close>

lemma fresh_list_dangles:
  assumes "ll_ok h" "garbage h (ll_brk h) \<noteq> 0" "cells h (garbage h (ll_brk h)) = None" "garbage h (ll_brk h) \<noteq> ll_brk h"
  shows "case createLL v h of (p, h') \<Rightarrow> printLL h' p = None \<and> addToLL p w h' = None"
proof -
  obtain p h' where c: "createLL v h = (p, h')" by fastforce
  then have h': "p = ll_brk h" "cells h' p = Some \<lparr>ll_val = v, ll_next = garbage h p\<rparr>" "cells h' (garbage h p) = None"
    using assms(3,4) by (auto simp: createLL_def Let_def)
  obtain g where g: "g = garbage h p" "g \<noteq> 0" "cells h' g = None" using h'(1,3) assms(2) by simp
  have "printLL h' g = None" "ll_end h' g = None" using g(2,3)
    by (simp_all add: printLL.simps [of h' g] ll_end.simps [of h' g])
  moreover have "p \<noteq> 0" "cells h' p = Some \<lparr>ll_val = v, ll_next = g\<rparr>" using h' assms(1) g(1) by (simp_all add: ll_ok_def)
  ultimately have "printLL h' p = None" "ll_end h' p = None" using g(2)
    by (simp_all add: printLL.simps [of h' p] ll_end.simps [of h' p])
  then show ?thesis using c \<open>p \<noteq> 0\<close> by (simp add: addToLL_def)
qed

text \<open>\<open>main\<close>: the two lists that it prints.\<close>

definition ll_main :: "ll_heap \<Rightarrow> (int list \<times> int list) option" where
  "ll_main h = (let (head, h) = createLL 1 h in do {
     before \<leftarrow> printLL h head;
     (_, h) \<leftarrow> addToLL head 2 h;
     after \<leftarrow> printLL h head;
     Some (before, after) })"

section \<open>Fibonacci numbers\<close>

text \<open>In C the sum of two ints is an int; a larger one is an overflow, with undefined behaviour.\<close>

function doFib :: "int \<Rightarrow> int option" where
  "doFib num =
     (if num \<le> 0 then Some 0
      else if num = 1 then Some 1
      else do { a \<leftarrow> doFib (num - 1); b \<leftarrow> doFib (num - 2); c_int (a + b) })"
  by pat_completeness auto
termination by (relation "measure nat") auto

declare doFib.simps [simp del]

fun fibonacci :: "nat \<Rightarrow> int" where
  "fibonacci 0 = 0"
| "fibonacci (Suc 0) = 1"
| "fibonacci (Suc (Suc n)) = fibonacci (Suc n) + fibonacci n"

text \<open>The reference, with an accumulator.\<close>

fun fib_iter :: "nat \<Rightarrow> int \<Rightarrow> int \<Rightarrow> int" where
  "fib_iter 0 a b = a"
| "fib_iter (Suc n) a b = fib_iter n b (a + b)"

lemma fib_iter_add: "fib_iter n (fibonacci k) (fibonacci (Suc k)) = fibonacci (k + n)"
proof (induction n arbitrary: k)
  case (Suc n)
  have "fibonacci k + fibonacci (Suc k) = fibonacci (Suc (Suc k))" by simp
  then show ?case using Suc [of "Suc k"] by (simp add: add.commute)
qed simp

lemma fib_bounds: "fibonacci 46 < 2 ^ 31" "2 ^ 31 \<le> fibonacci 47"
proof -
  have f: "fibonacci n = fib_iter n 0 1" for n using fib_iter_add [of n 0] by simp
  show "fibonacci 46 < 2 ^ 31" "2 ^ 31 \<le> fibonacci 47" unfolding f by code_simp+
qed

lemma fib_mono: "0 \<le> fibonacci n \<and> fibonacci n \<le> fibonacci (Suc n)"
  by (induction n rule: fibonacci.induct) auto

lemma fib_le: "m \<le> n \<Longrightarrow> fibonacci m \<le> fibonacci n"
  using lift_Suc_mono_le [of fibonacci m n] fib_mono by blast

lemma doFib_small: "n \<le> 46 \<Longrightarrow> doFib (int n) = Some (fibonacci n)"
proof (induction n rule: fibonacci.induct)
  case (3 n)
  have "fibonacci (Suc (Suc n)) \<le> fibonacci 46" "0 \<le> fibonacci (Suc (Suc n))" using 3 fib_le fib_mono by blast+
  then have "c_int (fibonacci (Suc n) + fibonacci n) = Some (fibonacci (Suc n) + fibonacci n)"
    using fib_bounds(1) by (simp add: int_of_bits_def)
  then show ?case using 3 by (subst doFib.simps) simp
qed (simp_all add: doFib.simps)

lemma doFib_large: "47 \<le> n \<Longrightarrow> doFib (int n) = None"
proof (induction n rule: less_induct)
  case (less n)
  show ?case
  proof (cases "n = 47")
    case True
    have "doFib 46 = Some (fibonacci 46)" "doFib 45 = Some (fibonacci 45)" using doFib_small [of 46] doFib_small [of 45] by simp_all
    moreover have "fibonacci (Suc (Suc 45)) = fibonacci (Suc 45) + fibonacci 45" by (rule fibonacci.simps(3))
    then have "fibonacci 47 = fibonacci 46 + fibonacci 45" by (simp del: fibonacci.simps)
    then have "c_int (fibonacci 46 + fibonacci 45) = None" using fib_bounds(2) by (simp add: int_of_bits_def)
    ultimately show ?thesis using True by (subst doFib.simps) simp
  next
    case False
    then have "doFib (int n - 1) = None" using less.IH [of "n - 1"] less.prems by (simp add: of_nat_diff)
    then show ?thesis using less.prems by (subst doFib.simps) simp
  qed
qed

text \<open>\<open>doFib\<close> is the Fibonacci function up to 46, the last value that an int holds.\<close>

lemma doFib_correct: "doFib num = (if num \<le> 46 then Some (fibonacci (nat num)) else None)"
proof (cases "num \<le> 0")
  case True
  then show ?thesis by (simp add: doFib.simps)
next
  case False
  then have "num = int (nat num)" by simp
  then show ?thesis using doFib_small [of "nat num"] doFib_large [of "nat num"] by (cases "num \<le> 46") auto
qed

text \<open>\<open>main\<close> and its thread, given what \<open>pthread_create\<close> returns: the exit status, the lines that the
  main thread prints, and those of the child. The thread only reads the argument, and \<open>main\<close> waits for it.\<close>

definition fib_thread :: "int \<Rightarrow> (int \<times> string list) option" where
  "fib_thread num = do { r \<leftarrow> doFib num; Some (r, [''Ian is a nerdbeast'']) }"

definition threads_main :: "int \<Rightarrow> string list \<Rightarrow> (int \<times> string list \<times> string list) option" where
  "threads_main created argv =
     (if length argv < 2 then Some (1, [''Usage: '' @ hd argv @ '' <num>''], [])
      else if created \<noteq> 0 then Some (1, [''Unable to spawn thread.''], [])
      else do {
        let threadArg = atoi (argv ! 1);
        (r, out) \<leftarrow> fib_thread threadArg;
        Some (0, [''Main thread waiting for child thread to complete.'',
          ''Exit status of child thread is 0 and return value for fib '' @ show_int threadArg @ '' is '' @ show_int r], out) })"

lemma threads_main_ends: "(\<exists>r. threads_main c [p, a] = Some r) \<longleftrightarrow> c \<noteq> 0 \<or> atoi a \<le> 46"
  by (simp add: threads_main_def fib_thread_def doFib_correct Let_def)

end
