(* ===== verification/Spec2Isabelle.thy ===== *)
theory Spec2Isabelle
  imports Cache_Props ParseRequest_Props ParseResponse_Props Requests Logging Copying_Props Cacheable
    Closing Failures Fetching Revalidate_Props Tunnel_Props Pool_Live Sharing Serve_Cache Jobs Proxy Races Startup ParseTime
    Sample_Net Sample_Data
begin

text \<open>
  A caching HTTP proxy, written in C.

  \<^bold>\<open>The program.\<close> The main thread accepts connections and pushes them on a stack; ten workers take
  them from there. A worker reads a request, parses it, and looks its URI up in the cache. A response
  that is still valid is sent from the cache; one that has to be revalidated is sent if its server
  confirms it; otherwise the request is forwarded, and the response forwarded back and kept, if its
  headers allow it. CONNECT requests open a tunnel. Log messages go through a queue to a thread of
  their own. SIGINT stops the workers and frees what is shared.

  \<^bold>\<open>The model.\<close> Every function is an executable HOL function of the state it works on, with the names of
  the source. It returns an option: \<open>None\<close> is undefined behaviour of C (an access outside of a block, a
  use of freed or uninitialised memory, an overflow of a signed integer where it matters). Other
  failures are values as in the code (a negative number, NULL, a sum whose \<open>Inl\<close> is an early return).
  Buffers are lists of bytes with the size of their allocation, and a pointer into one is an offset;
  the cache, the stack and the log queue are nodes on an explicit heap, so that freeing twice, leaks and
  dangling pointers can be seen. Threads are step relations.

  \<^item> \<^verbatim>\<open>Prelude\<close>: the option monad with checks, signed C arithmetic, reachable states and the interfaces
    \<open>invariant_system\<close> and \<open>simulation\<close>. \<^verbatim>\<open>CString\<close>: the string functions of the C library on buffers. \<^verbatim>\<open>Linked\<close>: linked
    lists in a heap.
  \<^item> \<^verbatim>\<open>Timeparse\<close> (\<^verbatim>\<open>src/timeparse.c\<close>): calendar dates, \<open>timeAgtB\<close>, \<open>getTimeFromExpiry\<close> and the strings
    of the log; \<open>expiry_after_max_age\<close>: an expiry time is reached after exactly the announced seconds.
    \<^verbatim>\<open>ParseTime\<close>: \<open>parseTime\<close>, with \<open>strptime\<close> by the format of the code, and \<open>printTime\<close>; the
    round trip of the dates of HTTP.
  \<^item> \<^verbatim>\<open>Cache\<close>, \<^verbatim>\<open>Cache_Rep\<close>, \<^verbatim>\<open>Cache_Map\<close>, \<^verbatim>\<open>Cache_Clear\<close>, \<^verbatim>\<open>Cache_Spec\<close>, \<^verbatim>\<open>Cache_Props\<close>
    (\<^verbatim>\<open>src/cache.c\<close>): \<open>MAP\<close> and its nodes as the record \<open>heap\<close>; the invariant \<open>cache_ok\<close> (chains without
    sharing, every key in its bucket, all blocks owned once) and the abstraction \<open>cache_view\<close> to a partial
    function from URIs to entries; \<open>cache_key\<close>: the URIs that hash to one of the buckets, all others make
    the code read outside of \<open>MAP\<close>; the interface \<open>dictionary\<close> that \<open>get\<close> and \<open>put\<close> implement.
  \<^item> \<^verbatim>\<open>ParseRequest\<close>, \<^verbatim>\<open>ParseRequest_Spec\<close>, \<^verbatim>\<open>ParseRequest_Props\<close> and \<^verbatim>\<open>ParseResponse\<close>,
    \<^verbatim>\<open>ParseResponse_Spec\<close>, \<^verbatim>\<open>ParseResponse_Headers\<close>, \<^verbatim>\<open>ParseResponse_Props\<close> (\<open>parseRequest\<close>,
    \<open>parseResponse\<close>, \<open>parseCacheHeaders\<close> of \<^verbatim>\<open>src/threadPool.c\<close>): the parsers cut the buffer with
    \<open>strsep\<close> and put it together again, because it is what is forwarded. The specifications are functions
    of the lines; the lemmas show that the parsers compute them and restore the buffer.
  \<^item> \<^verbatim>\<open>Requests\<close> (\<open>stackEmpty\<close>, \<open>pop\<close>, \<open>push\<close>, \<open>freeAll\<close>): the stack, refined to a list of descriptors
    (\<open>waiting\<close>), behind the interface \<open>lifo\<close>.
  \<^item> \<^verbatim>\<open>Logging\<close> (\<^verbatim>\<open>src/logging.c\<close>): the queue, behind the interface \<open>fifo\<close>, and the logger thread.
  \<^item> \<^verbatim>\<open>Sockets\<close> (with \<open>writeall\<close>), \<^verbatim>\<open>Copying\<close>, \<^verbatim>\<open>Copying_Props\<close> (\<open>transferChunks\<close>, \<open>bufferedForward\<close>):
    the peer of a socket is a script of what arrives, when it pauses and how much of a write it takes;
    the properties hold for all scripts.
  \<^item> \<^verbatim>\<open>Cacheable\<close> (\<open>cacheable\<close>): the decision, equal to a reference on the abstract entry.
  \<^item> \<^verbatim>\<open>Forward\<close>, \<^verbatim>\<open>Forward_Spec\<close>, \<^verbatim>\<open>Tunnel_Props\<close> (\<open>connectToServer\<close>, \<open>forwardRequest\<close>): the record \<open>world\<close>
    holds the cache, the messages logged, the client and the descriptors. \<^verbatim>\<open>Revalidate\<close>,
    \<^verbatim>\<open>Revalidate_Spec\<close>, \<^verbatim>\<open>Revalidate_Props\<close> (\<open>getRevalidation\<close>).
  \<^item> \<^verbatim>\<open>Worker\<close>, \<^verbatim>\<open>Reading\<close>, \<^verbatim>\<open>Worker_Spec\<close>, \<^verbatim>\<open>Worker_Props\<close>, \<^verbatim>\<open>Fetching\<close>, \<^verbatim>\<open>Closing\<close>, \<^verbatim>\<open>Failures\<close>,
    \<^verbatim>\<open>Serve_Cache\<close> (one request of
    \<open>serviceRequest\<close>): the composition of all the parts above. \<open>miss_then_hit\<close> follows a page from the
    server through the parser into the cache and to the next client, also when it replaces an expired one;
    \<open>forbidden_page_not_shared\<close>: what must not be cached is not; \<open>connection_closed_once\<close> and
    \<open>serve_keeps_cache\<close> cover every path. \<^verbatim>\<open>Sharing\<close>: another worker stores a response while one is being sent from the cache.
  \<^item> \<^verbatim>\<open>Pool\<close>, \<^verbatim>\<open>Pool_Inv\<close>, \<^verbatim>\<open>Pool_Props\<close>, \<^verbatim>\<open>Pool_Live\<close> (the loops of \<open>main\<close> and \<open>serviceRequest\<close>, \<open>push\<close>,
    \<open>incrExit\<close>, \<open>quit\<close>): the threads as a step relation over the stack, the two mutexes and the conditions;
    who holds a mutex, where every connection is, the phases of the shutdown, when it can end and when not.
    SIGINT may be handled in the main thread, a worker or the logger; \<open>accept\<close> may fail, which ends the
    model. The flag \<open>spurious\<close> allows the wait of \<open>quit\<close> to wake up without a signal.
  \<^item> \<^verbatim>\<open>Jobs\<close>: \<open>serviceRequest\<close> cut into the pieces that work on the shared cache: the lookup, the sending of
    a cached response, the reading of the old tag, the writing of the new one and the \<open>put\<close> of a
    revalidation, the \<open>put\<close> of a forwarded response; reads from and writes to the network are between
    or in them. One after the other they are the whole
    (\<open>serve_request_jobs\<close>). A revalidation keeps the pointer of its node from the first piece to the last:
    whatever the others do, it stays the node of its URI, and to write there does not fault (\<open>act_writes\<close>).
    \<open>answers_cross\<close>: two revalidations can leave the tag of one answer with the text of the other.
  \<^item> \<^verbatim>\<open>Proxy\<close>: the pool, with these pieces in place of the step that serves a connection, so that those of
    different workers interleave; it refines the pool, because the code closes its connection exactly
    once, with its last piece, and all its states have a well-formed cache. \<^verbatim>\<open>Races\<close>: the pointer into
    the cache that a worker holds stays good as long as no other worker writes to the entry of the same URI.
  \<^item> \<^verbatim>\<open>Startup\<close> (\<open>main\<close> before its loop, \<open>spawnThreads\<close>, \<open>initlogging\<close>): the statements of \<open>main\<close>, with
    the logger beside them; the results of the system calls are the record \<open>os\<close>. The rights under which
    the port is bound and requests are served; the race for the log file; the start comes to an end.
  \<^item> \<^verbatim>\<open>Sample_Net\<close>, \<^verbatim>\<open>Sample_Data\<close> (\<^verbatim>\<open>src/sockets\<close>, \<^verbatim>\<open>src/extra\<close>, \<^verbatim>\<open>src/threads\<close>): the servers and clients
    on which the proxy was tried out, and the exercises with a list and a thread. Servers greet every
    client once in every order of their threads; the clients print what arrived, if it fits; \<open>doFib\<close> is
    the Fibonacci function as long as an int holds it.

  \<^bold>\<open>Bounds and fuel.\<close> Loops that wait for a peer count down \<open>grace\<close> (10 for a request, 100 for chunks and
  a revalidation, 10000 for a response) as in the code, and every other round takes something from the
  script, so all loops over sockets are total functions. The loops over heap lists are
  \<open>partial_function\<close>s; that they return is part of the lemmas of their invariants. Buffers have the
  sizes of the code: 8193 bytes for requests and responses (the former grows), 1024 for a chunk, 200 for a
  log line, 50 for the buffer of the logger and the time strings, 30 for the identifier of a request. The
  hypotheses bound what is printed into the fixed buffers, as the code has to, and the buffers that are
  doubled by 2^30 bytes, up to which no \<open>int\<close> overflows.

  \<^bold>\<open>What the outside is assumed to do.\<close> \<open>net\<close> stands for \<open>socket\<close>, \<open>getaddrinfo\<close> and \<open>connect\<close>, and
  \<open>env\<close> for the clock, the time zone, the address of the client and one uninitialised byte: they are
  parameters. \<open>malloc\<close> never fails.

  \<^bold>\<open>Not modelled.\<close> Several workers inside the functions of the cache at the same time: \<open>putKey\<close> locks
  \<open>cacheLock\<close>, but readers and the writing of a tag do not, so C gives such executions no meaning. A piece of
  \<open>Jobs\<close> is one step (\<open>Sharing\<close> and \<open>Races\<close> cover a store between the lookup of a worker and what it does
  with the result). What a worker leaks of its own memory. The totals of bytes that the tunnel counts and
  that \<open>forwardRequest\<close> prints are unbounded; the counters of the copying functions and the sizes of the
  buffers that are doubled (\<open>reqBuffSize\<close>, \<open>currentCacheBuffCap\<close>) are \<open>int\<close>s that overflow. The pointer arithmetic around \<open>strcasestr\<close>, taken to give the pointer that it reconstructs. The array
  for the address of the client (46 bytes), which is cleared over its end (50 bytes). Time zones with daylight
  saving. A second SIGINT, and one that arrives before the threads are started. The messages that the
  proxy prints to the terminal, which a daemon does not have. The programs under \<^verbatim>\<open>unixrevision\<close>, which
  fork and print.

  \<^bold>\<open>What was found.\<close> Several theorems state what goes wrong: descriptors that are never closed, a request
  that ends the process, buffers that overflow, a shutdown that hangs, a start whose outcome depends on the scheduler.
\<close>

end
